(* ===== verification/Prelude.thy ===== *)
theory Prelude
  imports Main "HOL-Library.Char_ord" "HOL-Library.List_Lexorder" "HOL-Library.Word"
begin

text \<open>
  The vocabulary every component shares: fallible results as sums with an error-first
  bind, Go strings and byte slices as character lists with the functions of the packages
  \<^verbatim>\<open>strings\<close> and \<^verbatim>\<open>bytes\<close> the sources call, and times and durations as integers
  (nanoseconds).  A \<^verbatim>\<open>time.Time\<close> counts nanoseconds from Go's zero time, so
  \<^verbatim>\<open>IsZero\<close> is equality with 0.
\<close>

named_theorems result_simps "case analysis of fallible results"
named_theorems string_simps "evaluation of string operations"

section \<open>Fallible results\<close>

definition try_bind :: "'e + 'a \<Rightarrow> ('a \<Rightarrow> 'e + 'b) \<Rightarrow> 'e + 'b" where
  "try_bind m f = (case m of Inl e \<Rightarrow> Inl e | Inr x \<Rightarrow> f x)"

definition guard_err :: "bool \<Rightarrow> 'e \<Rightarrow> 'e + unit" where
  "guard_err b e = (if b then Inl e else Inr ())"

lemma try_bind_simps [simp]:
  "try_bind (Inl e) f = Inl e"
  "try_bind (Inr x) f = f x"
  by (simp_all add: try_bind_def)

lemma try_bind_Inr [result_simps]:
  "try_bind m f = Inr y \<longleftrightarrow> (\<exists>x. m = Inr x \<and> f x = Inr y)"
  by (cases m) simp_all

lemma guard_err_Inr [result_simps]: "guard_err b e = Inr u \<longleftrightarrow> \<not> b"
  by (simp add: guard_err_def)

lemma guard_err_simps [simp]:
  "guard_err True e = Inl e"
  "guard_err False e = Inr ()"
  by (simp_all add: guard_err_def)

fun is_ok :: "'e + 'a \<Rightarrow> bool" where
  "is_ok (Inl e) = False"
| "is_ok (Inr x) = True"

lemma is_ok_iff: "is_ok r \<longleftrightarrow> (\<exists>x. r = Inr x)"
  by (cases r) auto

lemma not_is_ok_iff: "\<not> is_ok r \<longleftrightarrow> (\<exists>e. r = Inl e)"
  by (cases r) auto

text \<open>A fallible function mapped over a list stops at the first error.\<close>

fun try_map :: "('a \<Rightarrow> 'e + 'b) \<Rightarrow> 'a list \<Rightarrow> 'e + 'b list" where
  "try_map f [] = Inr []"
| "try_map f (x # xs) = try_bind (f x) (\<lambda>y. try_bind (try_map f xs) (\<lambda>ys. Inr (y # ys)))"

lemma try_map_length: "try_map f xs = Inr ys \<Longrightarrow> length ys = length xs"
  by (induction xs arbitrary: ys) (auto simp: result_simps)

lemma try_map_set:
  "try_map f xs = Inr ys \<Longrightarrow> y \<in> set ys \<Longrightarrow> \<exists>x \<in> set xs. f x = Inr y"
  by (induction xs arbitrary: ys) (auto simp: result_simps)

lemma try_map_map:
  "(\<And>x. x \<in> set xs \<Longrightarrow> f (g x) = Inr x) \<Longrightarrow> try_map f (map g xs) = Inr xs"
  by (induction xs) auto

section \<open>Times and durations\<close>

type_synonym time = int
type_synonym duration = int

abbreviation zero_time :: time where "zero_time \<equiv> 0"

abbreviation second :: duration where "second \<equiv> 1000000000"
abbreviation minute :: duration where "minute \<equiv> 60 * second"
abbreviation hour :: duration where "hour \<equiv> 60 * minute"

text \<open>\<^verbatim>\<open>Time.Sub\<close> saturates at the limits of a 64-bit duration.\<close>

definition time_sub :: "time \<Rightarrow> time \<Rightarrow> duration" where
  "time_sub t u = max (- (2 ^ 63)) (min (2 ^ 63 - 1) (t - u))"

lemma time_sub_gt:
  "- (2 ^ 63) \<le> d \<Longrightarrow> d < 2 ^ 63 - 1 \<Longrightarrow> time_sub t u > d \<longleftrightarrow> t - u > d"
  by (auto simp: time_sub_def)

lemma time_sub_in_range:
  "- (2 ^ 63) \<le> t - u \<Longrightarrow> t - u \<le> 2 ^ 63 - 1 \<Longrightarrow> time_sub t u = t - u"
  by (simp add: time_sub_def)

text \<open>
  \<^verbatim>\<open>time.Unix(s, 0)\<close> and \<^verbatim>\<open>t.Unix()\<close>: the seconds are a 64-bit integer, and adding the
  offset of the Unix epoch from the zero time wraps.
\<close>

definition unix_offset :: "64 word" where
  "unix_offset = 62135596800"

definition time_of_unix :: "64 word \<Rightarrow> time" where
  "time_of_unix s = sint (s + unix_offset) * second"

definition unix_of_time :: "time \<Rightarrow> 64 word" where
  "unix_of_time t = word_of_int (t div second) - unix_offset"

lemma unix_of_time_of_unix [simp]: "unix_of_time (time_of_unix s) = s"
  by (simp add: unix_of_time_def time_of_unix_def)

definition whole_seconds :: "time \<Rightarrow> bool" where
  "whole_seconds t \<longleftrightarrow> second dvd t \<and> - (2 ^ 63) \<le> t div second \<and> t div second < 2 ^ 63"

lemma time_of_unix_of_time: "whole_seconds t \<Longrightarrow> time_of_unix (unix_of_time t) = t"
  by (auto simp: whole_seconds_def time_of_unix_def unix_of_time_def sint_word_ariths
      signed_of_int signed_take_bit_int_eq_self)

lemma whole_seconds_time_of_unix: "whole_seconds (time_of_unix s)"
  using sint_range_size [of "s + unix_offset"]
  by (auto simp: whole_seconds_def time_of_unix_def word_size)

end
