(* ===== verification/Go_Strings.thy ===== *)
theory Go_Strings
  imports Prelude
begin

text \<open>
  The functions of the Go packages \<^verbatim>\<open>strings\<close>, \<^verbatim>\<open>bytes\<close>, \<^verbatim>\<open>strconv\<close> and \<^verbatim>\<open>net\<close> the
  sources call, on byte strings (a Go string is a sequence of bytes, here a list of
  characters).  \<open>to_lower\<close> takes the Unicode lower-casing of a string with a non-ASCII
  byte as a parameter, since that is a table of the standard library; on ASCII strings
  the two fast paths of the library are written out.
\<close>

type_synonym bytes = "char list"

definition zero32 :: bytes where
  "zero32 = replicate 32 (CHR 0x00)"

lemma length_zero32 [simp]: "length zero32 = 32"
  by (simp add: zero32_def)

section \<open>Characters\<close>

abbreviation char_nat :: "char \<Rightarrow> nat" where "char_nat c \<equiv> of_char c"
abbreviation nat_char :: "nat \<Rightarrow> char" where "nat_char n \<equiv> char_of n"

definition is_ascii_char :: "char \<Rightarrow> bool" where
  "is_ascii_char c \<longleftrightarrow> char_nat c < 128"

definition is_digit :: "char \<Rightarrow> bool" where
  "is_digit c \<longleftrightarrow> 48 \<le> char_nat c \<and> char_nat c \<le> 57"

definition is_upper :: "char \<Rightarrow> bool" where
  "is_upper c \<longleftrightarrow> 65 \<le> char_nat c \<and> char_nat c \<le> 90"

definition is_lower :: "char \<Rightarrow> bool" where
  "is_lower c \<longleftrightarrow> 97 \<le> char_nat c \<and> char_nat c \<le> 122"

definition lower_char :: "char \<Rightarrow> char" where
  "lower_char c = (if is_upper c then nat_char (char_nat c + 32) else c)"

definition is_hex :: "char \<Rightarrow> bool" where
  "is_hex c \<longleftrightarrow> is_digit c \<or> (97 \<le> char_nat c \<and> char_nat c \<le> 102)
     \<or> (65 \<le> char_nat c \<and> char_nat c \<le> 70)"

lemma lower_char_not_upper: "\<not> is_upper (lower_char c)"
  by (auto simp: lower_char_def is_upper_def)

lemma lower_char_id: "\<not> is_upper c \<Longrightarrow> lower_char c = c"
  by (simp add: lower_char_def)

lemma lower_char_idem [simp]: "lower_char (lower_char c) = lower_char c"
  by (simp add: lower_char_id lower_char_not_upper)

lemma ascii_lower_char [simp]: "is_ascii_char (lower_char c) = is_ascii_char c"
  by (auto simp: lower_char_def is_upper_def is_ascii_char_def)

lemma char_nat_lower: "char_nat (lower_char c) = (if is_upper c then char_nat c + 32 else char_nat c)"
  by (auto simp: lower_char_def is_upper_def)

lemma lower_char_dot [simp]: "lower_char c = CHR ''.'' \<longleftrightarrow> c = CHR ''.''"
proof -
  have "char_nat (lower_char c) = char_nat (CHR ''.'') \<longleftrightarrow> char_nat c = char_nat (CHR ''.'')"
    by (auto simp: char_nat_lower is_upper_def)
  then show ?thesis by (simp only: of_char_eq_iff)
qed

section \<open>Case\<close>

text \<open>\<^verbatim>\<open>strings.ToLower\<close> and \<^verbatim>\<open>strings.EqualFold\<close>; the first argument is the table for
  strings with a non-ASCII byte.\<close>

definition ascii_str :: "string \<Rightarrow> bool" where
  "ascii_str s = list_all is_ascii_char s"

definition to_lower :: "(string \<Rightarrow> string) \<Rightarrow> string \<Rightarrow> string" where
  "to_lower u s = (if ascii_str s then map lower_char s else u s)"

definition equal_fold :: "(string \<Rightarrow> string \<Rightarrow> bool) \<Rightarrow> string \<Rightarrow> string \<Rightarrow> bool" where
  "equal_fold f s t =
     (if ascii_str s \<and> ascii_str t then map lower_char s = map lower_char t else f s t)"

lemma to_lower_ascii: "ascii_str s \<Longrightarrow> to_lower u s = map lower_char s"
  by (simp add: to_lower_def)

lemma equal_fold_refl_ascii: "ascii_str s \<Longrightarrow> equal_fold f s s"
  by (simp add: equal_fold_def)

section \<open>Prefixes, searching, splitting\<close>

definition starts_with :: "string \<Rightarrow> string \<Rightarrow> bool" where
  "starts_with p s \<longleftrightarrow> take (length p) s = p"

fun contains_str :: "string \<Rightarrow> string \<Rightarrow> bool" where
  "contains_str sub [] = (sub = [])"
| "contains_str sub (c # s) = (starts_with sub (c # s) \<or> contains_str sub s)"

definition contains_any :: "string \<Rightarrow> string \<Rightarrow> bool" where
  "contains_any s cs \<longleftrightarrow> list_ex (\<lambda>c. c \<in> set cs) s"

definition trim_suffix_char :: "char \<Rightarrow> string \<Rightarrow> string" where
  "trim_suffix_char c s = (if s \<noteq> [] \<and> last s = c then butlast s else s)"

fun split_on :: "char \<Rightarrow> string \<Rightarrow> string list" where
  "split_on c [] = [[]]"
| "split_on c (x # xs) =
     (if x = c then [] # split_on c xs
      else (case split_on c xs of [] \<Rightarrow> [[x]] | y # ys \<Rightarrow> (x # y) # ys))"

fun cut_on :: "char \<Rightarrow> string \<Rightarrow> (string \<times> string) option" where
  "cut_on c [] = None"
| "cut_on c (x # xs) =
     (if x = c then Some ([], xs)
      else map_option (\<lambda>(a, b). (x # a, b)) (cut_on c xs))"

lemma starts_with_append [simp]: "starts_with p (p @ s)"
  by (simp add: starts_with_def)

lemma starts_with_iff: "starts_with p s \<longleftrightarrow> (\<exists>t. s = p @ t)"
  by (auto simp: starts_with_def intro: exI [of _ "drop (length p) s"])
    (metis append_take_drop_id)

lemma starts_with_Cons [simp]:
  "starts_with [] s"
  "\<not> starts_with (c # p) []"
  "starts_with (c # p) (d # s) \<longleftrightarrow> c = d \<and> starts_with p s"
  by (auto simp: starts_with_def)

lemma contains_any_iff: "contains_any s cs \<longleftrightarrow> set s \<inter> set cs \<noteq> {}"
  by (auto simp: contains_any_def list_ex_iff)

lemma split_on_nonempty [simp]: "split_on c s \<noteq> []"
  by (induction s) (auto split: list.splits)

lemma split_on_no_sep: "c \<notin> set s \<Longrightarrow> split_on c s = [s]"
  by (induction s) auto

lemma split_on_append: "c \<notin> set a \<Longrightarrow> split_on c (a @ c # b) = a # split_on c b"
  by (induction a) auto

lemma split_on_parts: "p \<in> set (split_on c s) \<Longrightarrow> c \<notin> set p \<and> set p \<subseteq> set s"
proof (induction s arbitrary: p)
  case Nil
  then show ?case by simp
next
  case (Cons x xs)
  obtain y ys where sp: "split_on c xs = y # ys"
    by (metis list.exhaust split_on_nonempty)
  show ?case
  proof (cases "x = c")
    case True
    with Cons show ?thesis by fastforce
  next
    case False
    with Cons.prems sp have "p = x # y \<or> p \<in> set ys" by auto
    moreover from Cons.IH sp have "c \<notin> set y \<and> set y \<subseteq> set xs" by auto
    moreover from Cons.IH sp have "p \<in> set ys \<Longrightarrow> c \<notin> set p \<and> set p \<subseteq> set xs" by auto
    ultimately show ?thesis using False by auto
  qed
qed

lemma cut_on_append: "c \<notin> set a \<Longrightarrow> cut_on c (a @ c # b) = Some (a, b)"
  by (induction a) auto

lemma cut_on_Some: "cut_on c s = Some (a, b) \<longleftrightarrow> s = a @ c # b \<and> c \<notin> set a"
proof
  assume "cut_on c s = Some (a, b)"
  then show "s = a @ c # b \<and> c \<notin> set a"
    by (induction s arbitrary: a) (auto split: if_splits)
qed (auto simp: cut_on_append)

section \<open>White space\<close>

text \<open>
  \<^verbatim>\<open>strings.TrimSpace\<close>: the code points of \<^verbatim>\<open>unicode.IsSpace\<close> as UTF-8 sequences of one,
  two or three bytes.  \<open>space_prefix\<close> is the length of such a sequence at the start of a
  string (0 when there is none); \<open>space_suffix\<close> reads the reversed string.
\<close>

definition space1 :: "char \<Rightarrow> bool" where
  "space1 a = (let n = char_nat a in n = 32 \<or> 9 \<le> n \<and> n \<le> 13)"

definition space2 :: "char \<Rightarrow> char \<Rightarrow> bool" where
  "space2 a b = (char_nat a = 0xC2 \<and> (char_nat b = 0x85 \<or> char_nat b = 0xA0))"

definition space3 :: "char \<Rightarrow> char \<Rightarrow> char \<Rightarrow> bool" where
  "space3 a b c =
     (let x = char_nat a; y = char_nat b; z = char_nat c in
      x = 0xE1 \<and> y = 0x9A \<and> z = 0x80
      \<or> x = 0xE2 \<and> y = 0x80 \<and> (0x80 \<le> z \<and> z \<le> 0x8A \<or> z = 0xA8 \<or> z = 0xA9 \<or> z = 0xAF)
      \<or> x = 0xE2 \<and> y = 0x81 \<and> z = 0x9F
      \<or> x = 0xE3 \<and> y = 0x80 \<and> z = 0x80)"

fun space_prefix :: "string \<Rightarrow> nat" where
  "space_prefix [] = 0"
| "space_prefix [a] = (if space1 a then 1 else 0)"
| "space_prefix [a, b] = (if space1 a then 1 else if space2 a b then 2 else 0)"
| "space_prefix (a # b # c # s) =
     (if space1 a then 1 else if space2 a b then 2 else if space3 a b c then 3 else 0)"

fun space_suffix :: "string \<Rightarrow> nat" where
  "space_suffix [] = 0"
| "space_suffix [a] = (if space1 a then 1 else 0)"
| "space_suffix [b, a] = (if space1 b then 1 else if space2 a b then 2 else 0)"
| "space_suffix (c # b # a # s) =
     (if space1 c then 1 else if space2 b c then 2 else if space3 a b c then 3 else 0)"

lemma space_prefix_pos: "0 < space_prefix s \<Longrightarrow> 0 < length s"
  by (cases s) auto

lemma space_suffix_pos: "0 < space_suffix s \<Longrightarrow> 0 < length s"
  by (cases s) auto

function trim_left :: "string \<Rightarrow> string" where
  "trim_left s = (if space_prefix s = 0 then s else trim_left (drop (space_prefix s) s))"
  by pat_completeness auto
termination
  by (relation "measure length") (auto intro: diff_less dest: space_prefix_pos)

function trim_left_rev :: "string \<Rightarrow> string" where
  "trim_left_rev s = (if space_suffix s = 0 then s else trim_left_rev (drop (space_suffix s) s))"
  by pat_completeness auto
termination
  by (relation "measure length") (auto intro: diff_less dest: space_suffix_pos)

declare trim_left.simps [simp del] trim_left_rev.simps [simp del]

definition trim_space :: "string \<Rightarrow> string" where
  "trim_space s = rev (trim_left_rev (rev (trim_left s)))"

definition plain_char :: "char \<Rightarrow> bool" where
  "plain_char c \<longleftrightarrow> is_ascii_char c \<and> \<not> space1 c"

lemma space_prefix_plain: "s = [] \<or> plain_char (hd s) \<Longrightarrow> space_prefix s = 0"
  by (cases s rule: space_prefix.cases)
    (auto simp: plain_char_def is_ascii_char_def space2_def space3_def)

lemma space_suffix_plain: "s = [] \<or> plain_char (hd s) \<Longrightarrow> space_suffix s = 0"
  by (cases s rule: space_suffix.cases)
    (auto simp: plain_char_def is_ascii_char_def space2_def space3_def)

lemma trim_left_plain: "s = [] \<or> plain_char (hd s) \<Longrightarrow> trim_left s = s"
  by (subst trim_left.simps) (simp add: space_prefix_plain)

lemma trim_space_plain:
  assumes "s = [] \<or> plain_char (hd s) \<and> plain_char (last s)"
  shows "trim_space s = s"
proof -
  have "trim_left s = s" using assms by (intro trim_left_plain) auto
  moreover have "trim_left_rev (rev s) = rev s"
    using assms by (subst trim_left_rev.simps) (auto simp: space_suffix_plain hd_rev)
  ultimately show ?thesis by (simp add: trim_space_def)
qed

lemma trim_left_space: "trim_left (CHR '' '' # s) = trim_left s"
proof -
  have "space_prefix (CHR '' '' # s) = 1"
    by (cases s rule: space_prefix.cases) (auto simp: space1_def)
  then show ?thesis by (subst trim_left.simps) simp
qed

lemma trim_space_space: "trim_space (CHR '' '' # s) = trim_space s"
  by (simp add: trim_space_def trim_left_space)

lemma trim_space_plain_all: "(\<And>c. c \<in> set s \<Longrightarrow> plain_char c) \<Longrightarrow> trim_space s = s"
  by (rule trim_space_plain) auto

end
