(* ===== verification/Errors.thy ===== *)
theory Errors
  imports Go_Strings
begin

text \<open>
  \<^verbatim>\<open>errors.go\<close>: failure classes, classified errors, the sentinels callers decide policy
  on, and the error that holds mail.  An error value is its wrapping structure: that is
  what \<^verbatim>\<open>errors.As\<close> and \<^verbatim>\<open>errors.Is\<close> walk and all that any decision reads.  A message is
  represented by its format string; the arguments formatted into it are not modelled, and
  no code reads them back.  A text that may be empty (\<^verbatim>\<open>LastError\<close>, an issue's detail, an
  alert) is an optional error value, \<open>None\<close> for the empty string.
\<close>

datatype failure_class =
  FailureNetwork | FailureTLS | FailureAbsent | FailureHTTP | FailureProtocol | FailurePolicy

datatype sentinel =
  ErrNoKey | ErrDisabled | ErrKidRebind | ErrEncryptionRequired | ErrIdentityRefused
| ErrChainTooLong | ErrChainBroken | ErrRevoked

text \<open>The transport errors of \<^verbatim>\<open>crypto/tls\<close> and \<^verbatim>\<open>crypto/x509\<close> the resolver tells apart.\<close>

datatype transport_kind =
  CertificateVerificationError | HostnameError | UnknownAuthorityError
| CertificateInvalidError | OtherTransportError

datatype gerr =
  Msg string
| Wrapped string gerr
| Classified failure_class string gerr
| Required string "gerr option"
| Sentinel sentinel
| Transport transport_kind

type_synonym prose = "gerr option"

section \<open>Building and reading errors\<close>

definition Failf :: "failure_class \<Rightarrow> string \<Rightarrow> string \<Rightarrow> gerr" where
  "Failf cls domain format = Classified cls domain (Msg format)"

definition Fail :: "failure_class \<Rightarrow> string \<Rightarrow> gerr \<Rightarrow> gerr" where
  "Fail cls domain e = Classified cls domain e"

definition FailRequired :: "string \<Rightarrow> gerr option \<Rightarrow> gerr" where
  "FailRequired domain cause = Required domain cause"

fun err_unwrap :: "gerr \<Rightarrow> gerr option" where
  "err_unwrap (Wrapped s e) = Some e"
| "err_unwrap (Classified c d e) = Some e"
| "err_unwrap (Required d c) = c"
| "err_unwrap _ = None"

text \<open>\<^verbatim>\<open>ClassOf\<close>: the class of the first classified error along the chain.\<close>

fun ClassOf :: "gerr \<Rightarrow> failure_class option" where
  "ClassOf (Classified c d e) = Some c"
| "ClassOf (Wrapped s e) = ClassOf e"
| "ClassOf (Required d (Some e)) = ClassOf e"
| "ClassOf _ = None"

text \<open>\<^verbatim>\<open>errors.Is\<close> against a sentinel; a required error matches \<^verbatim>\<open>ErrEncryptionRequired\<close>.\<close>

fun err_is :: "sentinel \<Rightarrow> gerr \<Rightarrow> bool" where
  "err_is t (Sentinel s) = (s = t)"
| "err_is t (Wrapped s e) = err_is t e"
| "err_is t (Classified c d e) = err_is t e"
| "err_is t (Required d None) = (t = ErrEncryptionRequired)"
| "err_is t (Required d (Some e)) = (t = ErrEncryptionRequired \<or> err_is t e)"
| "err_is t _ = False"

definition is_required :: "gerr \<Rightarrow> bool" where
  "is_required e = err_is ErrEncryptionRequired e"

lemma is_required_FailRequired [simp]: "is_required (FailRequired d c)"
  by (cases c) (simp_all add: is_required_def FailRequired_def)

lemma ClassOf_Fail [simp]:
  "ClassOf (Fail c d e) = Some c"
  "ClassOf (Failf c d m) = Some c"
  by (simp_all add: Fail_def Failf_def)

lemma ClassOf_FailRequired [simp]: "ClassOf (FailRequired d (Some e)) = ClassOf e"
  by (simp add: FailRequired_def)

lemma err_is_FailRequired:
  "err_is t (FailRequired d (Some e)) \<longleftrightarrow> t = ErrEncryptionRequired \<or> err_is t e"
  by (simp add: FailRequired_def)

text \<open>Both walks follow the unwrap chain.\<close>

lemma ClassOf_unwrap:
  "ClassOf e = (case e of Classified c d e' \<Rightarrow> Some c
     | _ \<Rightarrow> (case err_unwrap e of None \<Rightarrow> None | Some e' \<Rightarrow> ClassOf e'))"
  by (cases e) (auto split: option.splits)

lemma err_is_unwrap: "err_unwrap e = Some e' \<Longrightarrow> err_is t e' \<Longrightarrow> err_is t e"
  by (cases e) auto

section \<open>Wrapping a failure\<close>

definition wrap_err :: "string \<Rightarrow> gerr + 'a \<Rightarrow> gerr + 'a" where
  "wrap_err format r = (case r of Inl e \<Rightarrow> Inl (Wrapped format e) | Inr x \<Rightarrow> Inr x)"

definition opt_err :: "gerr \<Rightarrow> 'a option \<Rightarrow> gerr + 'a" where
  "opt_err e x = (case x of None \<Rightarrow> Inl e | Some y \<Rightarrow> Inr y)"

lemma wrap_err_Inr [result_simps]: "wrap_err s r = Inr x \<longleftrightarrow> r = Inr x"
  by (cases r) (simp_all add: wrap_err_def)

lemma opt_err_Inr [result_simps]: "opt_err e x = Inr y \<longleftrightarrow> x = Some y"
  by (cases x) (simp_all add: opt_err_def)

lemma wrap_opt_simps [simp]:
  "wrap_err s (Inr x) = Inr x" "wrap_err s (Inl e) = Inl (Wrapped s e)"
  "opt_err e (Some y) = Inr y" "opt_err e None = Inl e"
  by (simp_all add: wrap_err_def opt_err_def)

text \<open>A refusal written as an early return.\<close>

lemma if_Inl_Inr [result_simps]:
  "(if b then Inl e else r) = Inr x \<longleftrightarrow> \<not> b \<and> r = Inr x"
  by simp

end
