(* ===== verification/Types.thy ===== *)
theory Types
  imports Errors
begin

text \<open>
  The types of the root package (\<^verbatim>\<open>mailkey.go\<close>): manifests, advertisements, observations,
  fetch results, the peer record with its identity state, and the capability latch.  A
  string enumeration becomes a datatype; where the code can meet another value (the zero
  string of a record written by hand) the datatype has a constructor for it.  A 32-byte
  identifier is a byte string.
\<close>

definition Version :: string where "Version = ''MKDP1''"
definition Mode :: string where "Mode = ''https''"
definition SubjectQueryParam :: string where "SubjectQueryParam = ''d''"
definition MaxAuthorityEntries :: nat where "MaxAuthorityEntries = 4"
definition HeaderName :: string where "HeaderName = ''Mail-Key''"
definition HeaderEncrypted :: string where "HeaderEncrypted = ''Mail-Key-Encrypted''"
definition HeaderSuite :: string where "HeaderSuite = ''Mail-Key-Suite''"
definition HeaderIdentity :: string where "HeaderIdentity = ''Mail-Key-Identity''"
definition HeaderSigner :: string where "HeaderSigner = ''Mail-Key-Signer''"
definition HeaderSignature :: string where "HeaderSignature = ''Mail-Key-Signature''"
definition DNSPrefix :: string where "DNSPrefix = ''_mailkey''"
definition HostPrefix :: string where "HostPrefix = ''mail''"
definition WellKnownPath :: string where "WellKnownPath = ''/.well-known/mail-key''"
definition MediaType :: string where "MediaType = ''application/msgpack''"
definition MaxBodyBytes :: nat where "MaxBodyBytes = 16384"
definition AlgX25519 :: string where "AlgX25519 = ''x25519''"
definition EncAES256GCM :: string where "EncAES256GCM = ''aes256gcm''"

section \<open>Manifests and fetch results\<close>

record key_descriptor =
  kd_kid :: bytes
  kd_algorithm :: string
  kd_encryption :: string
  kd_public_key :: bytes

record manifest =
  mf_version :: string
  mf_domain :: string
  mf_issued_at :: time
  mf_expires_at :: time
  mf_key :: key_descriptor
  mf_authority :: "string list"

record id_proof =
  pf_public_key :: bytes
  pf_fingerprint :: bytes
  pf_signature :: bytes

record fetch_result =
  rs_manifest :: manifest
  rs_manifest_id :: bytes
  rs_raw :: bytes
  rs_fetched_at :: time
  rs_expires_at :: time
  rs_tls_host :: string
  rs_proof :: "id_proof option"
  rs_proof_error :: prose

section \<open>Observations\<close>

datatype source = SourceDNS | SourceHeader | SourceManual

record advertisement =
  ad_version :: string
  ad_domain :: string
  ad_authority :: string
  ad_manifest_id :: bytes
  ad_has_id :: bool
  ad_fingerprint :: bytes
  ad_has_fp :: bool
  ad_mode :: string

datatype observation_status =
  ObservationUnset | ObservationPending | ObservationConfirmed | ObservationStale
| ObservationMalformed | ObservationInconsistent

record observation =
  ob_source :: source
  ob_manifest_id :: bytes
  ob_has_id :: bool
  ob_fingerprint :: bytes
  ob_has_fp :: bool
  ob_authority :: string
  ob_observed_at :: time
  ob_status :: observation_status
  ob_context :: prose

section \<open>Peers\<close>

datatype peer_state =
  StateUnset | StateDiscovered | StateActive | StateExpired | StateUnavailable | StateDisabled

datatype policy = PolicyAuto | PolicyRequire | PolicyDisabled | PolicyOther string

datatype manifest_status = ManifestEffective | ManifestHistorical

record manifest_record =
  mr_manifest_id :: bytes
  mr_canonical :: bytes
  mr_kid :: bytes
  mr_issued_at :: time
  mr_expires_at :: time
  mr_fetched_at :: time
  mr_authority_host :: string
  mr_tls_verified :: bool
  mr_status :: manifest_status

datatype identity_status = IdentityUnset | IdentityUnpinned | IdentityPinned | IdentityContested

record identity_state =
  id_status :: identity_status
  id_fingerprint :: bytes
  id_pinned_key :: bytes
  id_pinned_at :: time
  id_ever_https :: bool
  id_dns_fp :: bytes
  id_has_dns_fp :: bool
  id_dns_observed_at :: time
  id_last_issued_at :: time
  id_last_manifest_id :: bytes
  id_contested :: prose

definition zero_identity :: identity_state where
  "zero_identity = \<lparr>id_status = IdentityUnset, id_fingerprint = zero32, id_pinned_key = [],
     id_pinned_at = zero_time, id_ever_https = False, id_dns_fp = zero32, id_has_dns_fp = False,
     id_dns_observed_at = zero_time, id_last_issued_at = zero_time,
     id_last_manifest_id = zero32, id_contested = None\<rparr>"

datatype issue_code =
  IssueSignerChanged | IssueProofMissing | IssuePinWithheld | IssueReplay
| IssueAuthorityUnstable | IssueDowngradeBlocked | IssueMailHeld | IssueRefreshFailed
| IssueForeignSeal | IssueRevoked

record peer_issue =
  pi_code :: issue_code
  pi_first_seen :: time
  pi_last_seen :: time
  pi_count :: "32 word"
  pi_detail :: prose

record peer =
  pr_domain :: string
  pr_state :: peer_state
  pr_policy :: policy
  pr_effective :: "manifest_record option"
  pr_history :: "manifest_record list"
  pr_observations :: "observation list"
  pr_last_verified_at :: time
  pr_next_refresh_at :: time
  pr_last_error :: prose
  pr_issues :: "peer_issue list"
  pr_authority_unstable :: bool
  pr_identity :: identity_state

text \<open>The zero value of a peer record.\<close>

definition zero_peer :: peer where
  "zero_peer = \<lparr>pr_domain = [], pr_state = StateUnset, pr_policy = PolicyOther [],
     pr_effective = None, pr_history = [], pr_observations = [],
     pr_last_verified_at = zero_time, pr_next_refresh_at = zero_time, pr_last_error = None,
     pr_issues = [], pr_authority_unstable = False, pr_identity = zero_identity\<rparr>"

section \<open>The capability latch\<close>

record capability =
  cp_ever_validated :: bool
  cp_first_validated_at :: time
  cp_last_validated_at :: time
  cp_disabled :: bool
  cp_disabled_at :: time
  cp_reason :: string

definition zero_capability :: capability where
  "zero_capability = \<lparr>cp_ever_validated = False, cp_first_validated_at = zero_time,
     cp_last_validated_at = zero_time, cp_disabled = False, cp_disabled_at = zero_time,
     cp_reason = []\<rparr>"

definition cap_requires :: "capability \<Rightarrow> bool" where
  "cap_requires c \<longleftrightarrow> cp_ever_validated c \<and> \<not> cp_disabled c"

section \<open>Publications\<close>

record publication =
  pb_raw :: bytes
  pb_id :: bytes
  pb_expires_at :: time
  pb_proof :: "id_proof option"

text \<open>Only an administrator's disable separates a validated domain from the requirement.\<close>

lemma cap_requires_iff: "cp_ever_validated c \<Longrightarrow> cap_requires c \<longleftrightarrow> \<not> cp_disabled c"
  by (simp add: cap_requires_def)

end
