(* ===== verification/Issues.thy ===== *)
theory Issues
  imports Types
begin

text \<open>
  \<^verbatim>\<open>issues.go\<close>: the bounded, coalesced review history of a peer.  An occurrence of a known
  condition bumps its row; a new one is appended, and the stalest rows are evicted while
  the list is longer than \<^verbatim>\<open>MaxPeerIssues\<close>.
\<close>

definition MaxPeerIssues :: nat where "MaxPeerIssues = 8"

fun issue_alerts :: "issue_code \<Rightarrow> bool" where
  "issue_alerts IssueSignerChanged = True"
| "issue_alerts IssuePinWithheld = True"
| "issue_alerts IssueDowngradeBlocked = True"
| "issue_alerts IssueMailHeld = True"
| "issue_alerts IssueProofMissing = True"
| "issue_alerts IssueRevoked = True"
| "issue_alerts _ = False"

definition bump_issue :: "prose \<Rightarrow> time \<Rightarrow> peer_issue \<Rightarrow> peer_issue" where
  "bump_issue detail now i =
     i\<lparr>pi_count := pi_count i + 1, pi_last_seen := now,
       pi_detail := (if detail = None then pi_detail i else detail)\<rparr>"

text \<open>The first loop: bump the first row with this code, if there is one.\<close>

fun bump_first :: "issue_code \<Rightarrow> prose \<Rightarrow> time \<Rightarrow> peer_issue list \<Rightarrow> peer_issue list option" where
  "bump_first code detail now [] = None"
| "bump_first code detail now (i # is) =
     (if pi_code i = code then Some (bump_issue detail now i # is)
      else map_option ((#) i) (bump_first code detail now is))"

text \<open>The index of the stalest row: the first one no later row is strictly older than.\<close>

fun stalest_from :: "peer_issue list \<Rightarrow> nat \<Rightarrow> nat \<Rightarrow> time \<Rightarrow> nat" where
  "stalest_from [] i best t = best"
| "stalest_from (x # xs) i best t =
     (if pi_last_seen x < t then stalest_from xs (Suc i) i (pi_last_seen x)
      else stalest_from xs (Suc i) best t)"

definition stalest :: "peer_issue list \<Rightarrow> nat" where
  "stalest is = (case is of [] \<Rightarrow> 0 | x # xs \<Rightarrow> stalest_from xs 1 0 (pi_last_seen x))"

definition remove_at :: "nat \<Rightarrow> 'a list \<Rightarrow> 'a list" where
  "remove_at n xs = take n xs @ drop (Suc n) xs"

function evict_issues :: "peer_issue list \<Rightarrow> peer_issue list" where
  "evict_issues is =
     (if length is \<le> MaxPeerIssues \<or> length is \<le> stalest is then is
      else evict_issues (remove_at (stalest is) is))"
  by pat_completeness auto
termination
  by (relation "measure length") (auto simp: remove_at_def)

declare evict_issues.simps [simp del]

definition CoalesceIssue ::
  "peer_issue list \<Rightarrow> issue_code \<Rightarrow> prose \<Rightarrow> time \<Rightarrow> peer_issue list \<times> bool" where
  "CoalesceIssue issues code detail now =
     (case bump_first code detail now issues of
        Some out \<Rightarrow> (out, False)
      | None \<Rightarrow>
          (evict_issues (issues @ [\<lparr>pi_code = code, pi_first_seen = now, pi_last_seen = now,
             pi_count = 1, pi_detail = detail\<rparr>]), True))"

definition ClearIssue :: "peer_issue list \<Rightarrow> issue_code \<Rightarrow> peer_issue list" where
  "ClearIssue issues code = filter (\<lambda>x. pi_code x \<noteq> code) issues"

section \<open>The stalest row\<close>

lemma stalest_from_spec:
  "stalest_from xs i best t = best \<and> (\<forall>x \<in> set xs. t \<le> pi_last_seen x)
   \<or> (\<exists>k < length xs. stalest_from xs i best t = i + k \<and> pi_last_seen (xs ! k) < t
        \<and> (\<forall>x \<in> set xs. pi_last_seen (xs ! k) \<le> pi_last_seen x))"
proof (induction xs arbitrary: i best t)
  case Nil
  then show ?case by simp
next
  case (Cons x xs)
  let ?b = "if pi_last_seen x < t then i else best"
  let ?t = "if pi_last_seen x < t then pi_last_seen x else t"
  from Cons.IH [of "Suc i" ?b ?t]
  consider "stalest_from xs (Suc i) ?b ?t = ?b" "\<forall>y \<in> set xs. ?t \<le> pi_last_seen y"
    | k where "k < length xs" "stalest_from xs (Suc i) ?b ?t = Suc i + k"
        "pi_last_seen (xs ! k) < ?t" "\<forall>y \<in> set xs. pi_last_seen (xs ! k) \<le> pi_last_seen y"
    by blast
  then show ?case
  proof cases
    case 1
    then show ?thesis by (auto split: if_splits intro!: exI [of _ 0])
  next
    case (2 k)
    then have "stalest_from (x # xs) i best t = i + Suc k"
      and "pi_last_seen ((x # xs) ! Suc k) < t"
      and "\<forall>y \<in> set (x # xs). pi_last_seen ((x # xs) ! Suc k) \<le> pi_last_seen y"
      by (auto split: if_splits)
    with 2(1) show ?thesis by (metis Suc_less_eq length_Cons)
  qed
qed

lemma stalest_less: "is \<noteq> [] \<Longrightarrow> stalest is < length is"
  using stalest_from_spec [of "tl is" 1 0 "pi_last_seen (hd is)"]
  by (cases "is") (auto simp: stalest_def)

lemma stalest_minimal:
  assumes "x \<in> set is"
  shows "pi_last_seen (is ! stalest is) \<le> pi_last_seen x"
proof (cases "is")
  case Nil
  with assms show ?thesis by simp
next
  case (Cons y ys)
  with assms show ?thesis
    using stalest_from_spec [of ys 1 0 "pi_last_seen y"] by (auto simp: stalest_def)
qed

text \<open>A row at the end that is as recent as every other row is never the one evicted.\<close>

lemma stalest_not_last:
  assumes "xs \<noteq> []" and "\<forall>x \<in> set xs. pi_last_seen x \<le> pi_last_seen y"
  shows "stalest (xs @ [y]) < length xs"
proof -
  obtain z zs where xs: "xs = z # zs" using assms(1) by (cases xs) auto
  have s: "stalest (xs @ [y]) = stalest_from (zs @ [y]) 1 0 (pi_last_seen z)"
    by (simp add: xs stalest_def)
  from stalest_from_spec [of "zs @ [y]" 1 0 "pi_last_seen z"]
  consider "stalest (xs @ [y]) = 0"
    | k where "k < length (zs @ [y])" "stalest (xs @ [y]) = 1 + k"
        "pi_last_seen ((zs @ [y]) ! k) < pi_last_seen z"
    by (auto simp: s)
  then show ?thesis
  proof cases
    case 1
    then show ?thesis by (simp add: xs)
  next
    case 2
    with assms(2) xs have "k \<noteq> length zs" by auto
    with 2 show ?thesis by (simp add: xs)
  qed
qed

section \<open>Coalescing\<close>

lemma bump_first_None: "bump_first c d n is = None \<longleftrightarrow> c \<notin> pi_code ` set is"
  by (induction "is") auto

lemma bump_first_codes: "bump_first c d n is = Some os \<Longrightarrow> map pi_code os = map pi_code is"
  by (induction "is" arbitrary: os) (auto simp: bump_issue_def split: if_splits)

lemma bump_first_length: "bump_first c d n is = Some os \<Longrightarrow> length os = length is"
  by (drule bump_first_codes) (rule map_eq_imp_length_eq)

lemma map_remove_at: "map f (remove_at n xs) = remove_at n (map f xs)"
  by (simp add: remove_at_def take_map drop_map)

lemma set_remove_at: "set (remove_at n xs) \<subseteq> set xs"
  by (auto simp: remove_at_def dest: in_set_takeD in_set_dropD)

lemma distinct_remove_at: "distinct xs \<Longrightarrow> distinct (remove_at n xs)"
  by (auto simp: remove_at_def set_take_disj_set_drop_if_distinct)

lemma length_evict: "length (evict_issues is) \<le> max MaxPeerIssues (length is)"
  and evict_short: "length is \<le> MaxPeerIssues \<Longrightarrow> evict_issues is = is"
  and set_evict: "set (evict_issues is) \<subseteq> set is"
  and distinct_evict: "distinct (map pi_code is) \<Longrightarrow> distinct (map pi_code (evict_issues is))"
proof (induction "is" rule: evict_issues.induct)
  case (1 "is")
  {
    case 1 show ?case using "1.IH"(1)
      by (subst evict_issues.simps) (auto simp: remove_at_def)
  next
    case 2 then show ?case by (subst evict_issues.simps) simp
  next
    case 3 show ?case using "1.IH"(3) set_remove_at [of "stalest is" "is"]
      by (subst evict_issues.simps) auto
  next
    case 4 then show ?case using "1.IH"(4)
      by (subst evict_issues.simps) (auto simp: map_remove_at distinct_remove_at)
  }
qed

lemma evict_bound: "length (evict_issues is) \<le> MaxPeerIssues"
proof (induction "is" rule: evict_issues.induct)
  case (1 "is")
  show ?case
  proof (cases "length is \<le> MaxPeerIssues")
    case True
    then show ?thesis by (simp add: evict_short)
  next
    case False
    then have "is \<noteq> []" by auto
    then have "\<not> length is \<le> stalest is" using stalest_less by force
    with False 1 show ?thesis by (subst evict_issues.simps) simp
  qed
qed

definition issues_wf :: "peer_issue list \<Rightarrow> bool" where
  "issues_wf is \<longleftrightarrow> length is \<le> MaxPeerIssues \<and> distinct (map pi_code is)"

lemma issues_wf_coalesce: "issues_wf is \<Longrightarrow> issues_wf (fst (CoalesceIssue is code detail now))"
  by (auto simp: issues_wf_def CoalesceIssue_def evict_bound bump_first_None
      dest: bump_first_codes bump_first_length split: option.splits intro!: distinct_evict)

lemma issues_wf_clear: "issues_wf is \<Longrightarrow> issues_wf (ClearIssue is code)"
  unfolding issues_wf_def ClearIssue_def
  by (auto simp: distinct_map_filter intro: order_trans [OF length_filter_le])

lemma coalesce_first: "snd (CoalesceIssue is code detail now) \<longleftrightarrow> code \<notin> pi_code ` set is"
  using bump_first_None [of code detail now "is"]
  by (auto simp: CoalesceIssue_def split: option.splits)

lemma clear_codes: "pi_code ` set (ClearIssue is code) = pi_code ` set is - {code}"
  by (auto simp: ClearIssue_def)

lemma coalesce_records:
  assumes "length is \<le> MaxPeerIssues" and recent: "\<forall>x \<in> set is. pi_last_seen x \<le> now"
  shows "code \<in> pi_code ` set (fst (CoalesceIssue is code detail now))"
proof (cases "bump_first code detail now is")
  case (Some os)
  then have "code \<in> pi_code ` set is" using bump_first_None [of code detail now "is"] by simp
  moreover have "pi_code ` set os = pi_code ` set is"
    using bump_first_codes [OF Some] by (metis list.set_map)
  ultimately show ?thesis by (simp add: CoalesceIssue_def Some)
next
  case None
  let ?n = "\<lparr>pi_code = code, pi_first_seen = now, pi_last_seen = now, pi_count = 1, pi_detail = detail\<rparr>"
  have "?n \<in> set (evict_issues (is @ [?n]))"
  proof (cases "length is < MaxPeerIssues")
    case True
    then show ?thesis by (simp add: evict_short)
  next
    case False
    then have l: "length is = MaxPeerIssues" using assms(1) by simp
    then have ne: "is \<noteq> []" by (auto simp: MaxPeerIssues_def)
    have st: "stalest (is @ [?n]) < length is"
      by (rule stalest_not_last [OF ne]) (use recent in simp)
    then have "?n \<in> set (remove_at (stalest (is @ [?n])) (is @ [?n]))"
      by (simp add: remove_at_def)
    moreover have "length (remove_at (stalest (is @ [?n])) (is @ [?n])) \<le> MaxPeerIssues"
      using st l by (simp add: remove_at_def)
    ultimately show ?thesis
      using st l by (subst evict_issues.simps) (simp add: evict_short)
  qed
  then show ?thesis by (force simp: CoalesceIssue_def None)
qed

end
