(* ===== verification/Base64.thy ===== *)
theory Base64
  imports Go_Strings
begin

text \<open>
  \<^verbatim>\<open>encoding/base64\<close> as the sources use it: the unpadded URL alphabet
  (\<^verbatim>\<open>RawURLEncoding\<close>) for identifiers, keys and signatures, and the padded standard
  alphabet (\<^verbatim>\<open>StdEncoding\<close>) for envelopes.  Both decoders skip line breaks, and neither
  is strict: the unused low bits of the last character are ignored.
\<close>

datatype alphabet = URL_Alphabet | Std_Alphabet

fun char62 :: "alphabet \<Rightarrow> char" where
  "char62 URL_Alphabet = CHR ''-''"
| "char62 Std_Alphabet = CHR ''+''"

fun char63 :: "alphabet \<Rightarrow> char" where
  "char63 URL_Alphabet = CHR ''_''"
| "char63 Std_Alphabet = CHR ''/''"

definition sextet_char :: "alphabet \<Rightarrow> nat \<Rightarrow> char" where
  "sextet_char al n =
     (if n < 26 then nat_char (65 + n)
      else if n < 52 then nat_char (97 + (n - 26))
      else if n < 62 then nat_char (48 + (n - 52))
      else if n = 62 then char62 al else char63 al)"

definition sextet_val :: "alphabet \<Rightarrow> char \<Rightarrow> nat option" where
  "sextet_val al c =
     (if is_upper c then Some (char_nat c - 65)
      else if is_lower c then Some (char_nat c - 71)
      else if is_digit c then Some (char_nat c + 4)
      else if c = char62 al then Some 62
      else if c = char63 al then Some 63 else None)"

lemma sextet_val_char [simp]: "n < 64 \<Longrightarrow> sextet_val al (sextet_char al n) = Some n"
  by (cases al)
    (auto simp: sextet_val_def sextet_char_def is_upper_def is_lower_def is_digit_def of_char_of)

lemma sextet_val_bound: "sextet_val al c = Some n \<Longrightarrow> n < 64"
  by (auto simp: sextet_val_def is_upper_def is_lower_def is_digit_def split: if_splits)

lemma sextet_char_val: "sextet_val al c = Some n \<Longrightarrow> sextet_char al n = c"
  by (auto simp: sextet_val_def sextet_char_def is_upper_def is_lower_def is_digit_def
      split: if_splits)

section \<open>Encoding\<close>

definition sextets3 :: "nat \<Rightarrow> nat \<Rightarrow> nat \<Rightarrow> nat list" where
  "sextets3 a b c = [a div 4, (a mod 4) * 16 + b div 16, (b mod 16) * 4 + c div 64, c mod 64]"

fun b64_sextets :: "bytes \<Rightarrow> nat list" where
  "b64_sextets [] = []"
| "b64_sextets [a] = take 2 (sextets3 (char_nat a) 0 0)"
| "b64_sextets [a, b] = take 3 (sextets3 (char_nat a) (char_nat b) 0)"
| "b64_sextets (a # b # c # s) =
     sextets3 (char_nat a) (char_nat b) (char_nat c) @ b64_sextets s"

definition encode_b64 :: "bytes \<Rightarrow> string" where
  "encode_b64 b = map (sextet_char URL_Alphabet) (b64_sextets b)"

definition b64_padding :: "bytes \<Rightarrow> string" where
  "b64_padding b = (if length b mod 3 = 1 then ''=='' else if length b mod 3 = 2 then ''='' else [])"

definition encode_std :: "bytes \<Rightarrow> string" where
  "encode_std b = map (sextet_char Std_Alphabet) (b64_sextets b) @ b64_padding b"

section \<open>Decoding\<close>

definition byte1 :: "nat \<Rightarrow> nat \<Rightarrow> char" where
  "byte1 u v = nat_char (u * 4 + v div 16)"

definition byte2 :: "nat \<Rightarrow> nat \<Rightarrow> char" where
  "byte2 v w = nat_char ((v mod 16) * 16 + w div 4)"

definition byte3 :: "nat \<Rightarrow> nat \<Rightarrow> char" where
  "byte3 w x = nat_char ((w mod 4) * 64 + x)"

text \<open>Groups of four characters; a last group of two or three gives one or two bytes.\<close>

fun b64_bytes :: "nat list \<Rightarrow> bytes option" where
  "b64_bytes [] = Some []"
| "b64_bytes [u] = None"
| "b64_bytes [u, v] = Some [byte1 u v]"
| "b64_bytes [u, v, w] = Some [byte1 u v, byte2 v w]"
| "b64_bytes (u # v # w # x # s) =
     map_option (\<lambda>r. byte1 u v # byte2 v w # byte3 w x # r) (b64_bytes s)"

fun sextet_vals :: "alphabet \<Rightarrow> string \<Rightarrow> nat list option" where
  "sextet_vals al [] = Some []"
| "sextet_vals al (c # s) =
     (case sextet_val al c of
        None \<Rightarrow> None
      | Some n \<Rightarrow> map_option ((#) n) (sextet_vals al s))"

definition is_newline :: "char \<Rightarrow> bool" where
  "is_newline c \<longleftrightarrow> char_nat c = 10 \<or> char_nat c = 13"

definition skip_newlines :: "string \<Rightarrow> string" where
  "skip_newlines s = filter (\<lambda>c. \<not> is_newline c) s"

definition decode_b64 :: "string \<Rightarrow> bytes option" where
  "decode_b64 s = Option.bind (sextet_vals URL_Alphabet (skip_newlines s)) b64_bytes"

text \<open>
  With padding: the length is a multiple of four, and one or two \<^verbatim>\<open>=\<close> stand only at the end.
\<close>

definition strip_padding :: "string \<Rightarrow> string" where
  "strip_padding s =
     (if length s \<ge> 2 \<and> drop (length s - 2) s = ''=='' then take (length s - 2) s
      else if length s \<ge> 1 \<and> drop (length s - 1) s = ''='' then take (length s - 1) s
      else s)"

definition decode_std :: "string \<Rightarrow> bytes option" where
  "decode_std s =
     (let t = skip_newlines s in
      if length t mod 4 \<noteq> 0 then None
      else Option.bind (sextet_vals Std_Alphabet (strip_padding t)) b64_bytes)"

section \<open>Decoding inverts encoding\<close>

lemma sextets3_bound: "a < 256 \<Longrightarrow> b < 256 \<Longrightarrow> c < 256 \<Longrightarrow> \<forall>n \<in> set (sextets3 a b c). n < 64"
  by (auto simp: sextets3_def)

lemma b64_sextets_bound: "\<forall>n \<in> set (b64_sextets b). n < 64"
proof (induction b rule: b64_sextets.induct)
  case (4 a b c s)
  then show ?case using sextets3_bound [of "char_nat a" "char_nat b" "char_nat c"] by auto
next
  case (2 a)
  then show ?case using sextets3_bound [of "char_nat a" 0 0] by (auto dest: in_set_takeD)
next
  case (3 a b)
  then show ?case using sextets3_bound [of "char_nat a" "char_nat b" 0] by (auto dest: in_set_takeD)
qed auto

lemma byte1_enc: "a < 256 \<Longrightarrow> b < 256 \<Longrightarrow> byte1 (a div 4) ((a mod 4) * 16 + b div 16) = nat_char a"
  by (simp add: byte1_def)

lemma byte2_enc: "b < 256 \<Longrightarrow> c < 256 \<Longrightarrow>
  byte2 ((a mod 4) * 16 + b div 16) ((b mod 16) * 4 + c div 64) = nat_char b"
proof -
  assume b: "b < 256" and c: "c < 256"
  have "((a mod 4) * 16 + b div 16) mod 16 = b div 16" using b by simp
  moreover have "((b mod 16) * 4 + c div 64) div 4 = b mod 16" using c by simp
  ultimately show ?thesis by (simp add: byte2_def)
qed

lemma byte3_enc: "c < 256 \<Longrightarrow> byte3 ((b mod 16) * 4 + c div 64) (c mod 64) = nat_char c"
proof -
  assume c: "c < 256"
  have "((b mod 16) * 4 + c div 64) mod 4 = c div 64" using c by simp
  then show ?thesis by (simp add: byte3_def)
qed

lemma b64_bytes_sextets: "b64_bytes (b64_sextets b) = Some b"
proof (induction b rule: b64_sextets.induct)
  case (2 a)
  have "byte1 (char_nat a div 4) ((char_nat a mod 4) * 16 + 0 div 16) = a"
    by (subst byte1_enc) simp_all
  then show ?case by (simp add: sextets3_def)
next
  case (3 a b)
  have "byte1 (char_nat a div 4) ((char_nat a mod 4) * 16 + char_nat b div 16) = a"
    by (subst byte1_enc) simp_all
  moreover have "byte2 ((char_nat a mod 4) * 16 + char_nat b div 16)
      ((char_nat b mod 16) * 4 + 0 div 64) = b"
    by (subst byte2_enc) simp_all
  ultimately show ?case by (simp add: sextets3_def)
next
  case (4 a b c s)
  then show ?case by (simp add: sextets3_def byte1_enc byte2_enc byte3_enc)
qed auto

lemma sextet_vals_map: "(\<forall>n \<in> set ns. n < 64) \<Longrightarrow> sextet_vals al (map (sextet_char al) ns) = Some ns"
  by (induction ns) auto

lemma sextet_vals_bound: "sextet_vals al s = Some ns \<Longrightarrow> \<forall>n \<in> set ns. n < 64"
  by (induction s arbitrary: ns) (auto split: option.splits dest: sextet_val_bound)

lemma sextet_vals_chars: "sextet_vals al s = Some ns \<Longrightarrow> map (sextet_char al) ns = s"
  by (induction s arbitrary: ns) (auto split: option.splits dest: sextet_char_val)

lemma sextet_char_not_newline: "n < 64 \<Longrightarrow> \<not> is_newline (sextet_char al n)"
  by (cases al) (auto simp: is_newline_def sextet_char_def of_char_of)

lemma sextet_char_not_pad: "n < 64 \<Longrightarrow> sextet_char al n \<noteq> CHR ''=''"
proof
  assume n: "n < 64" and "sextet_char al n = CHR ''=''"
  then have "sextet_val al (CHR ''='') = Some n" by (metis sextet_val_char)
  then show False
    by (cases al) (auto simp: sextet_val_def is_upper_def is_lower_def is_digit_def)
qed

lemma skip_newlines_sextets:
  "(\<forall>n \<in> set ns. n < 64) \<Longrightarrow> skip_newlines (map (sextet_char al) ns) = map (sextet_char al) ns"
  by (induction ns) (auto simp: skip_newlines_def sextet_char_not_newline)

lemma decode_encode_b64 [simp]: "decode_b64 (encode_b64 b) = Some b"
  by (simp add: decode_b64_def encode_b64_def skip_newlines_sextets sextet_vals_map
      b64_sextets_bound b64_bytes_sextets)

lemma encode_b64_inject: "encode_b64 a = encode_b64 b \<longleftrightarrow> a = b"
  by (metis decode_encode_b64 option.inject)

lemma length_b64_sextets:
  "length (b64_sextets b) = 4 * (length b div 3)
     + (if length b mod 3 = 0 then 0 else length b mod 3 + 1)"
proof (induction b rule: b64_sextets.induct)
  case (4 a b c s)
  have "length (a # b # c # s) div 3 = Suc (length s div 3)"
    and "length (a # b # c # s) mod 3 = length s mod 3" by simp_all
  with 4 show ?case by (simp add: sextets3_def)
qed (auto simp: sextets3_def)

lemma length_encode_b64_32: "length b = 32 \<Longrightarrow> length (encode_b64 b) = 43"
  by (simp add: encode_b64_def length_b64_sextets)

lemma encode_b64_chars: "c \<in> set (encode_b64 b) \<Longrightarrow> \<exists>n < 64. c = sextet_char URL_Alphabet n"
  using b64_sextets_bound by (auto simp: encode_b64_def)

text \<open>The padded form: stripping the padding recovers the characters of the sextets.\<close>

lemma strip_padding_enc: "strip_padding (encode_std b) = map (sextet_char Std_Alphabet) (b64_sextets b)"
proof -
  let ?m = "map (sextet_char Std_Alphabet) (b64_sextets b)"
  have np: "CHR ''='' \<notin> set ?m"
    using b64_sextets_bound sextet_char_not_pad by fastforce
  have "length b mod 3 = 0 \<or> length b mod 3 = 1 \<or> length b mod 3 = 2" by arith
  then consider "b64_padding b = []" | "b64_padding b = ''=''" | "b64_padding b = ''==''"
    by (auto simp: b64_padding_def)
  then show ?thesis
  proof cases
    case 1
    have "drop (length ?m - k) ?m \<noteq> CHR ''='' # r" for k r
      using np by (metis in_set_dropD list.set_intros(1))
    with 1 show ?thesis by (simp add: strip_padding_def encode_std_def)
  next
    case 2
    have "drop (length ?m + 1 - 2) (?m @ ''='') \<noteq> ''==''"
    proof (cases "?m = []")
      case False
      then have "drop (length ?m - 1) (?m @ ''='') = [last ?m, CHR ''='']"
        by (metis append_butlast_last_id append_eq_conv_conj append_Cons append_Nil append_assoc
            length_butlast)
      moreover have "last ?m \<noteq> CHR ''=''" using False np last_in_set by metis
      ultimately show ?thesis by simp
    qed simp
    with 2 show ?thesis by (simp add: strip_padding_def encode_std_def)
  next
    case 3
    then show ?thesis by (simp add: strip_padding_def encode_std_def)
  qed
qed

lemma length_encode_std: "length (encode_std b) mod 4 = 0"
proof -
  have "length b mod 3 < 3" by simp
  then have "length b mod 3 = 0 \<or> length b mod 3 = 1 \<or> length b mod 3 = 2" by arith
  then show ?thesis by (auto simp: encode_std_def length_b64_sextets b64_padding_def)
qed

lemma skip_newlines_encode_std: "skip_newlines (encode_std b) = encode_std b"
proof -
  have "skip_newlines (b64_padding b) = b64_padding b"
    by (simp add: b64_padding_def skip_newlines_def is_newline_def)
  then show ?thesis
    using skip_newlines_sextets [OF b64_sextets_bound]
    by (simp add: encode_std_def skip_newlines_def)
qed

lemma decode_encode_std [simp]: "decode_std (encode_std b) = Some b"
  by (simp add: decode_std_def Let_def skip_newlines_encode_std length_encode_std
      strip_padding_enc sextet_vals_map b64_sextets_bound b64_bytes_sextets)

end
