(* ===== verification/Peer_Identity.thy ===== *)
theory Peer_Identity
  imports Issues Base64
begin

text \<open>
  \<^verbatim>\<open>peer/identity.go\<close>: what a sender does with a fetched manifest, given what it already
  trusts.  \<open>DecideIdentity\<close> is the matrix, one branch per row and in the order of the code's
  switch; \<open>ApplyIdentity\<close> folds its verdict into the stored trust state.
\<close>

record verdict =
  vd_encrypt :: bool
  vd_accept :: bool
  vd_pin :: bytes
  vd_has_pin :: bool
  vd_status :: identity_status
  vd_alert :: prose
  vd_contest :: prose
  vd_rollback :: bool
  vd_reason :: string

definition zero_verdict :: verdict where
  "zero_verdict = \<lparr>vd_encrypt = False, vd_accept = False, vd_pin = zero32, vd_has_pin = False,
     vd_status = IdentityUnset, vd_alert = None, vd_contest = None, vd_rollback = False,
     vd_reason = []\<rparr>"

definition say :: "string \<Rightarrow> prose" where
  "say s = Some (Msg s)"

section \<open>Replay\<close>

definition checkReplay :: "identity_state \<Rightarrow> fetch_result \<Rightarrow> bool \<Rightarrow> verdict option" where
  "checkReplay cur res cachedUsable =
     (let issued = mf_issued_at (rs_manifest res) in
      if rs_expires_at res \<noteq> zero_time \<and> \<not> rs_expires_at res > rs_fetched_at res
        then Some (zero_verdict\<lparr>vd_encrypt := cachedUsable, vd_status := id_status cur,
               vd_alert := say ''the authority served an already-expired manifest; it cannot authorize new encryption'',
               vd_reason := ''replay/expired''\<rparr>)
      else if id_last_issued_at cur = zero_time then None
      else if issued < id_last_issued_at cur
        then Some (zero_verdict\<lparr>vd_encrypt := cachedUsable, vd_pin := id_fingerprint cur,
               vd_has_pin := (id_status cur = IdentityPinned), vd_status := id_status cur,
               vd_rollback := True,
               vd_alert := say ''the authority served a manifest issued %s, older than the %s already verified'',
               vd_reason := ''replay/rollback''\<rparr>)
      else if issued = id_last_issued_at cur \<and> rs_manifest_id res \<noteq> id_last_manifest_id cur
        then Some (zero_verdict\<lparr>vd_encrypt := cachedUsable, vd_pin := id_fingerprint cur,
               vd_has_pin := (id_status cur = IdentityPinned), vd_status := id_status cur,
               vd_alert := say ''the authority served two different manifests carrying the same issue time'',
               vd_reason := ''replay/same-issued-different-id''\<rparr>)
      else None)"

definition afterIdentityAuthorization ::
  "identity_state \<Rightarrow> fetch_result \<Rightarrow> bool \<Rightarrow> verdict \<Rightarrow> verdict" where
  "afterIdentityAuthorization cur res cachedUsable accepted =
     (if \<not> vd_accept accepted then accepted
      else case checkReplay cur res cachedUsable of Some replay \<Rightarrow> replay | None \<Rightarrow> accepted)"

section \<open>The matrix\<close>

definition DecideIdentity ::
  "peer option \<Rightarrow> fetch_result \<Rightarrow> bytes \<Rightarrow> bool \<Rightarrow> bool \<Rightarrow> verdict" where
  "DecideIdentity p res dnsFP hasDNSFP cachedUsable =
     (let cur = (case p of None \<Rightarrow> zero_identity | Some q \<Rightarrow> pr_identity q);
          cur = (if id_status cur = IdentityUnset then cur\<lparr>id_status := IdentityUnpinned\<rparr> else cur);
          proofBroken = (rs_proof_error res \<noteq> None);
          signer = (case rs_proof res of Some pf \<Rightarrow> pf_fingerprint pf | None \<Rightarrow> zero32);
          proofValid = (rs_proof res \<noteq> None \<and> \<not> proofBroken);
          pinned = (id_status cur = IdentityPinned);
          accepted = zero_verdict\<lparr>vd_encrypt := True, vd_accept := True, vd_status := id_status cur\<rparr>
      in
      if pinned \<and> proofValid \<and> signer = id_fingerprint cur then
        let out = accepted\<lparr>vd_pin := id_fingerprint cur, vd_has_pin := True,
                    vd_status := IdentityPinned, vd_reason := ''pinned/valid-proof-from-pin''\<rparr>;
            out = (if hasDNSFP \<and> dnsFP \<noteq> id_fingerprint cur
                   then out\<lparr>vd_alert := say ''DNS advertises a different identity fingerprint than the pinned one'',
                            vd_reason := ''pinned/dns-disagrees''\<rparr> else out)
        in afterIdentityAuthorization cur res cachedUsable out
      else if pinned \<and> proofValid then
        zero_verdict\<lparr>vd_encrypt := cachedUsable, vd_pin := id_fingerprint cur, vd_has_pin := True,
          vd_status := IdentityPinned,
          vd_alert := say ''the authority for this domain is now signing with identity %s, which is not the pinned one'',
          vd_reason := ''pinned/valid-proof-other-signer''\<rparr>
      else if pinned then
        zero_verdict\<lparr>vd_encrypt := cachedUsable, vd_pin := id_fingerprint cur, vd_has_pin := True,
          vd_status := IdentityPinned,
          vd_alert := (if proofBroken
             then say ''the authority for this pinned domain carried an invalid identity proof; refusing this response''
             else say ''the authority for this pinned domain carried no identity proof; refusing this response''),
          vd_reason := ''pinned/proof-absent-or-invalid''\<rparr>
      else if proofBroken then
        afterIdentityAuthorization cur res cachedUsable
          (accepted\<lparr>vd_alert := say ''this domain served a malformed identity proof; encrypting without establishing a pin'',
             vd_reason := ''unpinned/invalid-proof''\<rparr>)
      else if \<not> proofValid \<and> hasDNSFP then
        afterIdentityAuthorization cur res cachedUsable
          (accepted\<lparr>vd_alert := say ''DNS advertises an identity fingerprint for this domain but the authority served no proof'',
             vd_reason := ''unpinned/dns-fp-but-no-proof''\<rparr>)
      else if \<not> proofValid then
        afterIdentityAuthorization cur res cachedUsable
          (accepted\<lparr>vd_reason := ''unpinned/no-proof''\<rparr>)
      else if hasDNSFP \<and> dnsFP \<noteq> signer then
        afterIdentityAuthorization cur res cachedUsable
          (accepted\<lparr>vd_status := IdentityContested,
             vd_contest := say ''HTTPS signs with %s, DNS advertises %s'',
             vd_alert := say ''Message encrypted using a WebPKI-authenticated but unpinned identity'',
             vd_reason := ''unpinned/dns-disagrees''\<rparr>)
      else
        afterIdentityAuthorization cur res cachedUsable
          (accepted\<lparr>vd_pin := signer, vd_has_pin := True, vd_status := IdentityPinned,
             vd_reason := (if hasDNSFP then ''unpinned/pin-established-dns-corroborated''
                           else ''unpinned/pin-established'')\<rparr>))"

section \<open>Folding a verdict into the state\<close>

definition ApplyIdentity ::
  "identity_state \<Rightarrow> verdict \<Rightarrow> fetch_result \<Rightarrow> time \<Rightarrow> identity_state" where
  "ApplyIdentity st v res now =
     (let st = st\<lparr>id_ever_https := True\<rparr>;
          st = (if id_status st = IdentityUnset then st\<lparr>id_status := IdentityUnpinned\<rparr> else st);
          st = (if vd_has_pin v \<and> id_status st \<noteq> IdentityPinned then
                  let st = st\<lparr>id_status := IdentityPinned, id_fingerprint := vd_pin v,
                              id_pinned_at := now, id_contested := None\<rparr>
                  in case rs_proof res of
                       Some pf \<Rightarrow> if pf_fingerprint pf = vd_pin v
                                  then st\<lparr>id_pinned_key := pf_public_key pf\<rparr> else st
                     | None \<Rightarrow> st
                else if vd_status v = IdentityContested \<and> id_status st \<noteq> IdentityPinned
                then st\<lparr>id_status := IdentityContested, id_contested := vd_contest v\<rparr>
                else st);
          issued = mf_issued_at (rs_manifest res)
      in if vd_accept v \<and> issued \<noteq> zero_time \<and> issued > id_last_issued_at st
         then st\<lparr>id_last_issued_at := issued, id_last_manifest_id := rs_manifest_id res\<rparr>
         else st)"

definition ObserveDNSFingerprint :: "identity_state \<Rightarrow> bytes \<Rightarrow> bool \<Rightarrow> identity_state" where
  "ObserveDNSFingerprint st fp has = st\<lparr>id_dns_fp := fp, id_has_dns_fp := has\<rparr>"

definition encodeFP :: "bytes \<Rightarrow> string" where
  "encodeFP fp = encode_b64 fp"

section \<open>What the matrix authorizes\<close>

definition valid_proof :: "fetch_result \<Rightarrow> id_proof option" where
  "valid_proof res = (if rs_proof_error res = None then rs_proof res else None)"

definition fresh :: "identity_state \<Rightarrow> fetch_result \<Rightarrow> bool" where
  "fresh cur res \<longleftrightarrow>
     (rs_expires_at res = zero_time \<or> rs_fetched_at res < rs_expires_at res)
     \<and> (id_last_issued_at cur = zero_time
        \<or> id_last_issued_at cur < mf_issued_at (rs_manifest res)
        \<or> id_last_issued_at cur = mf_issued_at (rs_manifest res)
          \<and> rs_manifest_id res = id_last_manifest_id cur)"

lemma checkReplay_None: "checkReplay cur res c = None \<longleftrightarrow> fresh cur res"
  by (auto simp: checkReplay_def fresh_def Let_def)

lemma checkReplay_Some:
  "checkReplay cur res c = Some v \<Longrightarrow>
     \<not> vd_accept v \<and> vd_encrypt v = c \<and> vd_status v = id_status cur
     \<and> (vd_has_pin v \<longrightarrow> id_status cur = IdentityPinned \<and> vd_pin v = id_fingerprint cur)
     \<and> take 7 (vd_reason v) = ''replay/''"
  by (auto simp: checkReplay_def Let_def zero_verdict_def split: if_splits)

lemma afterIdentityAuthorization_accept:
  "vd_accept (afterIdentityAuthorization cur res c v) \<longleftrightarrow> vd_accept v \<and> fresh cur res"
  using checkReplay_Some [of cur res c] checkReplay_None [of cur res c]
  by (auto simp: afterIdentityAuthorization_def split: option.splits)

lemma afterIdentityAuthorization_cases:
  "afterIdentityAuthorization cur res c v = v
   \<or> checkReplay cur res c = Some (afterIdentityAuthorization cur res c v)"
  by (auto simp: afterIdentityAuthorization_def split: option.splits)

lemma fresh_status [simp]: "fresh (cur\<lparr>id_status := x\<rparr>) res = fresh cur res"
  by (simp add: fresh_def)

definition state_of :: "peer option \<Rightarrow> identity_state" where
  "state_of p = (case p of None \<Rightarrow> zero_identity | Some q \<Rightarrow> pr_identity q)"

lemma DecideIdentity_accept:
  "vd_accept (DecideIdentity p res dnsFP has c) \<longleftrightarrow>
     fresh (state_of p) res
     \<and> (id_status (state_of p) = IdentityPinned \<longrightarrow>
          (\<exists>pf. valid_proof res = Some pf \<and> pf_fingerprint pf = id_fingerprint (state_of p)))"
  unfolding DecideIdentity_def state_of_def [symmetric] Let_def
  by (auto simp: afterIdentityAuthorization_accept valid_proof_def zero_verdict_def
      split: option.splits)

lemma after_fresh: "fresh cur res \<Longrightarrow> afterIdentityAuthorization cur res c v = v"
  using checkReplay_None [of cur res c] by (simp add: afterIdentityAuthorization_def)

lemma after_stale:
  assumes "\<not> fresh cur res" and "vd_accept v"
  shows "\<not> vd_accept (afterIdentityAuthorization cur res c v)
     \<and> vd_encrypt (afterIdentityAuthorization cur res c v) = c
     \<and> (vd_has_pin (afterIdentityAuthorization cur res c v) \<longrightarrow>
          id_status cur = IdentityPinned
          \<and> vd_pin (afterIdentityAuthorization cur res c v) = id_fingerprint cur)
     \<and> vd_reason (afterIdentityAuthorization cur res c v) \<noteq> ''pinned/valid-proof-other-signer''"
proof -
  obtain r where r: "checkReplay cur res c = Some r"
    using assms(1) checkReplay_None [of cur res c] by (cases "checkReplay cur res c") auto
  have "afterIdentityAuthorization cur res c v = r"
    using assms(2) r by (simp add: afterIdentityAuthorization_def)
  moreover have "vd_reason r \<noteq> ''pinned/valid-proof-other-signer''"
    using checkReplay_Some [OF r] by auto
  ultimately show ?thesis using checkReplay_Some [OF r] by simp
qed

text \<open>The matrix alone: replay ordering is applied to whatever row was chosen, and changes an
  accepted row only.\<close>

definition matrix :: "identity_state \<Rightarrow> fetch_result \<Rightarrow> bytes \<Rightarrow> bool \<Rightarrow> bool \<Rightarrow> verdict" where
  "matrix cur res dnsFP hasDNSFP cachedUsable =
     (let proofBroken = (rs_proof_error res \<noteq> None);
          signer = (case rs_proof res of Some pf \<Rightarrow> pf_fingerprint pf | None \<Rightarrow> zero32);
          proofValid = (rs_proof res \<noteq> None \<and> \<not> proofBroken);
          pinned = (id_status cur = IdentityPinned);
          accepted = zero_verdict\<lparr>vd_encrypt := True, vd_accept := True, vd_status := id_status cur\<rparr>
      in
      if pinned \<and> proofValid \<and> signer = id_fingerprint cur then
        let out = accepted\<lparr>vd_pin := id_fingerprint cur, vd_has_pin := True,
                    vd_status := IdentityPinned, vd_reason := ''pinned/valid-proof-from-pin''\<rparr>;
            out = (if hasDNSFP \<and> dnsFP \<noteq> id_fingerprint cur
                   then out\<lparr>vd_alert := say ''DNS advertises a different identity fingerprint than the pinned one'',
                            vd_reason := ''pinned/dns-disagrees''\<rparr> else out)
        in out
      else if pinned \<and> proofValid then
        zero_verdict\<lparr>vd_encrypt := cachedUsable, vd_pin := id_fingerprint cur, vd_has_pin := True,
          vd_status := IdentityPinned,
          vd_alert := say ''the authority for this domain is now signing with identity %s, which is not the pinned one'',
          vd_reason := ''pinned/valid-proof-other-signer''\<rparr>
      else if pinned then
        zero_verdict\<lparr>vd_encrypt := cachedUsable, vd_pin := id_fingerprint cur, vd_has_pin := True,
          vd_status := IdentityPinned,
          vd_alert := (if proofBroken
             then say ''the authority for this pinned domain carried an invalid identity proof; refusing this response''
             else say ''the authority for this pinned domain carried no identity proof; refusing this response''),
          vd_reason := ''pinned/proof-absent-or-invalid''\<rparr>
      else if proofBroken then
        (accepted\<lparr>vd_alert := say ''this domain served a malformed identity proof; encrypting without establishing a pin'',
             vd_reason := ''unpinned/invalid-proof''\<rparr>)
      else if \<not> proofValid \<and> hasDNSFP then
        (accepted\<lparr>vd_alert := say ''DNS advertises an identity fingerprint for this domain but the authority served no proof'',
             vd_reason := ''unpinned/dns-fp-but-no-proof''\<rparr>)
      else if \<not> proofValid then
        (accepted\<lparr>vd_reason := ''unpinned/no-proof''\<rparr>)
      else if hasDNSFP \<and> dnsFP \<noteq> signer then
        (accepted\<lparr>vd_status := IdentityContested,
             vd_contest := say ''HTTPS signs with %s, DNS advertises %s'',
             vd_alert := say ''Message encrypted using a WebPKI-authenticated but unpinned identity'',
             vd_reason := ''unpinned/dns-disagrees''\<rparr>)
      else
        (accepted\<lparr>vd_pin := signer, vd_has_pin := True, vd_status := IdentityPinned,
             vd_reason := (if hasDNSFP then ''unpinned/pin-established-dns-corroborated''
                           else ''unpinned/pin-established'')\<rparr>))"

definition known_status :: "identity_state \<Rightarrow> identity_state" where
  "known_status cur = (if id_status cur = IdentityUnset then cur\<lparr>id_status := IdentityUnpinned\<rparr> else cur)"

lemma known_status_sel [simp]:
  "id_status (known_status cur) = IdentityPinned \<longleftrightarrow> id_status cur = IdentityPinned"
  "id_fingerprint (known_status cur) = id_fingerprint cur"
  "fresh (known_status cur) res = fresh cur res"
  by (simp_all add: known_status_def)

lemma after_refused: "\<not> vd_accept v \<Longrightarrow> afterIdentityAuthorization cur res c v = v"
  by (simp add: afterIdentityAuthorization_def)

lemma DecideIdentity_matrix:
  "DecideIdentity p res dnsFP has c =
     afterIdentityAuthorization (known_status (state_of p)) res c
       (matrix (known_status (state_of p)) res dnsFP has c)"
  unfolding DecideIdentity_def state_of_def [symmetric] known_status_def [symmetric] matrix_def Let_def
  by (simp add: if_distrib [of "afterIdentityAuthorization _ _ _"] after_refused zero_verdict_def cong: if_cong)

lemma matrix_encrypt: "vd_encrypt (matrix cur res f h c) \<longleftrightarrow> vd_accept (matrix cur res f h c) \<or> c"
  by (simp add: matrix_def Let_def zero_verdict_def)

lemma matrix_pin:
  "vd_has_pin (matrix cur res f h c) \<Longrightarrow>
     if id_status cur = IdentityPinned then vd_pin (matrix cur res f h c) = id_fingerprint cur
     else vd_accept (matrix cur res f h c)
       \<and> (\<exists>pf. valid_proof res = Some pf \<and> (h \<longrightarrow> f = pf_fingerprint pf)
            \<and> vd_pin (matrix cur res f h c) = pf_fingerprint pf)"
  by (auto simp: matrix_def Let_def zero_verdict_def valid_proof_def split: if_splits)

lemma matrix_other_signer:
  "vd_reason (matrix cur res f h c) = ''pinned/valid-proof-other-signer'' \<longleftrightarrow>
     id_status cur = IdentityPinned
     \<and> (\<exists>pf. valid_proof res = Some pf \<and> pf_fingerprint pf \<noteq> id_fingerprint cur)"
  by (auto simp: matrix_def Let_def zero_verdict_def valid_proof_def)

lemma DecideIdentity_cases:
  obtains (as_is) "DecideIdentity p res f h c = matrix (known_status (state_of p)) res f h c"
      "vd_accept (DecideIdentity p res f h c) \<Longrightarrow> fresh (state_of p) res"
  | (replayed) "\<not> vd_accept (DecideIdentity p res f h c)" "vd_encrypt (DecideIdentity p res f h c) = c"
      "vd_has_pin (DecideIdentity p res f h c) \<Longrightarrow> id_status (state_of p) = IdentityPinned
          \<and> vd_pin (DecideIdentity p res f h c) = id_fingerprint (state_of p)"
      "vd_reason (DecideIdentity p res f h c) \<noteq> ''pinned/valid-proof-other-signer''"
proof (cases "vd_accept (matrix (known_status (state_of p)) res f h c) \<and> \<not> fresh (state_of p) res")
  case True
  then have st: "\<not> fresh (known_status (state_of p)) res"
    "vd_accept (matrix (known_status (state_of p)) res f h c)" by simp_all
  show ?thesis
    by (rule replayed) (use after_stale [OF st, of c] in \<open>auto simp: DecideIdentity_matrix\<close>)
next
  case False
  then have "DecideIdentity p res f h c = matrix (known_status (state_of p)) res f h c"
    unfolding DecideIdentity_matrix by (auto simp: after_fresh after_refused)
  then show ?thesis using as_is False by simp
qed

lemma DecideIdentity_encrypt:
  "vd_encrypt (DecideIdentity p res f h c) \<longleftrightarrow> vd_accept (DecideIdentity p res f h c) \<or> c"
  by (cases rule: DecideIdentity_cases [of p res f h c]) (simp_all add: matrix_encrypt)

text \<open>A verdict names a pin only for a pinned peer, or for a valid proof DNS does not contradict.\<close>

lemma DecideIdentity_pin:
  assumes "vd_has_pin (DecideIdentity p res f h c)"
  shows "if id_status (state_of p) = IdentityPinned
         then vd_pin (DecideIdentity p res f h c) = id_fingerprint (state_of p)
         else vd_accept (DecideIdentity p res f h c)
              \<and> (\<exists>pf. valid_proof res = Some pf \<and> (h \<longrightarrow> f = pf_fingerprint pf)
                   \<and> vd_pin (DecideIdentity p res f h c) = pf_fingerprint pf)"
proof (cases rule: DecideIdentity_cases [of p res f h c])
  case as_is
  then show ?thesis using assms matrix_pin [of "known_status (state_of p)" res f h c] by simp
next
  case replayed
  then show ?thesis using assms by simp
qed

lemma DecideIdentity_other_signer:
  "vd_reason (DecideIdentity p res f h c) = ''pinned/valid-proof-other-signer'' \<Longrightarrow>
     id_status (state_of p) = IdentityPinned
     \<and> (\<exists>pf. valid_proof res = Some pf \<and> pf_fingerprint pf \<noteq> id_fingerprint (state_of p))"
  by (cases rule: DecideIdentity_cases [of p res f h c])
    (simp_all add: matrix_other_signer)

lemma DecideIdentity_refuses_other:
  assumes "id_status (state_of p) = IdentityPinned" and "valid_proof res = Some pf"
    and "pf_fingerprint pf \<noteq> id_fingerprint (state_of p)"
  shows "vd_reason (DecideIdentity p res f h c) = ''pinned/valid-proof-other-signer''"
  unfolding DecideIdentity_matrix
  using assms matrix_other_signer [of "known_status (state_of p)" res f h c]
  by (subst after_refused)
    (auto simp: matrix_def Let_def zero_verdict_def valid_proof_def split: if_splits option.splits)

section \<open>What folding a verdict changes\<close>

definition same_pin :: "identity_state \<Rightarrow> identity_state \<Rightarrow> bool" where
  "same_pin a b \<longleftrightarrow> id_status a = id_status b \<and> id_fingerprint a = id_fingerprint b
     \<and> id_pinned_key a = id_pinned_key b \<and> id_pinned_at a = id_pinned_at b"

text \<open>No verdict moves an established pin.\<close>

lemma ApplyIdentity_pinned:
  "id_status st = IdentityPinned \<Longrightarrow> same_pin (ApplyIdentity st v res now) st"
  by (simp add: ApplyIdentity_def same_pin_def Let_def)

lemma ApplyIdentity_https [simp]: "id_ever_https (ApplyIdentity st v res now)"
  by (simp add: ApplyIdentity_def Let_def split: option.splits)

lemma ApplyIdentity_status: "id_status (ApplyIdentity st v res now) \<noteq> IdentityUnset"
  by (simp add: ApplyIdentity_def Let_def split: option.splits)

text \<open>A pin is born only from the verdict's pin.\<close>

lemma ApplyIdentity_birth:
  assumes "id_status st \<noteq> IdentityPinned" and "id_status (ApplyIdentity st v res now) = IdentityPinned"
  shows "vd_has_pin v \<and> id_fingerprint (ApplyIdentity st v res now) = vd_pin v
     \<and> id_pinned_at (ApplyIdentity st v res now) = now"
  using assms by (auto simp: ApplyIdentity_def Let_def split: option.splits if_splits)

lemma ApplyIdentity_key:
  assumes "id_status st \<noteq> IdentityPinned" and "vd_has_pin v" and "rs_proof res = Some pf"
    and "pf_fingerprint pf = vd_pin v"
  shows "id_pinned_key (ApplyIdentity st v res now) = pf_public_key pf"
  using assms by (auto simp: ApplyIdentity_def Let_def)

lemma ApplyIdentity_watermark:
  "id_last_issued_at (ApplyIdentity st v res now) =
     (if vd_accept v \<and> mf_issued_at (rs_manifest res) \<noteq> zero_time
      then max (id_last_issued_at st) (mf_issued_at (rs_manifest res)) else id_last_issued_at st)"
  by (auto simp: ApplyIdentity_def Let_def split: option.splits)

lemma ApplyIdentity_dns:
  "id_dns_fp (ApplyIdentity st v res now) = id_dns_fp st
   \<and> id_has_dns_fp (ApplyIdentity st v res now) = id_has_dns_fp st"
  by (auto simp: ApplyIdentity_def Let_def split: option.splits)

lemma ObserveDNSFingerprint_pin [simp]: "same_pin (ObserveDNSFingerprint st fp has) st"
  by (simp add: ObserveDNSFingerprint_def same_pin_def)

lemma same_pin_refl [simp]: "same_pin st st"
  by (simp add: same_pin_def)

lemma same_pin_trans: "same_pin a b \<Longrightarrow> same_pin b c \<Longrightarrow> same_pin a c"
  by (simp add: same_pin_def)

text \<open>After an accepted manifest, the same manifest is fresh and anything issued earlier is not.\<close>

lemma fresh_after_accept:
  assumes "vd_accept v" and "fresh st res" and "mf_issued_at (rs_manifest res) > zero_time"
    and "rs_expires_at res' = zero_time \<or> rs_fetched_at res' < rs_expires_at res'"
  shows "fresh (ApplyIdentity st v res now) res' \<longleftrightarrow>
     mf_issued_at (rs_manifest res) < mf_issued_at (rs_manifest res')
     \<or> mf_issued_at (rs_manifest res) = mf_issued_at (rs_manifest res')
       \<and> rs_manifest_id res' = rs_manifest_id res"
proof -
  let ?st = "ApplyIdentity st v res now"
  have w: "id_last_issued_at ?st = mf_issued_at (rs_manifest res)"
    using assms(1-3) by (auto simp: ApplyIdentity_watermark fresh_def)
  have "id_last_manifest_id ?st = rs_manifest_id res"
    using assms(1-3) by (auto simp: ApplyIdentity_def Let_def fresh_def split: option.splits)
  with w assms show ?thesis by (auto simp: fresh_def)
qed

end
