(* ===== verification/Peer_State.thy ===== *)
theory Peer_State
  imports Peer_Identity
begin

text \<open>
  \<^verbatim>\<open>peer/state.go\<close>: the transitions of a peer record as pure functions.  The code mutates the
  record through a pointer; here each function returns the new record.
\<close>

definition HistoryLimit :: nat where "HistoryLimit = 8"
definition RefreshBefore :: duration where "RefreshBefore = 6 * hour"
definition instabilityWindow :: duration where "instabilityWindow = hour"

definition New_peer :: "string \<Rightarrow> peer" where
  "New_peer domain = zero_peer\<lparr>pr_domain := domain, pr_state := StateDiscovered, pr_policy := PolicyAuto\<rparr>"

section \<open>Observations\<close>

definition classify :: "peer \<Rightarrow> observation \<Rightarrow> observation_status" where
  "classify p o' =
     (if ob_status o' = ObservationMalformed \<or> ob_status o' = ObservationInconsistent then ob_status o'
      else if \<not> ob_has_id o' then ObservationPending
      else case pr_effective p of
             None \<Rightarrow> ObservationPending
           | Some e \<Rightarrow> if mr_manifest_id e = ob_manifest_id o' then ObservationConfirmed
                       else ObservationStale)"

text \<open>Observations coalesce per source.\<close>

fun put_observation :: "observation \<Rightarrow> observation list \<Rightarrow> observation list" where
  "put_observation o' [] = [o']"
| "put_observation o' (x # xs) =
     (if ob_source x = ob_source o' then o' # xs else x # put_observation o' xs)"

definition Observe :: "peer \<Rightarrow> observation \<Rightarrow> time \<Rightarrow> peer" where
  "Observe p o0 now =
     (let o1 = (if ob_observed_at o0 = zero_time then o0\<lparr>ob_observed_at := now\<rparr> else o0);
          o2 = o1\<lparr>ob_status := classify p o1\<rparr>;
          p1 = (if ob_source o2 = SourceDNS \<and> ob_has_fp o2
                   \<and> (id_dns_observed_at (pr_identity p) = zero_time
                      \<or> \<not> ob_observed_at o2 < id_dns_observed_at (pr_identity p))
                then p\<lparr>pr_identity := (ObserveDNSFingerprint (pr_identity p) (ob_fingerprint o2) True)
                         \<lparr>id_dns_observed_at := ob_observed_at o2\<rparr>\<rparr>
                else p);
          p2 = p1\<lparr>pr_observations := put_observation o2 (pr_observations p1)\<rparr>
      in if pr_state p2 = StateUnset then p2\<lparr>pr_state := StateDiscovered\<rparr> else p2)"

definition Reconcile :: "peer \<Rightarrow> time \<Rightarrow> peer" where
  "Reconcile p now =
     (let p = p\<lparr>pr_observations := map (\<lambda>o'. o'\<lparr>ob_status := classify p o'\<rparr>) (pr_observations p)\<rparr> in
      if pr_policy p = PolicyDisabled then p\<lparr>pr_state := StateDisabled\<rparr>
      else case pr_effective p of
             None \<Rightarrow> p\<lparr>pr_state := (if pr_last_error p \<noteq> None then StateUnavailable else StateDiscovered)\<rparr>
           | Some e \<Rightarrow> p\<lparr>pr_state := (if \<not> mr_expires_at e > now then StateExpired else StateActive)\<rparr>)"

section \<open>Manifests\<close>

definition rotatedBack :: "peer \<Rightarrow> bytes \<Rightarrow> bool" where
  "rotatedBack p i = list_ex (\<lambda>h. mr_manifest_id h = i) (pr_history p)"

text \<open>Half of a duration, rounded towards zero as Go divides.\<close>

definition half :: "duration \<Rightarrow> duration" where
  "half d = sgn d * (\<bar>d\<bar> div 2)"

definition refreshAt :: "fetch_result \<Rightarrow> time" where
  "refreshAt r =
     (let expiry = (if rs_expires_at r = zero_time then mf_expires_at (rs_manifest r) else rs_expires_at r);
          at = expiry - RefreshBefore
      in if at < rs_fetched_at r
         then rs_fetched_at r + half (time_sub expiry (rs_fetched_at r))
         else at)"

definition installed_record :: "fetch_result \<Rightarrow> manifest_record" where
  "installed_record r =
     \<lparr>mr_manifest_id = rs_manifest_id r, mr_canonical = rs_raw r,
      mr_kid = kd_kid (mf_key (rs_manifest r)), mr_issued_at = mf_issued_at (rs_manifest r),
      mr_expires_at = mf_expires_at (rs_manifest r), mr_fetched_at = rs_fetched_at r,
      mr_authority_host = rs_tls_host r, mr_tls_verified = True, mr_status = ManifestEffective\<rparr>"

definition demote :: "peer \<Rightarrow> fetch_result \<Rightarrow> manifest_record \<Rightarrow> peer" where
  "demote p r prev =
     (if mr_manifest_id prev = rs_manifest_id r then p
      else
        let unstable = (mr_fetched_at prev \<noteq> zero_time
              \<and> time_sub (rs_fetched_at r) (mr_fetched_at prev) < instabilityWindow
              \<and> rotatedBack p (rs_manifest_id r))
        in p\<lparr>pr_authority_unstable := (pr_authority_unstable p \<or> unstable),
             pr_history := take HistoryLimit (prev\<lparr>mr_status := ManifestHistorical\<rparr> # pr_history p)\<rparr>)"

definition Install :: "peer \<Rightarrow> fetch_result \<Rightarrow> time \<Rightarrow> peer" where
  "Install p r now =
     (let p = (case pr_effective p of None \<Rightarrow> p | Some prev \<Rightarrow> demote p r prev);
          p = p\<lparr>pr_effective := Some (installed_record r), pr_last_verified_at := rs_fetched_at r,
                pr_last_error := None, pr_next_refresh_at := refreshAt r\<rparr>;
          p = (if pr_policy p \<noteq> PolicyDisabled then p\<lparr>pr_state := StateActive\<rparr> else p)
      in Reconcile p now)"

definition Fail_peer :: "peer \<Rightarrow> gerr option \<Rightarrow> time \<Rightarrow> peer" where
  "Fail_peer p e now = Reconcile (if e \<noteq> None then p\<lparr>pr_last_error := e\<rparr> else p) now"

definition Usable :: "peer option \<Rightarrow> time \<Rightarrow> manifest_record option" where
  "Usable p now =
     (case p of
        None \<Rightarrow> None
      | Some q \<Rightarrow>
          if pr_policy q = PolicyDisabled then None
          else case pr_effective q of
                 None \<Rightarrow> None
               | Some e \<Rightarrow> if \<not> mr_expires_at e > now then None else Some e)"

definition source_name :: "source \<Rightarrow> string" where
  "source_name s = (case s of SourceDNS \<Rightarrow> ''dns'' | SourceHeader \<Rightarrow> ''header'' | SourceManual \<Rightarrow> ''manual'')"

definition NeedsRefresh :: "peer option \<Rightarrow> time \<Rightarrow> bool \<times> string" where
  "NeedsRefresh p now =
     (case p of
        None \<Rightarrow> (True, ''unknown peer'')
      | Some q \<Rightarrow>
          if pr_policy q = PolicyDisabled then (False, ''disabled'')
          else case pr_effective q of
                 None \<Rightarrow> (True, ''no effective manifest'')
               | Some e \<Rightarrow>
                   if \<not> mr_expires_at e > now then (True, ''manifest expired'')
                   else if pr_next_refresh_at q \<noteq> zero_time \<and> \<not> pr_next_refresh_at q > now
                     then (True, ''manifest nearing expiry'')
                   else case find (\<lambda>o'. ob_has_id o' \<and> ob_manifest_id o' \<noteq> mr_manifest_id e)
                               (pr_observations q) of
                          Some o' \<Rightarrow>
                            (True, ''observed manifest id differs ('' @ source_name (ob_source o') @ '')'')
                        | None \<Rightarrow> (False, []))"

section \<open>Forgetting\<close>

definition Forget_peer :: "peer \<Rightarrow> peer" where
  "Forget_peer p =
     (let p = p\<lparr>pr_effective := None, pr_history := [], pr_observations := [],
                pr_last_verified_at := zero_time, pr_next_refresh_at := zero_time,
                pr_last_error := None, pr_authority_unstable := False\<rparr>
      in if pr_policy p = PolicyDisabled then p\<lparr>pr_state := StateDisabled\<rparr>
         else p\<lparr>pr_state := StateDiscovered\<rparr>)"

definition Prunable :: "peer option \<Rightarrow> time \<Rightarrow> duration \<Rightarrow> bool" where
  "Prunable p now ttl =
     (case p of
        None \<Rightarrow> False
      | Some q \<Rightarrow>
          if ttl \<le> 0 then False
          else if pr_policy q \<noteq> PolicyAuto then False
          else if pr_effective q \<noteq> None \<or> length (pr_history q) > 0 then False
          else
            let cutoff = now - ttl in
            if list_ex (\<lambda>o'. ob_source o' = SourceManual \<or> ob_observed_at o' > cutoff) (pr_observations q)
              then False
            else \<not> pr_last_verified_at q > cutoff)"

section \<open>What each transition leaves alone\<close>

text \<open>The cryptographic part of a record: everything that decides which key mail is sealed to.\<close>

definition same_keys :: "peer \<Rightarrow> peer \<Rightarrow> bool" where
  "same_keys p q \<longleftrightarrow> pr_effective p = pr_effective q \<and> pr_history p = pr_history q
     \<and> pr_policy p = pr_policy q \<and> same_pin (pr_identity p) (pr_identity q)
     \<and> pr_domain p = pr_domain q \<and> pr_issues p = pr_issues q
     \<and> id_last_issued_at (pr_identity p) = id_last_issued_at (pr_identity q)
     \<and> id_last_manifest_id (pr_identity p) = id_last_manifest_id (pr_identity q)"

lemma same_keys_refl [simp]: "same_keys p p"
  by (simp add: same_keys_def)

lemma same_keys_trans: "same_keys p q \<Longrightarrow> same_keys q r \<Longrightarrow> same_keys p r"
  by (auto simp: same_keys_def intro: same_pin_trans)

lemma Reconcile_frame [simp]:
  "pr_effective (Reconcile p now) = pr_effective p" "pr_history (Reconcile p now) = pr_history p"
  "pr_policy (Reconcile p now) = pr_policy p" "pr_identity (Reconcile p now) = pr_identity p"
  "pr_domain (Reconcile p now) = pr_domain p" "pr_issues (Reconcile p now) = pr_issues p"
  "pr_last_error (Reconcile p now) = pr_last_error p"
  "pr_next_refresh_at (Reconcile p now) = pr_next_refresh_at p"
  "pr_last_verified_at (Reconcile p now) = pr_last_verified_at p"
  "pr_authority_unstable (Reconcile p now) = pr_authority_unstable p"
  "map ob_source (pr_observations (Reconcile p now)) = map ob_source (pr_observations p)"
  "length (pr_observations (Reconcile p now)) = length (pr_observations p)"
  by (simp_all add: Reconcile_def Let_def split: option.splits)

lemma Reconcile_keys [simp]: "same_keys (Reconcile p now) p"
  by (simp add: same_keys_def)

lemma Observe_frame [simp]:
  "pr_effective (Observe p ob now) = pr_effective p" "pr_history (Observe p ob now) = pr_history p"
  "pr_policy (Observe p ob now) = pr_policy p" "pr_domain (Observe p ob now) = pr_domain p"
  "pr_issues (Observe p ob now) = pr_issues p"
  "pr_next_refresh_at (Observe p ob now) = pr_next_refresh_at p"
  "pr_last_error (Observe p ob now) = pr_last_error p"
  by (simp_all add: Observe_def Let_def)

lemma Observe_keys: "same_keys (Observe p ob now) p"
  by (simp add: same_keys_def Observe_def Let_def same_pin_def ObserveDNSFingerprint_def)

lemma Fail_keys: "same_keys (Fail_peer p e now) p"
  by (simp add: same_keys_def Fail_peer_def)

lemma Usable_keys: "same_keys p q \<Longrightarrow> Usable (Some p) t = Usable (Some q) t"
  by (simp add: Usable_def same_keys_def)

text \<open>A failure never disturbs a manifest that is still valid.\<close>

lemma Usable_Fail: "Usable (Some (Fail_peer p e now)) t = Usable (Some p) t"
  by (rule Usable_keys [OF Fail_keys])

lemma Reconcile_classify:
  "classify (Reconcile p now) = classify p"
  by (rule ext) (simp add: classify_def)

lemma classify_stable [simp]: "classify p (ob\<lparr>ob_status := classify p ob\<rparr>) = classify p ob"
  by (auto simp: classify_def split: option.splits)

lemma classify_cong:
  "pr_effective p = pr_effective q \<Longrightarrow> classify p = classify q"
  by (rule ext) (simp add: classify_def)

lemma Reconcile_idem [simp]: "Reconcile (Reconcile p now) now = Reconcile p now"
proof -
  let ?os = "map (\<lambda>ob. ob\<lparr>ob_status := classify p ob\<rparr>) (pr_observations p)"
  have "map (\<lambda>ob. ob\<lparr>ob_status := classify p ob\<rparr>) ?os = ?os" by simp
  moreover have "classify (p\<lparr>pr_observations := x, pr_state := y\<rparr>) = classify p" for x y
    by (rule classify_cong) simp
  ultimately show ?thesis by (simp add: Reconcile_def Let_def split: option.splits)
qed

text \<open>The derived state says what \<open>Usable\<close> answers.\<close>

lemma Reconcile_state:
  "pr_state (Reconcile p now) = StateActive \<longleftrightarrow> Usable (Some p) now \<noteq> None"
  by (auto simp: Reconcile_def Usable_def Let_def split: option.splits)

section \<open>Installing\<close>

lemma Install_effective [simp]: "pr_effective (Install p r now) = Some (installed_record r)"
  by (simp add: Install_def Let_def)

lemma demote_frame [simp]:
  "pr_policy (demote p r prev) = pr_policy p" "pr_identity (demote p r prev) = pr_identity p"
  "pr_domain (demote p r prev) = pr_domain p" "pr_issues (demote p r prev) = pr_issues p"
  "pr_observations (demote p r prev) = pr_observations p"
  by (simp_all add: demote_def Let_def)

lemma Install_frame [simp]:
  "pr_policy (Install p r now) = pr_policy p" "pr_identity (Install p r now) = pr_identity p"
  "pr_domain (Install p r now) = pr_domain p" "pr_issues (Install p r now) = pr_issues p"
  "map ob_source (pr_observations (Install p r now)) = map ob_source (pr_observations p)"
  "pr_next_refresh_at (Install p r now) = refreshAt r" "pr_last_error (Install p r now) = None"
  by (simp_all add: Install_def Let_def split: option.splits)

lemma Usable_Install:
  "pr_policy p \<noteq> PolicyDisabled \<Longrightarrow> now < mf_expires_at (rs_manifest r) \<Longrightarrow>
     Usable (Some (Install p r t)) now = Some (installed_record r)"
  by (simp add: Usable_def installed_record_def)

text \<open>The previous manifest is demoted, not lost.\<close>

lemma Install_history:
  "pr_history (Install p r now) =
     (case pr_effective p of
        None \<Rightarrow> pr_history p
      | Some prev \<Rightarrow>
          if mr_manifest_id prev = rs_manifest_id r then pr_history p
          else take HistoryLimit (prev\<lparr>mr_status := ManifestHistorical\<rparr> # pr_history p))"
  by (simp add: Install_def demote_def Let_def split: option.splits)

text \<open>The A/B/A pattern inside the window is reported; a monotone sequence is not.\<close>

lemma Install_unstable:
  "pr_authority_unstable (Install p r now) \<longleftrightarrow> pr_authority_unstable p
     \<or> (\<exists>prev. pr_effective p = Some prev \<and> mr_manifest_id prev \<noteq> rs_manifest_id r
          \<and> mr_fetched_at prev \<noteq> zero_time
          \<and> time_sub (rs_fetched_at r) (mr_fetched_at prev) < instabilityWindow
          \<and> rs_manifest_id r \<in> mr_manifest_id ` set (pr_history p))"
  by (force simp: Install_def demote_def Let_def rotatedBack_def list_ex_iff split: option.splits)

section \<open>Refreshing\<close>

lemma half_bounds: "0 \<le> d \<Longrightarrow> 0 \<le> half d \<and> half d \<le> d"
  by (cases "d = 0") (auto simp: half_def sgn_if)

lemma refreshAt_bounds:
  assumes "rs_fetched_at r \<le> e" and "e - rs_fetched_at r < 2 ^ 63"
    and e: "e = (if rs_expires_at r = zero_time then mf_expires_at (rs_manifest r) else rs_expires_at r)"
  shows "rs_fetched_at r \<le> refreshAt r \<and> refreshAt r \<le> e"
proof -
  have "time_sub e (rs_fetched_at r) = e - rs_fetched_at r"
    using assms(1,2) by (intro time_sub_in_range) auto
  moreover have "0 \<le> half (e - rs_fetched_at r) \<and> half (e - rs_fetched_at r) \<le> e - rs_fetched_at r"
    using assms(1) by (intro half_bounds) simp
  ultimately show ?thesis
    using assms(1) unfolding refreshAt_def Let_def e [symmetric] by (auto simp: RefreshBefore_def)
qed

lemma find_None_set: "find P xs = None \<longleftrightarrow> (\<forall>x \<in> set xs. \<not> P x)"
  by (auto simp: find_None_iff)

lemma NeedsRefresh_quiet:
  "fst (NeedsRefresh (Some p) now) = False \<longleftrightarrow>
     pr_policy p = PolicyDisabled
     \<or> (\<exists>e. pr_effective p = Some e \<and> now < mr_expires_at e
          \<and> (pr_next_refresh_at p = zero_time \<or> now < pr_next_refresh_at p)
          \<and> (\<forall>ob \<in> set (pr_observations p). ob_has_id ob \<longrightarrow> ob_manifest_id ob = mr_manifest_id e))"
  using find_None_set [of "\<lambda>ob. ob_has_id ob \<and> ob_manifest_id ob \<noteq> mr_manifest_id (the (pr_effective p))"
      "pr_observations p"]
  by (auto simp: NeedsRefresh_def split: option.splits)

lemma Install_observations:
  "(\<lambda>ob. (ob_source ob, ob_has_id ob, ob_manifest_id ob)) ` set (pr_observations (Install p r now))
     = (\<lambda>ob. (ob_source ob, ob_has_id ob, ob_manifest_id ob)) ` set (pr_observations p)"
proof -
  have "(\<lambda>ob. (ob_source ob, ob_has_id ob, ob_manifest_id ob)) ` set (pr_observations (Reconcile q now))
     = (\<lambda>ob. (ob_source ob, ob_has_id ob, ob_manifest_id ob)) ` set (pr_observations q)" for q
    by (auto simp: Reconcile_def Let_def image_image split: option.splits)
  then show ?thesis
    by (simp add: Install_def Let_def split: option.splits)
qed

text \<open>Installing does not silence an observation that names another manifest.\<close>

lemma stale_observation_keeps_refreshing:
  assumes "ob \<in> set (pr_observations p)" and "ob_has_id ob" and "ob_manifest_id ob \<noteq> rs_manifest_id r"
    and "pr_policy p \<noteq> PolicyDisabled"
  shows "fst (NeedsRefresh (Some (Install p r now)) t)"
proof -
  have "(ob_source ob, ob_has_id ob, ob_manifest_id ob)
      \<in> (\<lambda>ob. (ob_source ob, ob_has_id ob, ob_manifest_id ob)) ` set (pr_observations (Install p r now))"
    unfolding Install_observations using assms(1) by (rule imageI)
  then obtain ob' where "ob' \<in> set (pr_observations (Install p r now))" "ob_has_id ob'"
    "ob_manifest_id ob' = ob_manifest_id ob" using assms(2) by auto
  then have "\<not> (fst (NeedsRefresh (Some (Install p r now)) t) = False)"
    unfolding NeedsRefresh_quiet using assms(3,4) by (auto simp: installed_record_def)
  then show ?thesis by simp
qed

section \<open>Well-formed records\<close>

definition peer_wf :: "peer \<Rightarrow> bool" where
  "peer_wf p \<longleftrightarrow>
     distinct (map ob_source (pr_observations p))
     \<and> length (pr_history p) \<le> HistoryLimit
     \<and> list_all (\<lambda>h. mr_status h = ManifestHistorical) (pr_history p)
     \<and> (\<forall>e. pr_effective p = Some e \<longrightarrow> mr_status e = ManifestEffective \<and> mr_tls_verified e)
     \<and> issues_wf (pr_issues p)"

lemma put_observation_sources:
  "set (map ob_source (put_observation ob xs)) = insert (ob_source ob) (set (map ob_source xs))"
  by (induction xs) auto

lemma put_observation_distinct:
  "distinct (map ob_source xs) \<Longrightarrow> distinct (map ob_source (put_observation ob xs))"
proof (induction xs)
  case (Cons x xs)
  then show ?case using put_observation_sources [of ob xs] by auto
qed simp

lemma Observe_sources:
  "pr_observations (Observe p ob now) = put_observation
     ((if ob_observed_at ob = zero_time then ob\<lparr>ob_observed_at := now\<rparr> else ob)
        \<lparr>ob_status := classify p (if ob_observed_at ob = zero_time then ob\<lparr>ob_observed_at := now\<rparr> else ob)\<rparr>)
     (pr_observations p)"
  by (simp add: Observe_def Let_def)

lemma peer_wf_Observe: "peer_wf p \<Longrightarrow> peer_wf (Observe p ob now)"
  by (simp add: peer_wf_def Observe_sources put_observation_distinct)

lemma peer_wf_Reconcile [simp]: "peer_wf (Reconcile p now) = peer_wf p"
  by (simp add: peer_wf_def)

lemma peer_wf_Fail: "peer_wf p \<Longrightarrow> peer_wf (Fail_peer p e now)"
  by (simp add: Fail_peer_def) (simp add: peer_wf_def)

lemma peer_wf_Install: "peer_wf p \<Longrightarrow> peer_wf (Install p r now)"
proof -
  assume wf: "peer_wf p"
  have "set (pr_history (Install p r now)) \<subseteq> set (pr_history p) \<union> {h. mr_status h = ManifestHistorical}"
    by (auto simp: Install_history dest: in_set_takeD split: option.splits)
  moreover have "length (pr_history (Install p r now)) \<le> HistoryLimit"
    using wf by (simp add: Install_history peer_wf_def split: option.splits)
  ultimately show ?thesis
    using wf by (auto simp: peer_wf_def list_all_iff installed_record_def)
qed

lemma peer_wf_Forget: "peer_wf p \<Longrightarrow> peer_wf (Forget_peer p)"
  by (simp add: peer_wf_def Forget_peer_def Let_def)

lemma peer_wf_New: "peer_wf (New_peer d)"
  by (simp add: peer_wf_def New_peer_def zero_peer_def issues_wf_def)

lemma peer_wf_observations: "peer_wf p \<Longrightarrow> length (pr_observations p) \<le> 3"
proof -
  assume "peer_wf p"
  then have "distinct (map ob_source (pr_observations p))" by (simp add: peer_wf_def)
  moreover have "set (map ob_source (pr_observations p)) \<subseteq> {SourceDNS, SourceHeader, SourceManual}"
    using source.exhaust by auto
  ultimately have "length (map ob_source (pr_observations p)) \<le> card {SourceDNS, SourceHeader, SourceManual}"
    by (metis card_mono distinct_card finite.emptyI finite_insert)
  then show ?thesis by simp
qed

text \<open>Forgetting keeps the trust anchor, the policy and the review history.\<close>

lemma Forget_keeps:
  "pr_identity (Forget_peer p) = pr_identity p \<and> pr_policy (Forget_peer p) = pr_policy p
   \<and> pr_issues (Forget_peer p) = pr_issues p \<and> Usable (Some (Forget_peer p)) now = None"
  by (simp add: Forget_peer_def Let_def Usable_def)

text \<open>Only residue is pruned.\<close>

lemma Prunable_iff:
  "Prunable (Some p) now ttl \<longleftrightarrow>
     0 < ttl \<and> pr_policy p = PolicyAuto \<and> pr_effective p = None \<and> pr_history p = []
     \<and> (\<forall>ob \<in> set (pr_observations p). ob_source ob \<noteq> SourceManual \<and> ob_observed_at ob \<le> now - ttl)
     \<and> pr_last_verified_at p \<le> now - ttl"
  by (auto simp: Prunable_def Let_def list_ex_iff not_less not_le)

end
