(* ===== verification/Health.thy ===== *)
theory Health
  imports Peer_State
begin

text \<open>
  \<^verbatim>\<open>health.go\<close> and \<^verbatim>\<open>peer/health.go\<close>: the assessment of a peer shown to an operator.  It is a
  view of the record; delivery is read from the issues, never inferred from the level.
\<close>

datatype health_level = HealthUnknown | HealthOK | HealthDegraded | HealthBroken

datatype health_finding =
  HealthUnsigned | HealthUnpinned | HealthDNSIncoherent | HealthDNSAbsent | HealthContested
| HealthUnstable | HealthStale | HealthUnreachable | HealthMailHeld | HealthDowngradeBlocked

record health =
  he_level :: health_level
  he_findings :: "health_finding list"
  he_delivery_affected :: bool
  he_encrypting :: bool

text \<open>The levels are ordered as their declaration orders them.\<close>

fun level_rank :: "health_level \<Rightarrow> nat" where
  "level_rank HealthUnknown = 0"
| "level_rank HealthOK = 1"
| "level_rank HealthDegraded = 2"
| "level_rank HealthBroken = 3"

lemma level_rank_inject: "level_rank a = level_rank b \<Longrightarrow> a = b"
  by (cases a; cases b) simp_all

instantiation health_level :: linorder
begin

definition less_eq_health_level :: "health_level \<Rightarrow> health_level \<Rightarrow> bool" where
  "less_eq_health_level a b \<longleftrightarrow> level_rank a \<le> level_rank b"

definition less_health_level :: "health_level \<Rightarrow> health_level \<Rightarrow> bool" where
  "less_health_level a b \<longleftrightarrow> level_rank a < level_rank b"

instance
  by standard (auto simp: less_eq_health_level_def less_health_level_def level_rank_inject)

end

fun health_string :: "health_level \<Rightarrow> string" where
  "health_string HealthOK = ''ok''"
| "health_string HealthDegraded = ''degraded''"
| "health_string HealthBroken = ''broken''"
| "health_string HealthUnknown = ''unknown''"

definition AffectsDelivery :: "health_finding \<Rightarrow> bool" where
  "AffectsDelivery f \<longleftrightarrow> f = HealthMailHeld \<or> f = HealthDowngradeBlocked"

definition Has :: "health \<Rightarrow> health_finding \<Rightarrow> bool" where
  "Has h f = list_ex (\<lambda>x. x = f) (he_findings h)"

section \<open>The assessment\<close>

definition hasEffectiveProof :: "peer \<Rightarrow> bool" where
  "hasEffectiveProof p \<longleftrightarrow>
     id_fingerprint (pr_identity p) \<noteq> zero32 \<or> id_last_manifest_id (pr_identity p) \<noteq> zero32"

fun level_step :: "health_level \<Rightarrow> health_finding \<Rightarrow> health_level" where
  "level_step level HealthUnstable = HealthBroken"
| "level_step level HealthStale = HealthBroken"
| "level_step level HealthContested = HealthBroken"
| "level_step level HealthUnreachable = HealthBroken"
| "level_step level HealthUnsigned = (if level \<noteq> HealthBroken then HealthDegraded else level)"
| "level_step level HealthUnpinned = (if level \<noteq> HealthBroken then HealthDegraded else level)"
| "level_step level HealthDNSIncoherent = (if level \<noteq> HealthBroken then HealthDegraded else level)"
| "level_step level HealthDNSAbsent = (if level \<noteq> HealthBroken then HealthDegraded else level)"
| "level_step level _ = level"

definition levelOf :: "health_finding list \<Rightarrow> health_level" where
  "levelOf fs = foldl level_step HealthOK fs"

fun issue_finding :: "issue_code \<Rightarrow> health_finding list" where
  "issue_finding IssueMailHeld = [HealthMailHeld]"
| "issue_finding IssueDowngradeBlocked = [HealthDowngradeBlocked]"
| "issue_finding IssueRefreshFailed = [HealthUnreachable]"
| "issue_finding _ = []"

definition assess_findings :: "peer \<Rightarrow> time \<Rightarrow> health_finding list" where
  "assess_findings p now =
     (let i = pr_identity p in
      (if id_status i = IdentityPinned then []
       else if id_status i = IdentityContested then [HealthContested]
       else if hasEffectiveProof p then [HealthUnpinned] else [HealthUnsigned])
      @ (if \<not> id_has_dns_fp i then [HealthDNSAbsent]
         else if id_status i = IdentityPinned \<and> id_dns_fp i \<noteq> id_fingerprint i
         then [HealthDNSIncoherent] else [])
      @ (if pr_authority_unstable p then [HealthUnstable] else [])
      @ (case pr_effective p of
           Some e \<Rightarrow> if mr_expires_at e \<noteq> zero_time \<and> \<not> mr_expires_at e > now
                     then [HealthStale] else []
         | None \<Rightarrow> [])
      @ concat (map (\<lambda>iss. issue_finding (pi_code iss)) (pr_issues p)))"

definition Assess :: "peer option \<Rightarrow> time \<Rightarrow> health" where
  "Assess p now =
     (case p of
        None \<Rightarrow> \<lparr>he_level = HealthUnknown, he_findings = [], he_delivery_affected = False,
                 he_encrypting = False\<rparr>
      | Some q \<Rightarrow>
          let fs = assess_findings q now;
              affected = list_ex AffectsDelivery fs
          in \<lparr>he_level = levelOf fs, he_findings = fs, he_delivery_affected = affected,
              he_encrypting = (\<not> affected
                \<and> (case pr_effective q of
                     None \<Rightarrow> False
                   | Some e \<Rightarrow> mr_expires_at e = zero_time \<or> mr_expires_at e > now))\<rparr>)"

section \<open>Two axes\<close>

text \<open>What each finding contributes; the level is the worst contribution.\<close>

fun severity :: "health_finding \<Rightarrow> health_level" where
  "severity HealthUnstable = HealthBroken"
| "severity HealthStale = HealthBroken"
| "severity HealthContested = HealthBroken"
| "severity HealthUnreachable = HealthBroken"
| "severity HealthMailHeld = HealthOK"
| "severity HealthDowngradeBlocked = HealthOK"
| "severity _ = HealthDegraded"

lemma level_step_max: "HealthOK \<le> l \<Longrightarrow> level_step l f = max l (severity f)"
  by (cases f; cases l) (simp_all add: max_def less_eq_health_level_def)

lemma foldl_level_step: "HealthOK \<le> l \<Longrightarrow> foldl level_step l fs = fold max (map severity fs) l"
proof (induction fs arbitrary: l)
  case (Cons f fs)
  then have "HealthOK \<le> max l (severity f)" by (simp add: le_max_iff_disj)
  with Cons show ?case by (simp add: level_step_max max.commute)
qed simp

lemma levelOf_max: "levelOf fs = Max (insert HealthOK (severity ` set fs))"
proof -
  have "fold max (map severity fs) HealthOK = Max (set (HealthOK # map severity fs))"
    by (rule Max.set_eq_fold [symmetric])
  then show ?thesis by (simp add: levelOf_def foldl_level_step)
qed

text \<open>Held mail does not raise the level.\<close>

lemma levelOf_ignores_delivery: "levelOf (filter (\<lambda>f. \<not> AffectsDelivery f) fs) = levelOf fs"
proof -
  have *: "level_step l f = l" if "AffectsDelivery f" for l f
    using that by (auto simp: AffectsDelivery_def)
  have "foldl level_step l (filter (\<lambda>f. \<not> AffectsDelivery f) fs) = foldl level_step l fs" for l
    by (induction fs arbitrary: l) (simp_all add: *)
  then show ?thesis by (simp add: levelOf_def)
qed

lemma issue_finding_delivery:
  "(\<exists>f \<in> set (issue_finding c). AffectsDelivery f) \<longleftrightarrow> c = IssueMailHeld \<or> c = IssueDowngradeBlocked"
  by (cases c) (simp_all add: AffectsDelivery_def)

lemma Assess_delivery:
  "he_delivery_affected (Assess (Some p) now) \<longleftrightarrow>
     IssueMailHeld \<in> pi_code ` set (pr_issues p) \<or> IssueDowngradeBlocked \<in> pi_code ` set (pr_issues p)"
proof -
  let ?issues = "concat (map (\<lambda>iss. issue_finding (pi_code iss)) (pr_issues p))"
  have "list_ex AffectsDelivery (assess_findings p now) \<longleftrightarrow> list_ex AffectsDelivery ?issues"
    by (simp add: assess_findings_def Let_def AffectsDelivery_def split: option.splits)
  moreover have "list_ex AffectsDelivery ?issues \<longleftrightarrow>
      (\<exists>iss \<in> set (pr_issues p). \<exists>f \<in> set (issue_finding (pi_code iss)). AffectsDelivery f)"
    by (auto simp: list_ex_iff)
  moreover have "(\<exists>iss \<in> set (pr_issues p). pi_code iss = c) \<longleftrightarrow> c \<in> pi_code ` set (pr_issues p)" for c
    by (metis image_iff)
  ultimately show ?thesis by (simp add: Assess_def Let_def issue_finding_delivery bex_disj_distrib)
qed

lemma Assess_encrypting:
  "he_encrypting (Assess (Some p) now) \<longleftrightarrow>
     \<not> he_delivery_affected (Assess (Some p) now)
     \<and> (\<exists>e. pr_effective p = Some e \<and> (mr_expires_at e = zero_time \<or> now < mr_expires_at e))"
  by (simp add: Assess_def Let_def split: option.splits)

text \<open>For a peer that is not disabled and a manifest with an expiry, sealing is what the
  outbound path would do.\<close>

lemma Assess_encrypting_usable:
  assumes "pr_policy p \<noteq> PolicyDisabled" and "\<forall>e. pr_effective p = Some e \<longrightarrow> mr_expires_at e \<noteq> zero_time"
  shows "he_encrypting (Assess (Some p) now) \<longleftrightarrow>
     Usable (Some p) now \<noteq> None \<and> \<not> he_delivery_affected (Assess (Some p) now)"
  using assms by (auto simp: Assess_encrypting Usable_def split: option.splits)

end
