(* ===== verification/Go_Net.thy ===== *)
theory Go_Net
  imports Go_Strings
begin

text \<open>
  The parts of \<^verbatim>\<open>strconv\<close>, \<^verbatim>\<open>net\<close> and \<^verbatim>\<open>net/netip\<close> the sources call: decimal numbers,
  the host and port of a Host header, and whether a string is an IP address
  (\<^verbatim>\<open>net.ParseIP(s) != nil\<close>).
\<close>

section \<open>Decimal numbers\<close>

definition digit_val :: "char \<Rightarrow> nat" where
  "digit_val c = char_nat c - 48"

fun digits_val :: "nat \<Rightarrow> string \<Rightarrow> nat" where
  "digits_val acc [] = acc"
| "digits_val acc (c # s) = digits_val (10 * acc + digit_val c) s"

text \<open>\<^verbatim>\<open>strconv.Atoi\<close>: an optional sign, at least one digit, the value in 64 bits.\<close>

definition atoi :: "string \<Rightarrow> int option" where
  "atoi s =
     (let neg = (s \<noteq> [] \<and> hd s = CHR ''-'');
          body = (if s \<noteq> [] \<and> (hd s = CHR ''-'' \<or> hd s = CHR ''+'') then tl s else s)
      in if body = [] \<or> \<not> list_all is_digit body then None
         else let n = int (digits_val 0 body); v = (if neg then - n else n)
              in if - (2 ^ 63) \<le> v \<and> v < 2 ^ 63 then Some v else None)"

fun nat_digits :: "nat \<Rightarrow> string" where
  "nat_digits n = (if n < 10 then [nat_char (48 + n)]
                   else nat_digits (n div 10) @ [nat_char (48 + n mod 10)])"

declare nat_digits.simps [simp del]

text \<open>\<^verbatim>\<open>strconv.Itoa\<close>.\<close>

definition itoa :: "int \<Rightarrow> string" where
  "itoa i = (if i < 0 then CHR ''-'' # nat_digits (nat (- i)) else nat_digits (nat i))"

lemma digits_val_append: "digits_val a (s @ t) = digits_val (digits_val a s) t"
  by (induction s arbitrary: a) auto

lemma digit_char [simp]:
  "d < 10 \<Longrightarrow> is_digit (nat_char (48 + d))"
  "d < 10 \<Longrightarrow> digit_val (nat_char (48 + d)) = d"
  by (auto simp: is_digit_def digit_val_def of_char_of)

lemma nat_digits_val: "digits_val 0 (nat_digits n) = n"
proof (induction n rule: nat_digits.induct)
  case (1 n)
  then show ?case
    by (subst nat_digits.simps) (auto simp: digits_val_append)
qed

lemma nat_digits_digits: "nat_digits n \<noteq> [] \<and> list_all is_digit (nat_digits n)"
proof (induction n rule: nat_digits.induct)
  case (1 n)
  then show ?case by (subst (1 2) nat_digits.simps) auto
qed

lemma atoi_itoa:
  assumes "0 \<le> i" and "i < 2 ^ 63"
  shows "atoi (itoa i) = Some i"
proof -
  have d: "nat_digits (nat i) \<noteq> []" "list_all is_digit (nat_digits (nat i))"
    using nat_digits_digits by auto
  then have "is_digit (hd (nat_digits (nat i)))"
    by (cases "nat_digits (nat i)") auto
  then have "hd (nat_digits (nat i)) \<noteq> CHR ''-''" "hd (nat_digits (nat i)) \<noteq> CHR ''+''"
    by (auto simp: is_digit_def)
  with assms d show ?thesis by (simp add: atoi_def itoa_def Let_def nat_digits_val)
qed

section \<open>Host and port\<close>

text \<open>\<^verbatim>\<open>net.SplitHostPort\<close>; the error cases are \<open>None\<close>.\<close>

fun last_index :: "char \<Rightarrow> string \<Rightarrow> nat option" where
  "last_index c [] = None"
| "last_index c (x # xs) =
     (case last_index c xs of
        Some i \<Rightarrow> Some (Suc i)
      | None \<Rightarrow> if x = c then Some 0 else None)"

fun first_index :: "char \<Rightarrow> string \<Rightarrow> nat option" where
  "first_index c [] = None"
| "first_index c (x # xs) = (if x = c then Some 0 else map_option Suc (first_index c xs))"

definition split_host_port :: "string \<Rightarrow> (string \<times> string) option" where
  "split_host_port hp =
     (case last_index (CHR '':'') hp of
        None \<Rightarrow> None
      | Some i \<Rightarrow>
          if hd hp = CHR ''['' then
            (case first_index (CHR '']'') hp of
               None \<Rightarrow> None
             | Some e \<Rightarrow>
                 if e + 1 \<noteq> i then None
                 else if CHR ''['' \<in> set (drop 1 hp) \<or> CHR '']'' \<in> set (drop (e + 1) hp) then None
                 else Some (drop 1 (take e hp), drop (i + 1) hp))
          else if CHR '':'' \<in> set (take i hp) then None
          else if CHR ''['' \<in> set hp \<or> CHR '']'' \<in> set hp then None
          else Some (take i hp, drop (i + 1) hp))"

lemma last_index_None: "last_index c s = None \<longleftrightarrow> c \<notin> set s"
  by (induction s) (auto split: option.splits)

lemma split_host_port_no_colon: "CHR '':'' \<notin> set s \<Longrightarrow> split_host_port s = None"
  using last_index_None [of "CHR '':''" s] by (simp add: split_host_port_def)

section \<open>IP literals\<close>

text \<open>\<^verbatim>\<open>netip.parseIPv4Fields\<close>: four decimal fields without leading zeros, each at most 255.\<close>

definition ipv4_field :: "string \<Rightarrow> bool" where
  "ipv4_field s \<longleftrightarrow> s \<noteq> [] \<and> list_all is_digit s \<and> digits_val 0 s \<le> 255
     \<and> (hd s = CHR ''0'' \<longrightarrow> length s = 1)"

definition ipv4_octets :: "string \<Rightarrow> nat list option" where
  "ipv4_octets s =
     (let fs = split_on (CHR ''.'') s
      in if length fs = 4 \<and> list_all ipv4_field fs then Some (map (digits_val 0) fs) else None)"

definition hex_digit :: "char \<Rightarrow> nat" where
  "hex_digit c = (if is_digit c then char_nat c - 48
                  else if is_upper c then char_nat c - 55 else char_nat c - 87)"

fun hex_val :: "nat \<Rightarrow> string \<Rightarrow> nat" where
  "hex_val acc [] = acc"
| "hex_val acc (c # s) = hex_val (16 * acc + hex_digit c) s"

text \<open>
  The loop of \<^verbatim>\<open>netip.parseIPv6\<close>: the octets read so far, the position of the ellipsis,
  the rest of the string; at most 16 octets are read, so they bound the recursion.
\<close>

function v6_octets :: "nat list \<Rightarrow> nat option \<Rightarrow> string \<Rightarrow> (nat list \<times> nat option) option" where
  "v6_octets bs e s =
     (if 16 \<le> length bs then (if s = [] then Some (bs, e) else None)
      else
        let hex = takeWhile is_hex s; rest = dropWhile is_hex s; v = hex_val 0 hex;
            bs' = bs @ [v div 256, v mod 256] in
        if hex = [] \<or> 4 < length hex then None
        else if rest \<noteq> [] \<and> hd rest = CHR ''.'' then
          if e = None \<and> length bs \<noteq> 12 \<or> length bs + 4 > 16 then None
          else map_option (\<lambda>q. (bs @ q, e)) (ipv4_octets s)
        else if rest = [] then Some (bs', e)
        else if hd rest \<noteq> CHR '':'' \<or> tl rest = [] then None
        else if hd (tl rest) = CHR '':'' then
          (if e \<noteq> None then None
           else if tl (tl rest) = [] then Some (bs', Some (length bs'))
           else v6_octets bs' (Some (length bs')) (tl (tl rest)))
        else v6_octets bs' e (tl rest))"
  by pat_completeness auto
termination
  by (relation "measure (\<lambda>(bs, e, s). 16 - length bs)") auto

declare v6_octets.simps [simp del]

definition v6_expand :: "nat list \<Rightarrow> nat option \<Rightarrow> nat list option" where
  "v6_expand bs e =
     (if length bs < 16 then
        (case e of
           None \<Rightarrow> None
         | Some k \<Rightarrow> Some (take k bs @ replicate (16 - length bs) 0 @ drop k bs))
      else if e \<noteq> None then None else Some bs)"

definition ipv6_octets :: "string \<Rightarrow> nat list option" where
  "ipv6_octets s =
     (if starts_with ''::'' s then
        if drop 2 s = [] then Some (replicate 16 0)
        else Option.bind (v6_octets [] (Some 0) (drop 2 s)) (\<lambda>(bs, e). v6_expand bs e)
      else Option.bind (v6_octets [] None s) (\<lambda>(bs, e). v6_expand bs e))"

text \<open>
  \<^verbatim>\<open>netip.ParseAddr\<close> looks for the first of \<^verbatim>\<open>.\<close>, \<^verbatim>\<open>:\<close> and \<^verbatim>\<open>%\<close>: the octets, and the
  zone of an IPv6 address.
\<close>

definition addr_octets :: "string \<Rightarrow> (nat list \<times> string) option" where
  "addr_octets s =
     (case dropWhile (\<lambda>c. c \<notin> set ''.:%'') s of
        [] \<Rightarrow> None
      | c # _ \<Rightarrow>
          if c = CHR ''.'' then map_option (\<lambda>bs. (bs, [])) (ipv4_octets s)
          else if c = CHR '':'' then
            (case cut_on (CHR ''%'') s of
               None \<Rightarrow> map_option (\<lambda>bs. (bs, [])) (ipv6_octets s)
             | Some (a, zone) \<Rightarrow>
                 if zone = [] then None else map_option (\<lambda>bs. (bs, zone)) (ipv6_octets a))
          else None)"

text \<open>\<^verbatim>\<open>net.ParseIP(s) != nil\<close>: an address without a zone.\<close>

definition is_ip :: "string \<Rightarrow> bool" where
  "is_ip s = (case addr_octets s of None \<Rightarrow> False | Some (bs, zone) \<Rightarrow> zone = [])"

text \<open>A \<^verbatim>\<open>netip.Addr\<close>: invalid, 32 bits, or 128 bits with a zone.\<close>

datatype ip_addr = NoAddr | IPv4 "32 word" | IPv6 "128 word" string

definition word_of_octets :: "nat list \<Rightarrow> 'a::len word" where
  "word_of_octets bs = word_of_nat (foldl (\<lambda>a b. 256 * a + b) 0 bs)"

definition parse_addr :: "string \<Rightarrow> ip_addr option" where
  "parse_addr s =
     (case addr_octets s of
        None \<Rightarrow> None
      | Some (bs, zone) \<Rightarrow>
          Some (if length bs = 4 then IPv4 (word_of_octets bs) else IPv6 (word_of_octets bs) zone))"

lemma parse_addr_valid: "parse_addr s \<noteq> Some NoAddr"
  by (auto simp: parse_addr_def split: option.splits if_splits)

lemma is_ip_examples:
  "is_ip ''127.0.0.1''" "\<not> is_ip ''127.0.0.01''" "\<not> is_ip ''example.com''"
  "is_ip ''::1''" "is_ip ''fe80::1:2''" "is_ip ''::ffff:10.0.0.1''" "\<not> is_ip ''1:2:3''"
  "is_ip ''1:2:3:4:5:6:7:8''" "\<not> is_ip ''256.1.1.1''" "\<not> is_ip ''1::2::3''"
  "\<not> is_ip ''fe80::1%eth0''"
  by (simp_all add: is_ip_def addr_octets_def ipv4_octets_def ipv6_octets_def v6_octets.simps
      v6_expand_def ipv4_field_def is_digit_def digit_val_def is_hex_def is_upper_def hex_digit_def)

end
