(* ===== verification/Externs.thy ===== *)
theory Externs
  imports Types Go_Net Base64
begin

text \<open>
  What the sources use and the repository does not hold, gathered in one record the
  definitions take as a parameter: IDNA (\<^verbatim>\<open>golang.org/x/net/idna\<close>), the Unicode tables
  behind lower-casing and case folding of non-ASCII strings, the canonical MessagePack
  codec (\<^verbatim>\<open>go.arpabet.com/value\<close>) and the cryptographic primitives.  Nothing is assumed
  about them here; a theorem that needs a law of one of them states it.

  \<open>gvalue\<close> is what the code sees of a decoded value through the codec's interfaces: its
  kind and the typed accessor for that kind.
\<close>

datatype gvalue =
  VNull
| VOther bytes \<comment> \<open>booleans, floating point and every other kind the code only rejects\<close>
| VLong "64 word"
| VUtf8 string
| VRaw bytes
| VList "gvalue list"
| VMap "(string \<times> gvalue) list"

record externs =
  ex_idna :: "string \<Rightarrow> string option"
  ex_lower :: "string \<Rightarrow> string"
  ex_fold :: "string \<Rightarrow> string \<Rightarrow> bool"
  ex_pack :: "gvalue \<Rightarrow> bytes option"
  ex_unpack :: "bytes \<Rightarrow> gvalue option"
  ex_absent :: "gvalue option" \<comment> \<open>what reading an absent map key answers; \<open>None\<close> is nil\<close>
  ex_sha256 :: "bytes \<Rightarrow> bytes"
  ex_ed_sign :: "bytes \<Rightarrow> bytes \<Rightarrow> bytes"
  ex_ed_verify :: "bytes \<Rightarrow> bytes \<Rightarrow> bytes \<Rightarrow> bool"
  ex_x_public :: "bytes \<Rightarrow> bytes option" \<comment> \<open>the public half of an X25519 private key\<close>
  ex_x_valid :: "bytes \<Rightarrow> bool" \<comment> \<open>whether a byte string is accepted as a public key\<close>
  ex_ecdh :: "bytes \<Rightarrow> bytes \<Rightarrow> bytes option"
  ex_hkdf :: "bytes \<Rightarrow> bytes \<Rightarrow> bytes \<Rightarrow> nat \<Rightarrow> bytes option"
  ex_aead_seal :: "bytes \<Rightarrow> bytes \<Rightarrow> bytes \<Rightarrow> bytes \<Rightarrow> bytes"
  ex_aead_open :: "bytes \<Rightarrow> bytes \<Rightarrow> bytes \<Rightarrow> bytes \<Rightarrow> bytes option"

section \<open>Values\<close>

text \<open>\<^verbatim>\<open>value.SortedMapOf\<close>: the entries ordered by key.\<close>

definition sorted_map_of :: "(string \<times> gvalue) list \<Rightarrow> gvalue" where
  "sorted_map_of kvs = VMap (sort_key fst kvs)"

definition map_get :: "externs \<Rightarrow> (string \<times> gvalue) list \<Rightarrow> string \<Rightarrow> gvalue option" where
  "map_get E m k = (case map_of m k of Some v \<Rightarrow> Some v | None \<Rightarrow> ex_absent E)"

definition map_keys :: "(string \<times> gvalue) list \<Rightarrow> string list" where
  "map_keys m = map fst m"

lemma map_of_sort_key: "distinct (map fst kvs) \<Longrightarrow> map_of (sort_key fst kvs) = map_of kvs"
  by (rule map_of_eqI)
    (auto simp: map_of_eq_Some_iff distinct_map inj_on_def intro: image_eqI)

lemma sorted_map_inject:
  assumes "sorted_map_of kvs = sorted_map_of kvs'" and "distinct (map fst kvs)" and "distinct (map fst kvs')"
  shows "map_of kvs = map_of kvs'"
proof -
  have "sort_key fst kvs = sort_key fst kvs'" using assms(1) by (simp add: sorted_map_of_def)
  then have "map_of (sort_key fst kvs) = map_of (sort_key fst kvs')" by (rule arg_cong)
  then show ?thesis by (simp only: map_of_sort_key assms(2,3))
qed

lemma map_get_sorted:
  "distinct (map fst kvs) \<Longrightarrow> map_get E (sort_key fst kvs) k
     = (case map_of kvs k of Some v \<Rightarrow> Some v | None \<Rightarrow> ex_absent E)"
  by (simp add: map_get_def map_of_sort_key)

lemma map_get_present: "map_of m k = Some v \<Longrightarrow> map_get E m k = Some v"
  by (simp add: map_get_def)

section \<open>Laws a theorem may ask for\<close>

text \<open>
  IDNA with strict domain names and verified lengths answers letters, digits, hyphens and
  dots, at most 254 of them, and no empty label but a last one.
\<close>

definition ldh_dot :: "char \<Rightarrow> bool" where
  "ldh_dot c \<longleftrightarrow> is_digit c \<or> is_upper c \<or> is_lower c \<or> c = CHR ''-'' \<or> c = CHR ''.''"

definition ldh_name :: "string \<Rightarrow> bool" where
  "ldh_name a \<longleftrightarrow> list_all ldh_dot a \<and> length a \<le> 254 \<and> \<not> (\<exists>p. a = p @ ''..'')"

definition idna_ldh :: "externs \<Rightarrow> bool" where
  "idna_ldh E \<longleftrightarrow> (\<forall>d a. ex_idna E d = Some a \<longrightarrow> ldh_name a)"

text \<open>The codec decodes what it encodes.\<close>

definition codec_law :: "externs \<Rightarrow> gvalue \<Rightarrow> bool" where
  "codec_law E v \<longleftrightarrow> (\<forall>raw. ex_pack E v = Some raw \<longrightarrow> ex_unpack E raw = Some v)"

text \<open>The digest has 32 bytes.\<close>

definition sha256_len :: "externs \<Rightarrow> bool" where
  "sha256_len E \<longleftrightarrow> (\<forall>x. length (ex_sha256 E x) = 32)"

text \<open>Two given inputs that collide: what an identifier naming two objects exhibits.\<close>

definition collision :: "externs \<Rightarrow> bytes \<Rightarrow> bytes \<Rightarrow> bool" where
  "collision E x y \<longleftrightarrow> x \<noteq> y \<and> ex_sha256 E x = ex_sha256 E y"

lemma codec_inject:
  "codec_law E v \<Longrightarrow> codec_law E w \<Longrightarrow> ex_pack E v = Some r \<Longrightarrow> ex_pack E w = Some r \<Longrightarrow> v = w"
  by (auto simp: codec_law_def)

end
