(* ===== verification/Domain.thy ===== *)
theory Domain
  imports Externs
begin

text \<open>
  \<^verbatim>\<open>domain.go\<close> and the names \<^verbatim>\<open>discovery/discovery.go\<close> derives from a domain.
  \<open>NormalizeDomain\<close> is the boundary every name off the wire passes; host, owner name and
  URL are functions of normalized domains and of nothing else.
\<close>

definition maxDomainNameLen :: nat where "maxDomainNameLen = 253"

definition NormalizeDomain :: "externs \<Rightarrow> string \<Rightarrow> gerr + string" where
  "NormalizeDomain E domain =
    (let d = trim_space domain in
     if d = [] then Inl (Msg ''domain: empty'')
     else if length d > maxDomainNameLen + 1 then Inl (Msg ''domain: longer than %d characters'')
     else if contains_any d (''/'' @ [CHR 0x5C] @ ''?#@ '' @ [CHR 0x09, CHR 0x0D, CHR 0x0A] @ ''%'')
       then Inl (Msg ''domain: %q must be a bare domain name'')
     else if contains_str ''://'' d then Inl (Msg ''domain: %q must not contain a scheme'')
     else if contains_str '':'' d then Inl (Msg ''domain: %q must not contain a port'')
     else if starts_with ''*'' d \<or> contains_str ''*'' d
       then Inl (Msg ''domain: %q must not be a wildcard'')
     else if starts_with ''['' d then Inl (Msg ''domain: %q must not be an IP literal'')
     else
      let d = trim_suffix_char (CHR ''.'') d in
      if d = [] then Inl (Msg ''domain: empty'')
      else if is_ip d then Inl (Msg ''domain: %q is an IP address, not a domain'')
      else case ex_idna E d of
        None \<Rightarrow> Inl (Wrapped ''domain %q: %w'' (Msg ''idna''))
      | Some a \<Rightarrow>
          let ascii = to_lower (ex_lower E) (trim_suffix_char (CHR ''.'') a) in
          if \<not> contains_str ''.'' ascii then Inl (Msg ''domain: %q has no public suffix'')
          else if is_ip ascii then Inl (Msg ''domain: %q resolves to an IP literal form'')
          else case ex_idna E ascii of
            None \<Rightarrow> Inl (Wrapped ''domain %q: unstable normalization: %w'' (Msg ''idna''))
          | Some again \<Rightarrow>
              if to_lower (ex_lower E) (trim_suffix_char (CHR ''.'') again) \<noteq> ascii
              then Inl (Msg ''domain %q has no stable normal form (%q then %q)'')
              else Inr ascii)"

text \<open>A domain is canonical when normalizing it changes nothing: the check the wire parsers
  repeat.\<close>

definition canonical_domain :: "externs \<Rightarrow> string \<Rightarrow> bool" where
  "canonical_domain E d \<longleftrightarrow> NormalizeDomain E d = Inr d"

section \<open>Derived names\<close>

definition DNSName :: "externs \<Rightarrow> string \<Rightarrow> gerr + string" where
  "DNSName E domain = try_bind (NormalizeDomain E domain) (\<lambda>d. Inr (DNSPrefix @ ''.'' @ d))"

definition AuthorityHost :: "externs \<Rightarrow> string \<Rightarrow> string \<Rightarrow> gerr + string" where
  "AuthorityHost E domain authority =
     try_bind (NormalizeDomain E domain) (\<lambda>d.
       if authority \<noteq> [] then
         try_bind (wrap_err ''authority: %w'' (NormalizeDomain E authority)) (\<lambda>a.
           Inr (HostPrefix @ ''.'' @ a))
       else Inr (HostPrefix @ ''.'' @ d))"

text \<open>The pieces of the URL; the query is the one parameter \<^verbatim>\<open>d\<close>.\<close>

record url =
  u_scheme :: string
  u_host :: string
  u_path :: string
  u_query :: "(string \<times> string) list"

definition DiscoveryURL :: "externs \<Rightarrow> string \<Rightarrow> string \<Rightarrow> gerr + url" where
  "DiscoveryURL E domain authority =
     try_bind (AuthorityHost E domain authority) (\<lambda>host.
     try_bind (NormalizeDomain E domain) (\<lambda>d.
       Inr \<lparr>u_scheme = ''https'', u_host = host, u_path = WellKnownPath,
            u_query = [(SubjectQueryParam, d)]\<rparr>))"

definition cutPrefixLabel :: "string \<Rightarrow> string \<Rightarrow> string option" where
  "cutPrefixLabel host label =
     (let p = label @ ''.'' in
      if \<not> starts_with p host \<or> length host = length p then None
      else Some (drop (length p) host))"

definition DomainCandidatesOf :: "externs \<Rightarrow> string \<Rightarrow> string list" where
  "DomainCandidatesOf E host =
     (let h = trim_space host in
      if h = [] then []
      else
        let target = (case split_host_port h of
                        Some (hostOnly, port) \<Rightarrow> if port \<noteq> ''443'' then None else Some hostOnly
                      | None \<Rightarrow> Some h)
        in case target of
             None \<Rightarrow> []
           | Some h' \<Rightarrow>
               (case NormalizeDomain E h' of
                  Inl _ \<Rightarrow> []
                | Inr full \<Rightarrow>
                    (case cutPrefixLabel full HostPrefix of
                       None \<Rightarrow> []
                     | Some rest \<Rightarrow>
                         (case NormalizeDomain E rest of Inl _ \<Rightarrow> [] | Inr d \<Rightarrow> [d]))
                    @ [full]))"

section \<open>What a normalized domain looks like\<close>

lemma contains_str_single: "contains_str [c] s \<longleftrightarrow> c \<in> set s"
  by (induction s) auto

lemma starts_with_sub: "starts_with sub s \<Longrightarrow> set sub \<subseteq> set s"
  by (metis set_take_subset starts_with_def)

lemma contains_str_sub: "contains_str sub s \<Longrightarrow> set sub \<subseteq> set s"
proof (induction s)
  case (Cons c s)
  then show ?case using starts_with_sub [of sub "c # s"] by auto
qed simp

lemma NormalizeDomain_Inr:
  assumes "NormalizeDomain E domain = Inr ascii"
  shows "CHR ''.'' \<in> set ascii" and "\<not> is_ip ascii"
    and "\<exists>st. ex_idna E ascii = Some st
          \<and> to_lower (ex_lower E) (trim_suffix_char (CHR ''.'') st) = ascii"
    and "\<exists>d a. ex_idna E d = Some a
          \<and> ascii = to_lower (ex_lower E) (trim_suffix_char (CHR ''.'') a)"
  using assms
  by (auto simp: NormalizeDomain_def Let_def contains_str_single
      split: if_splits option.splits)

definition norm_char :: "char \<Rightarrow> bool" where
  "norm_char c \<longleftrightarrow> is_digit c \<or> is_lower c \<or> c = CHR ''-'' \<or> c = CHR ''.''"

lemma norm_char_plain: "norm_char c \<Longrightarrow> plain_char c"
  by (auto simp: norm_char_def plain_char_def is_ascii_char_def space1_def is_digit_def is_lower_def)

lemma norm_char_lower: "norm_char c \<Longrightarrow> lower_char c = c"
  by (rule lower_char_id) (auto simp: norm_char_def is_upper_def is_digit_def is_lower_def)

lemma ldh_dot_ascii: "ldh_dot c \<Longrightarrow> is_ascii_char c"
  by (auto simp: ldh_dot_def is_ascii_char_def is_digit_def is_upper_def is_lower_def)

lemma norm_char_of_ldh: "ldh_dot c \<Longrightarrow> norm_char (lower_char c)"
proof -
  assume "ldh_dot c"
  then consider "is_upper c" | "\<not> is_upper c" "norm_char c"
    by (auto simp: ldh_dot_def norm_char_def)
  then show ?thesis
  proof cases
    case 1
    then have "is_lower (lower_char c)"
      by (auto simp: is_lower_def char_nat_lower is_upper_def)
    then show ?thesis by (simp add: norm_char_def)
  qed (simp add: lower_char_id)
qed

lemma set_trim_suffix: "set (trim_suffix_char c s) \<subseteq> set s"
  by (auto simp: trim_suffix_char_def dest: in_set_butlastD)

lemma length_trim_suffix: "length (trim_suffix_char c s) \<le> length s"
  by (simp add: trim_suffix_char_def)

text \<open>Under the law of IDNA: lower-case letters, digits, hyphens and dots, no dot at the end.\<close>

lemma normalized_shape:
  assumes idna: "idna_ldh E" and n: "NormalizeDomain E domain = Inr a"
  shows "list_all norm_char a" and "length a \<le> 254" and "a \<noteq> []" and "last a \<noteq> CHR ''.''"
proof -
  from NormalizeDomain_Inr(4) [OF n] obtain d r where
    r: "ex_idna E d = Some r" "a = to_lower (ex_lower E) (trim_suffix_char (CHR ''.'') r)" by blast
  let ?t = "trim_suffix_char (CHR ''.'') r"
  from idna r(1) have ldh: "list_all ldh_dot r" "length r \<le> 254" "\<not> (\<exists>p. r = p @ ''..'')"
    by (auto simp: idna_ldh_def ldh_name_def)
  then have t: "list_all ldh_dot ?t" using set_trim_suffix [of "CHR ''.''" r] by (auto simp: list_all_iff)
  then have "ascii_str ?t" by (auto simp: ascii_str_def list_all_iff ldh_dot_ascii)
  then have a: "a = map lower_char ?t" using r(2) by (simp add: to_lower_ascii)
  show "list_all norm_char a" using t by (auto simp: a list_all_iff norm_char_of_ldh)
  show "length a \<le> 254" using ldh(2) length_trim_suffix [of "CHR ''.''" r] by (simp add: a)
  show ne: "a \<noteq> []" using NormalizeDomain_Inr(1) [OF n] by auto
  have "last ?t \<noteq> CHR ''.''"
  proof
    assume l: "last ?t = CHR ''.''"
    have nt: "?t \<noteq> []" using ne a by auto
    show False
    proof (cases "r \<noteq> [] \<and> last r = CHR ''.''")
      case True
      then have "?t = butlast r" by (simp add: trim_suffix_char_def)
      with True l nt have "r = butlast (butlast r) @ ''..''"
        by (metis append.assoc append_Cons append_Nil append_butlast_last_id)
      with ldh(3) show False by blast
    next
      case False
      then show False using l nt by (auto simp: trim_suffix_char_def split: if_splits)
    qed
  qed
  moreover have "last a = lower_char (last ?t)" using ne a by (simp add: last_map)
  ultimately show "last a \<noteq> CHR ''.''" by simp
qed

lemma trim_space_normalized: "list_all norm_char a \<Longrightarrow> trim_space a = a"
  by (rule trim_space_plain_all) (auto simp: list_all_iff norm_char_plain)

lemma normalized_not_special:
  assumes "list_all norm_char a"
  shows "\<not> contains_any a (''/'' @ [CHR 0x5C] @ ''?#@ '' @ [CHR 0x09, CHR 0x0D, CHR 0x0A] @ ''%'')"
    and "CHR '':'' \<notin> set a" and "CHR ''*'' \<notin> set a" and "CHR ''['' \<notin> set a"
    and "CHR '';'' \<notin> set a" and "CHR ''='' \<notin> set a"
  using assms
  by (auto simp: contains_any_iff list_all_iff norm_char_def is_digit_def is_lower_def)

lemma not_starts_with: "c \<notin> set a \<Longrightarrow> \<not> starts_with [c] a"
  by (cases a) auto

lemma normalize_idempotent:
  assumes idna: "idna_ldh E" and n: "NormalizeDomain E domain = Inr a"
  shows "NormalizeDomain E a = Inr a"
proof -
  note sh = normalized_shape [OF idna n]
  note sp = normalized_not_special [OF sh(1)]
  from NormalizeDomain_Inr(3) [OF n] obtain st where
    st: "ex_idna E a = Some st" "to_lower (ex_lower E) (trim_suffix_char (CHR ''.'') st) = a" by blast
  have tr: "trim_suffix_char (CHR ''.'') a = a" using sh(3,4) by (simp add: trim_suffix_char_def)
  have sch: "\<not> contains_str ''://'' a" using sp(2) contains_str_sub [of "''://''" a] by auto
  show ?thesis
    using sh(2,3) sp(1) sch st tr NormalizeDomain_Inr(1,2) [OF n]
    by (simp add: NormalizeDomain_def Let_def trim_space_normalized [OF sh(1)] maxDomainNameLen_def
        contains_str_single sp(2-4) not_starts_with)
qed

lemma canonical_normalized: "idna_ldh E \<Longrightarrow> NormalizeDomain E x = Inr a \<Longrightarrow> canonical_domain E a"
  by (simp add: canonical_domain_def normalize_idempotent)

text \<open>The authority host of any input is the mail host of a normalized domain.\<close>

lemma AuthorityHost_Inr:
  "AuthorityHost E domain authority = Inr h \<longleftrightarrow>
     (\<exists>d. NormalizeDomain E domain = Inr d \<and>
        (if authority = [] then h = HostPrefix @ ''.'' @ d
         else \<exists>a. NormalizeDomain E authority = Inr a \<and> h = HostPrefix @ ''.'' @ a))"
  by (auto simp: AuthorityHost_def result_simps split: sum.splits)

lemma host_prefix_norm: "list_all norm_char d \<Longrightarrow> list_all norm_char (HostPrefix @ ''.'' @ d)"
  by (simp add: HostPrefix_def norm_char_def is_lower_def)

lemma AuthorityHost_norm:
  "idna_ldh E \<Longrightarrow> AuthorityHost E domain authority = Inr h \<Longrightarrow> list_all norm_char h"
  by (auto simp: AuthorityHost_Inr simp del: append.simps intro: host_prefix_norm
      dest: normalized_shape(1) split: if_splits)

lemma cutPrefixLabel_host: "d \<noteq> [] \<Longrightarrow> cutPrefixLabel (label @ ''.'' @ d) label = Some d"
  by (simp add: cutPrefixLabel_def Let_def starts_with_def)

lemma cutPrefixLabel_Some:
  "cutPrefixLabel host label = Some d \<Longrightarrow> host = label @ ''.'' @ d \<and> d \<noteq> []"
  by (auto simp: cutPrefixLabel_def Let_def starts_with_iff split: if_splits)

end
