(* ===== verification/Manifest.thy ===== *)
theory Manifest
  imports Domain
begin

text \<open>
  \<^verbatim>\<open>manifest/manifest.go\<close>: the canonical serialization of a manifest and the two identifiers
  derived from it.  A manifest packs to one sorted map; parsing decodes, checks every
  field by presence and kind, recomputes the kid, and accepts only bytes that repacking
  reproduces.
\<close>

definition fieldVersion :: string where "fieldVersion = ''v''"
definition fieldDomain :: string where "fieldDomain = ''domain''"
definition fieldAuthority :: string where "fieldAuthority = ''authority''"
definition fieldIssuedAt :: string where "fieldIssuedAt = ''issued_at''"
definition fieldExpiresAt :: string where "fieldExpiresAt = ''expires_at''"
definition fieldKey :: string where "fieldKey = ''key''"
definition fieldKid :: string where "fieldKid = ''kid''"
definition fieldAlg :: string where "fieldAlg = ''alg''"
definition fieldEnc :: string where "fieldEnc = ''enc''"
definition fieldPk :: string where "fieldPk = ''pk''"
definition keyDescriptorType :: string where "keyDescriptorType = ''mailkey-envelope-key-v1''"
definition keyDescriptorTypeField :: string where "keyDescriptorTypeField = ''type''"
definition pubKeyLenX25519 :: nat where "pubKeyLenX25519 = 32"

lemmas field_defs =
  fieldVersion_def fieldDomain_def fieldAuthority_def fieldIssuedAt_def fieldExpiresAt_def
  fieldKey_def fieldKid_def fieldAlg_def fieldEnc_def fieldPk_def keyDescriptorType_def
  keyDescriptorTypeField_def

record limits =
  lim_max_lifetime :: duration
  lim_max_clock_skew :: duration

definition DefaultLimits :: limits where
  "DefaultLimits = \<lparr>lim_max_lifetime = 30 * 24 * hour, lim_max_clock_skew = 5 * minute\<rparr>"

section \<open>Identifiers\<close>

definition checkSuite :: "string \<Rightarrow> string \<Rightarrow> bytes \<Rightarrow> gerr + unit" where
  "checkSuite alg enc publicKey =
     (if alg \<noteq> AlgX25519 then Inl (Msg ''unsupported algorithm %q'')
      else if enc \<noteq> EncAES256GCM then Inl (Msg ''unsupported encryption %q'')
      else if length publicKey \<noteq> pubKeyLenX25519
        then Inl (Msg ''%s public key must be %d bytes, got %d'')
      else Inr ())"

definition key_preimage :: "string \<Rightarrow> string \<Rightarrow> string \<Rightarrow> bytes \<Rightarrow> gvalue" where
  "key_preimage domain alg enc publicKey =
     sorted_map_of
       [(keyDescriptorTypeField, VUtf8 keyDescriptorType), (fieldDomain, VUtf8 domain),
        (fieldAlg, VUtf8 alg), (fieldEnc, VUtf8 enc), (fieldPk, VRaw publicKey)]"

definition KeyIDOf :: "externs \<Rightarrow> string \<Rightarrow> string \<Rightarrow> string \<Rightarrow> bytes \<Rightarrow> gerr + bytes" where
  "KeyIDOf E domain alg enc publicKey =
     (if domain = [] then Inl (Msg ''key id: empty domain'')
      else try_bind (checkSuite alg enc publicKey) (\<lambda>_.
        try_bind (opt_err (Wrapped ''key id: pack: %w'' (Msg ''pack''))
                    (ex_pack E (key_preimage domain alg enc publicKey))) (\<lambda>raw.
        Inr (ex_sha256 E raw))))"

definition ManifestIDOf :: "externs \<Rightarrow> bytes \<Rightarrow> bytes" where
  "ManifestIDOf E canonical = ex_sha256 E canonical"

definition truncate_second :: "time \<Rightarrow> time" where
  "truncate_second t = t div second * second"

definition New :: "externs \<Rightarrow> string \<Rightarrow> time \<Rightarrow> time \<Rightarrow> string \<Rightarrow> string \<Rightarrow> bytes \<Rightarrow> gerr + manifest" where
  "New E domain issuedAt expiresAt alg enc publicKey =
     try_bind (KeyIDOf E domain alg enc publicKey) (\<lambda>kid.
       Inr \<lparr>mf_version = Version, mf_domain = domain,
            mf_issued_at = truncate_second issuedAt, mf_expires_at = truncate_second expiresAt,
            mf_key = \<lparr>kd_kid = kid, kd_algorithm = alg, kd_encryption = enc,
                      kd_public_key = publicKey\<rparr>,
            mf_authority = []\<rparr>)"

section \<open>Packing\<close>

definition key_map :: "key_descriptor \<Rightarrow> gvalue" where
  "key_map k =
     sorted_map_of
       [(fieldKid, VRaw (kd_kid k)), (fieldAlg, VUtf8 (kd_algorithm k)),
        (fieldEnc, VUtf8 (kd_encryption k)), (fieldPk, VRaw (kd_public_key k))]"

definition manifest_value :: "manifest \<Rightarrow> gvalue" where
  "manifest_value m =
     sorted_map_of
       ([(fieldVersion, VUtf8 (mf_version m)), (fieldDomain, VUtf8 (mf_domain m)),
         (fieldIssuedAt, VLong (unix_of_time (mf_issued_at m))),
         (fieldExpiresAt, VLong (unix_of_time (mf_expires_at m))),
         (fieldKey, key_map (mf_key m))]
        @ (if mf_authority m \<noteq> [] then [(fieldAuthority, VList (map VUtf8 (mf_authority m)))]
           else []))"

definition check_canonical :: "externs \<Rightarrow> string \<Rightarrow> string \<Rightarrow> gerr + unit" where
  "check_canonical E msg d = guard_err (\<not> canonical_domain E d) (Msg msg)"

definition Pack :: "externs \<Rightarrow> manifest \<Rightarrow> gerr + bytes" where
  "Pack E m =
     (let k = mf_key m in
      if mf_version m \<noteq> Version then Inl (Msg ''pack: unsupported version %q'')
      else if mf_domain m = [] then Inl (Msg ''pack: empty domain'')
      else
        try_bind (check_canonical E ''pack: domain %q is not in canonical form (want %q)''
                    (mf_domain m)) (\<lambda>_.
        if length (mf_authority m) > MaxAuthorityEntries
        then Inl (Msg ''pack: authority has %d entries, at most %d allowed'')
        else
        try_bind (try_map (check_canonical E ''pack: authority %q is not in canonical form (want %q)'')
                    (mf_authority m)) (\<lambda>_.
        try_bind (wrap_err ''pack: %w''
                    (checkSuite (kd_algorithm k) (kd_encryption k) (kd_public_key k))) (\<lambda>_.
        try_bind (KeyIDOf E (mf_domain m) (kd_algorithm k) (kd_encryption k) (kd_public_key k)) (\<lambda>kid.
        if kid \<noteq> kd_kid k then Inl (Msg ''pack: kid does not match the key descriptor'')
        else opt_err (Msg ''pack'') (ex_pack E (manifest_value m)))))))"

section \<open>Typed field access\<close>

definition asMap :: "gvalue option \<Rightarrow> string \<Rightarrow> gerr + (string \<times> gvalue) list" where
  "asMap v what =
     (case v of Some (VMap m) \<Rightarrow> Inr m | _ \<Rightarrow> Inl (Msg (what @ '': expected a map'')))"

definition boundedKeys ::
  "externs \<Rightarrow> (string \<times> gvalue) list \<Rightarrow> string \<Rightarrow> string list \<Rightarrow> string list \<Rightarrow> gerr + unit" where
  "boundedKeys E m what required optional =
     (if list_ex (\<lambda>k. k \<notin> set (required @ optional)) (map_keys m)
      then Inl (Msg (what @ '': unexpected field %q''))
      else if list_ex (\<lambda>k. map_get E m k = None) required
      then Inl (Msg (what @ '': missing field %q''))
      else Inr ())"

definition exactKeys ::
  "externs \<Rightarrow> (string \<times> gvalue) list \<Rightarrow> string \<Rightarrow> string list \<Rightarrow> gerr + unit" where
  "exactKeys E m what want =
     (if length (map_keys m) \<noteq> length want then Inl (Msg (what @ '': expected %d fields, got %d''))
      else if list_ex (\<lambda>k. map_get E m k = None) want
      then Inl (Msg (what @ '': missing field %q''))
      else Inr ())"

definition utf8Field :: "externs \<Rightarrow> (string \<times> gvalue) list \<Rightarrow> string \<Rightarrow> gerr + string" where
  "utf8Field E m key =
     (case map_get E m key of Some (VUtf8 s) \<Rightarrow> Inr s
      | _ \<Rightarrow> Inl (Msg ''manifest: field %q must be a UTF-8 string''))"

definition rawField :: "externs \<Rightarrow> (string \<times> gvalue) list \<Rightarrow> string \<Rightarrow> gerr + bytes" where
  "rawField E m key =
     (case map_get E m key of Some (VRaw b) \<Rightarrow> Inr b
      | _ \<Rightarrow> Inl (Msg ''manifest: field %q must be raw bytes''))"

definition longField :: "externs \<Rightarrow> (string \<times> gvalue) list \<Rightarrow> string \<Rightarrow> gerr + 64 word" where
  "longField E m key =
     (case map_get E m key of Some (VLong n) \<Rightarrow> Inr n
      | _ \<Rightarrow> Inl (Msg ''manifest: field %q must be a 64-bit integer''))"

definition authority_item :: "externs \<Rightarrow> gvalue \<Rightarrow> gerr + string" where
  "authority_item E it =
     (case it of
        VUtf8 a \<Rightarrow>
          if canonical_domain E a then Inr a
          else Inl (Msg ''manifest: authority %q is not in canonical form'')
      | _ \<Rightarrow> Inl (Msg ''manifest: %q entries must be UTF-8 strings''))"

definition authorityField :: "externs \<Rightarrow> (string \<times> gvalue) list \<Rightarrow> gerr + string list" where
  "authorityField E m =
     (case map_get E m fieldAuthority of
        None \<Rightarrow> Inr []
      | Some VNull \<Rightarrow> Inr []
      | Some (VList items) \<Rightarrow>
          if items = [] then Inl (Msg ''manifest: field %q must not be empty when present'')
          else if length items > MaxAuthorityEntries
          then Inl (Msg ''manifest: %q has %d entries, at most %d allowed'')
          else try_map (authority_item E) items
      | Some _ \<Rightarrow> Inl (Msg ''manifest: field %q must be a list''))"

section \<open>Parsing\<close>

definition ParseCanonical :: "externs \<Rightarrow> bytes \<Rightarrow> string \<Rightarrow> gerr + manifest" where
  "ParseCanonical E raw requestedDomain =
     (if raw = [] then Inl (Msg ''manifest: empty body'')
      else if length raw > MaxBodyBytes
        then Inl (Msg ''manifest: body of %d bytes exceeds the %d byte limit'')
      else
        try_bind (opt_err (Wrapped ''manifest: unpack: %w'' (Msg ''unpack'')) (ex_unpack E raw)) (\<lambda>val.
        try_bind (asMap (Some val) ''manifest'') (\<lambda>top.
        try_bind (boundedKeys E top ''manifest''
                    [fieldVersion, fieldDomain, fieldIssuedAt, fieldExpiresAt, fieldKey]
                    [fieldAuthority]) (\<lambda>_.
        try_bind (utf8Field E top fieldVersion) (\<lambda>ver.
        if ver \<noteq> Version then Inl (Msg ''manifest: unsupported version %q'') else
        try_bind (utf8Field E top fieldDomain) (\<lambda>domain.
        if requestedDomain \<noteq> [] \<and> domain \<noteq> requestedDomain
          then Inl (Msg ''manifest: describes domain %q, requested %q'') else
        if \<not> canonical_domain E domain
          then Inl (Msg ''manifest: domain %q is not in canonical form'') else
        try_bind (authorityField E top) (\<lambda>authority.
        try_bind (longField E top fieldIssuedAt) (\<lambda>issued.
        try_bind (longField E top fieldExpiresAt) (\<lambda>expires.
        try_bind (asMap (map_get E top fieldKey) ''manifest key'') (\<lambda>keyVal.
        try_bind (exactKeys E keyVal ''manifest key'' [fieldKid, fieldAlg, fieldEnc, fieldPk]) (\<lambda>_.
        try_bind (utf8Field E keyVal fieldAlg) (\<lambda>alg.
        try_bind (utf8Field E keyVal fieldEnc) (\<lambda>enc.
        try_bind (rawField E keyVal fieldPk) (\<lambda>pk.
        try_bind (rawField E keyVal fieldKid) (\<lambda>kidBytes.
        if length kidBytes \<noteq> 32 then Inl (Msg ''manifest: kid must be %d bytes, got %d'') else
        try_bind (wrap_err ''manifest: %w'' (checkSuite alg enc pk)) (\<lambda>_.
        try_bind (wrap_err ''manifest: %w'' (KeyIDOf E domain alg enc pk)) (\<lambda>want.
        if kidBytes \<noteq> want then Inl (Msg ''manifest: kid does not match the published key'') else
        let m = \<lparr>mf_version = ver, mf_domain = domain,
                 mf_issued_at = time_of_unix issued, mf_expires_at = time_of_unix expires,
                 mf_key = \<lparr>kd_kid = want, kd_algorithm = alg, kd_encryption = enc,
                           kd_public_key = pk\<rparr>,
                 mf_authority = authority\<rparr>
        in try_bind (wrap_err ''manifest: repack: %w'' (Pack E m)) (\<lambda>repacked.
             if repacked \<noteq> raw
             then Inl (Msg ''manifest: response is not canonical MKDP1 MessagePack'')
             else Inr m))))))))))))))))))"

section \<open>Validation\<close>

definition Validate :: "manifest \<Rightarrow> time \<Rightarrow> limits \<Rightarrow> gerr + unit" where
  "Validate m now lim =
     (if \<not> mf_expires_at m > mf_issued_at m
        then Inl (Msg ''manifest: expires_at must be later than issued_at'')
      else if lim_max_lifetime lim > 0
          \<and> time_sub (mf_expires_at m) (mf_issued_at m) > lim_max_lifetime lim
        then Inl (Msg ''manifest: validity of %s exceeds the %s maximum'')
      else if mf_issued_at m > now + lim_max_clock_skew lim
        then Inl (Msg ''manifest: issued_at %s is in the future'')
      else if \<not> mf_expires_at m > now then Inl (Msg ''manifest: expired at %s'')
      else Inr ())"

section \<open>Text encoding of identifiers\<close>

definition EncodeID :: "bytes \<Rightarrow> string" where
  "EncodeID i = encode_b64 i"

definition DecodeID :: "string \<Rightarrow> gerr + bytes" where
  "DecodeID s =
     try_bind (opt_err (Wrapped ''identifier: %w'' (Msg ''base64'')) (decode_b64 s)) (\<lambda>b.
          if length b \<noteq> 32 then Inl (Msg ''identifier: must be %d bytes, got %d'')
          else if EncodeID b \<noteq> s
          then Inl (Msg ''identifier: %q is not the canonical spelling of its bytes'')
          else Inr b)"

section \<open>What packing and parsing accept\<close>

lemma checkSuite_Inr [result_simps]:
  "checkSuite a e p = Inr u \<longleftrightarrow> a = AlgX25519 \<and> e = EncAES256GCM \<and> length p = pubKeyLenX25519"
  by (auto simp: checkSuite_def)

lemma KeyIDOf_Inr:
  "KeyIDOf E d a e p = Inr k \<longleftrightarrow>
     d \<noteq> [] \<and> checkSuite a e p = Inr ()
     \<and> (\<exists>raw. ex_pack E (key_preimage d a e p) = Some raw \<and> k = ex_sha256 E raw)"
  by (auto simp: KeyIDOf_def result_simps)

lemma check_canonical_Inr [result_simps]: "check_canonical E s d = Inr u \<longleftrightarrow> canonical_domain E d"
  by (simp add: check_canonical_def result_simps)

lemma try_map_check: "(\<exists>u. try_map (check_canonical E s) xs = Inr u) \<longleftrightarrow> list_all (canonical_domain E) xs"
  by (induction xs) (auto simp: result_simps)

lemma Pack_Inr:
  "Pack E m = Inr raw \<longleftrightarrow>
     mf_version m = Version \<and> canonical_domain E (mf_domain m)
     \<and> length (mf_authority m) \<le> MaxAuthorityEntries
     \<and> list_all (canonical_domain E) (mf_authority m)
     \<and> KeyIDOf E (mf_domain m) (kd_algorithm (mf_key m)) (kd_encryption (mf_key m))
         (kd_public_key (mf_key m)) = Inr (kd_kid (mf_key m))
     \<and> ex_pack E (manifest_value m) = Some raw"
  unfolding Pack_def Let_def try_map_check [symmetric, of _ _ "''pack: authority %q is not in canonical form (want %q)''"]
  by (auto simp: result_simps KeyIDOf_Inr not_less)

lemma asMap_Inr [result_simps]: "asMap v w = Inr m \<longleftrightarrow> v = Some (VMap m)"
  by (auto simp: asMap_def split: option.splits gvalue.splits)

lemma utf8Field_Inr [result_simps]: "utf8Field E m k = Inr s \<longleftrightarrow> map_get E m k = Some (VUtf8 s)"
  by (auto simp: utf8Field_def split: option.splits gvalue.splits)

lemma rawField_Inr [result_simps]: "rawField E m k = Inr s \<longleftrightarrow> map_get E m k = Some (VRaw s)"
  by (auto simp: rawField_def split: option.splits gvalue.splits)

lemma longField_Inr [result_simps]: "longField E m k = Inr s \<longleftrightarrow> map_get E m k = Some (VLong s)"
  by (auto simp: longField_def split: option.splits gvalue.splits)

lemma ParseCanonical_facts:
  assumes "ParseCanonical E raw d = Inr m"
  shows ParseCanonical_repacks: "Pack E m = Inr raw"
    and ParseCanonical_domain: "d = [] \<or> mf_domain m = d"
    and ParseCanonical_size: "raw \<noteq> [] \<and> length raw \<le> MaxBodyBytes"
    and ParseCanonical_times: "whole_seconds (mf_issued_at m) \<and> whole_seconds (mf_expires_at m)"
  using assms unfolding ParseCanonical_def
  by (auto simp: Let_def result_simps not_less whole_seconds_time_of_unix)

section \<open>Round trip\<close>

definition absent_law :: "externs \<Rightarrow> bool" where
  "absent_law E \<longleftrightarrow> ex_absent E = None \<or> ex_absent E = Some VNull"

lemma authority_items: "list_all (canonical_domain E) as \<Longrightarrow>
  try_map (authority_item E) (map VUtf8 as) = Inr as"
  by (rule try_map_map) (auto simp: authority_item_def list_all_iff)

lemma ParseCanonical_Pack:
  assumes p: "Pack E m = Inr raw" and codec: "codec_law E (manifest_value m)"
    and sha: "sha256_len E" and absent: "absent_law E"
    and size: "raw \<noteq> []" "length raw \<le> MaxBodyBytes"
    and times: "whole_seconds (mf_issued_at m)" "whole_seconds (mf_expires_at m)"
  shows "ParseCanonical E raw (mf_domain m) = Inr m"
proof -
  note pk = p [unfolded Pack_Inr]
  let ?k = "mf_key m"
  define kkvs where "kkvs = [(fieldKid, VRaw (kd_kid ?k)), (fieldAlg, VUtf8 (kd_algorithm ?k)),
        (fieldEnc, VUtf8 (kd_encryption ?k)), (fieldPk, VRaw (kd_public_key ?k))]"
  define kvs where "kvs = [(fieldVersion, VUtf8 (mf_version m)), (fieldDomain, VUtf8 (mf_domain m)),
         (fieldIssuedAt, VLong (unix_of_time (mf_issued_at m))),
         (fieldExpiresAt, VLong (unix_of_time (mf_expires_at m))),
         (fieldKey, VMap (sort_key fst kkvs))]
        @ (if mf_authority m \<noteq> [] then [(fieldAuthority, VList (map VUtf8 (mf_authority m)))] else [])"
  have mv: "manifest_value m = VMap (sort_key fst kvs)"
    by (simp add: manifest_value_def key_map_def sorted_map_of_def kvs_def kkvs_def)
  have dk: "distinct (map fst kkvs)" by (simp add: kkvs_def field_defs)
  have dv: "distinct (map fst kvs)" by (simp add: kvs_def field_defs)
  have un: "ex_unpack E raw = Some (VMap (sort_key fst kvs))"
    using codec pk mv by (auto simp: codec_law_def)
  note get = map_get_sorted [OF dv] map_get_sorted [OF dk]
  have kid: "length (kd_kid ?k) = 32" using pk sha by (auto simp: KeyIDOf_Inr sha256_len_def)
  have bk: "boundedKeys E (sort_key fst kvs) ''manifest''
      [fieldVersion, fieldDomain, fieldIssuedAt, fieldExpiresAt, fieldKey] [fieldAuthority] = Inr ()"
    unfolding boundedKeys_def map_keys_def get list_ex_iff
    by (auto simp: kvs_def field_defs split: if_splits)
  have ek: "exactKeys E (sort_key fst kkvs) ''manifest key'' [fieldKid, fieldAlg, fieldEnc, fieldPk] = Inr ()"
    unfolding exactKeys_def map_keys_def get list_ex_iff
    by (auto simp: kkvs_def field_defs)
  have au: "authorityField E (sort_key fst kvs) = Inr (mf_authority m)"
    using absent pk authority_items [of E "mf_authority m"] unfolding authorityField_def get
    by (auto simp: kvs_def field_defs absent_law_def)
  have fields: "utf8Field E (sort_key fst kvs) fieldVersion = Inr Version"
    "utf8Field E (sort_key fst kvs) fieldDomain = Inr (mf_domain m)"
    "longField E (sort_key fst kvs) fieldIssuedAt = Inr (unix_of_time (mf_issued_at m))"
    "longField E (sort_key fst kvs) fieldExpiresAt = Inr (unix_of_time (mf_expires_at m))"
    "map_get E (sort_key fst kvs) fieldKey = Some (VMap (sort_key fst kkvs))"
    "utf8Field E (sort_key fst kkvs) fieldAlg = Inr (kd_algorithm ?k)"
    "utf8Field E (sort_key fst kkvs) fieldEnc = Inr (kd_encryption ?k)"
    "rawField E (sort_key fst kkvs) fieldPk = Inr (kd_public_key ?k)"
    "rawField E (sort_key fst kkvs) fieldKid = Inr (kd_kid ?k)"
    using pk unfolding result_simps get by (auto simp: kvs_def kkvs_def field_defs)
  have cs: "checkSuite (kd_algorithm ?k) (kd_encryption ?k) (kd_public_key ?k) = Inr ()"
    using pk by (auto simp: KeyIDOf_Inr)
  have eta: "\<lparr>mf_version = Version, mf_domain = mf_domain m, mf_issued_at = mf_issued_at m,
      mf_expires_at = mf_expires_at m,
      mf_key = \<lparr>kd_kid = kd_kid ?k, kd_algorithm = kd_algorithm ?k,
        kd_encryption = kd_encryption ?k, kd_public_key = kd_public_key ?k\<rparr>,
      mf_authority = mf_authority m\<rparr> = m"
    using pk by simp
  show ?thesis
    using pk size kid
    by (simp add: ParseCanonical_def Let_def un asMap_def bk fields ek au cs
        time_of_unix_of_time [OF times(1)] time_of_unix_of_time [OF times(2)] eta p del: One_nat_def)
qed

section \<open>Identifiers\<close>

lemma DecodeID_Inr: "DecodeID s = Inr b \<longleftrightarrow> length b = 32 \<and> s = EncodeID b"
  by (auto simp: DecodeID_def EncodeID_def result_simps)

lemma DecodeID_EncodeID: "length b = 32 \<Longrightarrow> DecodeID (EncodeID b) = Inr b"
  by (simp add: DecodeID_Inr)

lemma key_preimage_inject:
  "key_preimage d a e p = key_preimage d' a' e' p' \<longleftrightarrow> d = d' \<and> a = a' \<and> e = e' \<and> p = p'"
proof
  assume eq: "key_preimage d a e p = key_preimage d' a' e' p'"
  let ?l = "\<lambda>d a e p. [(keyDescriptorTypeField, VUtf8 keyDescriptorType), (fieldDomain, VUtf8 d),
        (fieldAlg, VUtf8 a), (fieldEnc, VUtf8 e), (fieldPk, VRaw p)]"
  have s: "sort_key fst (?l d a e p) = sort_key fst (?l d' a' e' p')"
    using eq by (simp add: key_preimage_def sorted_map_of_def)
  have di: "distinct (map fst (?l d a e p))" for d a e p by (simp add: field_defs)
  have "map_of (?l d a e p) = map_of (?l d' a' e' p')"
    using arg_cong [OF s, of map_of] by (simp only: map_of_sort_key [OF di])
  then have "map_of (?l d a e p) k = map_of (?l d' a' e' p') k" for k by simp
  from this [of fieldDomain] this [of fieldAlg] this [of fieldEnc] this [of fieldPk]
  show "d = d' \<and> a = a' \<and> e = e' \<and> p = p'" by (simp add: field_defs)
qed simp

lemma KeyIDOf_binds:
  assumes "KeyIDOf E d a e p = Inr k" and "KeyIDOf E d' a' e' p' = Inr k"
    and "codec_law E (key_preimage d a e p)" and "codec_law E (key_preimage d' a' e' p')"
  shows "d = d' \<and> a = a' \<and> e = e' \<and> p = p'
    \<or> (\<exists>r r'. ex_pack E (key_preimage d a e p) = Some r
          \<and> ex_pack E (key_preimage d' a' e' p') = Some r' \<and> collision E r r')"
proof -
  from assms(1) obtain r where r: "ex_pack E (key_preimage d a e p) = Some r" "k = ex_sha256 E r"
    by (auto simp: KeyIDOf_Inr)
  from assms(2) obtain r' where r': "ex_pack E (key_preimage d' a' e' p') = Some r'" "k = ex_sha256 E r'"
    by (auto simp: KeyIDOf_Inr)
  show ?thesis
  proof (cases "r = r'")
    case True
    with r(1) r'(1) assms(3,4) have "key_preimage d a e p = key_preimage d' a' e' p'"
      by (auto intro: codec_inject)
    then show ?thesis by (simp add: key_preimage_inject)
  next
    case False
    with r(2) r'(2) have "collision E r r'" by (simp add: collision_def)
    with r(1) r'(1) show ?thesis by blast
  qed
qed

section \<open>Lifetimes\<close>

lemma Validate_Inr:
  assumes "lim_max_lifetime lim < 2 ^ 63 - 1"
  shows "Validate m now lim = Inr () \<longleftrightarrow>
     mf_issued_at m < mf_expires_at m
     \<and> (lim_max_lifetime lim > 0 \<longrightarrow> mf_expires_at m - mf_issued_at m \<le> lim_max_lifetime lim)
     \<and> mf_issued_at m \<le> now + lim_max_clock_skew lim \<and> now < mf_expires_at m"
  using time_sub_gt [of "lim_max_lifetime lim" "mf_expires_at m" "mf_issued_at m"] assms
  by (auto simp: Validate_def)

end
