(* ===== verification/Discovery.thy ===== *)
theory Discovery
  imports Manifest
begin

text \<open>
  \<^verbatim>\<open>discovery/discovery.go\<close> and \<^verbatim>\<open>discovery/id.go\<close>: the \<^verbatim>\<open>k=v; k=v\<close> grammar of the DNS
  record and of the Mail-Key header.  An advertisement names a subject domain, at most one
  authority domain, and digests; nothing it carries can name a host, a port or a key.
\<close>

definition maxTXTLen :: nat where "maxTXTLen = 512"
definition MaxHeaderLen :: nat where "MaxHeaderLen = 512"

definition encodeID :: "bytes \<Rightarrow> string" where
  "encodeID i = EncodeID i"

definition decodeID :: "string \<Rightarrow> gerr + bytes" where
  "decodeID s = DecodeID s"

section \<open>Parsing\<close>

text \<open>The loop over the parts; the map of fields keeps their order of arrival.\<close>

fun parse_fields ::
  "externs \<Rightarrow> string list \<Rightarrow> (string \<times> string) list \<Rightarrow> gerr + (string \<times> string) list" where
  "parse_fields E [] fs = Inr fs"
| "parse_fields E (p # ps) fs =
     (let part = trim_space p in
      if part = [] then parse_fields E ps fs
      else case cut_on (CHR ''='') part of
        None \<Rightarrow> Inl (Msg ''advertisement: %q is not k=v'')
      | Some (k0, v0) \<Rightarrow>
          let k = to_lower (ex_lower E) (trim_space k0); v = trim_space v0 in
          if map_of fs k \<noteq> None then Inl (Msg ''advertisement: duplicate field %q'')
          else parse_fields E ps (fs @ [(k, v)]))"

definition forbidden_fields :: "string list" where
  "forbidden_fields = [''url'', ''host'', ''port'', ''path'', ''endpoint'', ''pk'', ''key'', ''seq'']"

definition subject_of ::
  "externs \<Rightarrow> (string \<times> string) list \<Rightarrow> string \<Rightarrow> bool \<Rightarrow> gerr + string" where
  "subject_of E fs domain requireDomain =
     (case map_of fs ''d'' of
        Some dv \<Rightarrow>
          try_bind (wrap_err ''advertisement: %w'' (NormalizeDomain E dv)) (\<lambda>nd.
            if domain \<noteq> [] \<and> nd \<noteq> domain
            then Inl (Msg ''advertisement: d=%q does not match %q'')
            else Inr nd)
      | None \<Rightarrow>
          if requireDomain then Inl (Msg ''advertisement: missing d='') else Inr domain)"

definition delegate_of :: "externs \<Rightarrow> (string \<times> string) list \<Rightarrow> string \<Rightarrow> gerr + string" where
  "delegate_of E fs subject =
     (case map_of fs ''a'' of
        Some av \<Rightarrow>
          try_bind (wrap_err ''advertisement: a=: %w'' (NormalizeDomain E av)) (\<lambda>na.
            Inr (if na \<noteq> subject then na else []))
      | None \<Rightarrow> Inr [])"

definition digest_of :: "(string \<times> string) list \<Rightarrow> string \<Rightarrow> gerr + bytes option" where
  "digest_of fs k =
     (case map_of fs k of
        Some v \<Rightarrow> try_bind (wrap_err ''advertisement: %s: %w'' (decodeID v)) (\<lambda>b. Inr (Some b))
      | None \<Rightarrow> Inr None)"

definition opt_bytes :: "bytes option \<Rightarrow> bytes" where
  "opt_bytes b = (case b of Some x \<Rightarrow> x | None \<Rightarrow> zero32)"

definition parseParams :: "externs \<Rightarrow> string \<Rightarrow> string \<Rightarrow> bool \<Rightarrow> gerr + advertisement" where
  "parseParams E s domain requireDomain =
     try_bind (parse_fields E (split_on (CHR '';'') s) []) (\<lambda>fs.
     if map_of fs ''v'' \<noteq> Some Version
       then Inl (Msg ''advertisement: unsupported version %q'')
     else if map_of fs ''mode'' = None then Inl (Msg ''advertisement: missing mode='')
     else if map_of fs ''mode'' \<noteq> Some Mode
       then Inl (Msg ''advertisement: unsupported mode %q'')
     else
       try_bind (subject_of E fs domain requireDomain) (\<lambda>subject.
       try_bind (delegate_of E fs subject) (\<lambda>authority.
       if list_ex (\<lambda>k. map_of fs k \<noteq> None) forbidden_fields
         then Inl (Msg ''advertisement: field %q is not part of MKDP1'')
       else
         try_bind (digest_of fs ''fp'') (\<lambda>fp.
         try_bind (digest_of fs ''id'') (\<lambda>id.
         if id = None \<and> fp = None
         then Inl (Msg ''advertisement: needs fp= (or the deprecated id=)'')
         else Inr \<lparr>ad_version = Version, ad_domain = subject, ad_authority = authority,
                   ad_manifest_id = opt_bytes id, ad_has_id = (id \<noteq> None),
                   ad_fingerprint = opt_bytes fp, ad_has_fp = (fp \<noteq> None), ad_mode = Mode\<rparr>)))))"

fun parse_records ::
  "externs \<Rightarrow> string \<Rightarrow> string list \<Rightarrow> advertisement list \<times> gerr list" where
  "parse_records E d [] = ([], [])"
| "parse_records E d (r # rs) =
     (let (ads, skipped) = parse_records E d rs in
      if length r > maxTXTLen then (ads, Msg ''txt record longer than %d bytes'' # skipped)
      else case parseParams E r d False of
        Inl e \<Rightarrow> (ads, e # skipped)
      | Inr ad \<Rightarrow> (ad # ads, skipped))"

definition ParseDNS ::
  "externs \<Rightarrow> string \<Rightarrow> string list \<Rightarrow> gerr + advertisement list \<times> gerr list" where
  "ParseDNS E domain txt =
     try_bind (NormalizeDomain E domain) (\<lambda>d. Inr (parse_records E d txt))"

definition ParseHeader :: "externs \<Rightarrow> string \<Rightarrow> gerr + advertisement" where
  "ParseHeader E headerValue =
     (if length headerValue > MaxHeaderLen then Inl (Msg ''header: longer than %d bytes'')
      else parseParams E headerValue [] True)"

section \<open>Formatting\<close>

definition FormatHeader :: "externs \<Rightarrow> string \<Rightarrow> bytes \<Rightarrow> string \<Rightarrow> gerr + string" where
  "FormatHeader E domain mid authority =
     try_bind (NormalizeDomain E domain) (\<lambda>d.
       let out = ''v='' @ Version @ ''; d='' @ d @ ''; id='' @ encodeID mid in
       if authority \<noteq> [] then
         try_bind (wrap_err ''authority: %w'' (NormalizeDomain E authority)) (\<lambda>a.
           Inr ((if a \<noteq> d then out @ ''; a='' @ a else out) @ ''; mode='' @ Mode))
       else Inr (out @ ''; mode='' @ Mode))"

definition FormatDNS :: "externs \<Rightarrow> bytes \<Rightarrow> bool \<Rightarrow> bytes \<Rightarrow> string \<Rightarrow> string" where
  "FormatDNS E fp hasFP mid authority =
     (let out = ''v='' @ Version @ (if hasFP then ''; fp='' @ EncodeID fp else ''; id='' @ encodeID mid);
          out = (case NormalizeDomain E authority of
                   Inr a \<Rightarrow> if authority \<noteq> [] then out @ ''; a='' @ a else out
                 | Inl _ \<Rightarrow> out)
      in out @ ''; mode='' @ Mode)"

section \<open>The grammar\<close>

definition render_field :: "string \<times> string \<Rightarrow> string" where
  "render_field kv = fst kv @ ''='' @ snd kv"

fun render_fields :: "(string \<times> string) list \<Rightarrow> string" where
  "render_fields [] = []"
| "render_fields [kv] = render_field kv"
| "render_fields (kv # kvs) = render_field kv @ '';'' @ '' '' @ render_fields kvs"

definition field_char :: "char \<Rightarrow> bool" where
  "field_char c \<longleftrightarrow> plain_char c \<and> c \<noteq> CHR '';''"

definition field_ok :: "string \<times> string \<Rightarrow> bool" where
  "field_ok kv \<longleftrightarrow> fst kv \<noteq> [] \<and> list_all is_lower (fst kv) \<and> list_all field_char (snd kv)"

lemma lower_facts: "is_lower c \<Longrightarrow> plain_char c \<and> c \<noteq> CHR '';'' \<and> c \<noteq> CHR ''='' \<and> lower_char c = c
    \<and> is_ascii_char c"
  by (auto simp: is_lower_def plain_char_def is_ascii_char_def space1_def intro!: lower_char_id
      simp: is_upper_def)

lemma lower_key:
  assumes "list_all is_lower k"
  shows "trim_space k = k" and "to_lower u k = k" and "CHR ''='' \<notin> set k"
proof -
  show "trim_space k = k"
    using assms lower_facts by (intro trim_space_plain_all) (auto simp: list_all_iff)
  have "ascii_str k" "map lower_char k = k"
    using assms lower_facts by (auto simp: ascii_str_def list_all_iff intro: map_idI)
  then show "to_lower u k = k" by (simp add: to_lower_ascii)
  show "CHR ''='' \<notin> set k" using assms lower_facts by (auto simp: list_all_iff)
qed

lemma render_field_plain:
  assumes "field_ok kv"
  shows "c \<in> set (render_field kv) \<Longrightarrow> plain_char c \<and> c \<noteq> CHR '';''" and "render_field kv \<noteq> []"
  using assms lower_facts
  by (auto simp: field_ok_def render_field_def list_all_iff field_char_def plain_char_def
      is_ascii_char_def space1_def)

lemma trim_render_field:
  "field_ok kv \<Longrightarrow> trim_space (render_field kv) = render_field kv
     \<and> trim_space (CHR '' '' # render_field kv) = render_field kv"
  by (auto simp: trim_space_space intro!: trim_space_plain_all dest: render_field_plain(1))

lemma parse_fields_step:
  assumes ok: "field_ok kv" and part: "trim_space p = render_field kv" and new: "fst kv \<notin> fst ` set fs"
  shows "parse_fields E (p # ps) fs = parse_fields E ps (fs @ [kv])"
proof -
  have k: "list_all is_lower (fst kv)" and v: "list_all field_char (snd kv)"
    using ok by (auto simp: field_ok_def)
  note key = lower_key [OF k]
  have cut: "cut_on (CHR ''='') (render_field kv) = Some (fst kv, snd kv)"
    using key(3) by (simp add: render_field_def cut_on_append)
  have "trim_space (snd kv) = snd kv"
    using v by (intro trim_space_plain_all) (auto simp: list_all_iff field_char_def)
  then show ?thesis
    using new key cut render_field_plain(2) [OF ok]
    by (cases kv) (simp add: part Let_def map_of_eq_None_iff)
qed

lemma split_render:
  assumes "list_all field_ok kvs" and "kvs \<noteq> []"
  shows "\<exists>ps. split_on (CHR '';'') (render_fields kvs) = ps \<and> map trim_space ps = map render_field kvs
     \<and> map trim_space (split_on (CHR '';'') (CHR '' '' # render_fields kvs)) = map render_field kvs"
  using assms
proof (induction kvs rule: render_fields.induct)
  case (2 kv)
  then have "CHR '';'' \<notin> set (render_field kv)" using render_field_plain(1) [of kv] by auto
  with 2 show ?case using trim_render_field [of kv] by (simp add: split_on_no_sep)
next
  case (3 kv kv' kvs)
  then have n: "CHR '';'' \<notin> set (render_field kv)" using render_field_plain(1) [of kv] by auto
  have "split_on (CHR '';'') (render_field kv @ CHR '';'' # rest)
      = render_field kv # split_on (CHR '';'') rest" for rest
    using n by (rule split_on_append)
  moreover have "split_on (CHR '';'') ((CHR '' '' # render_field kv) @ CHR '';'' # rest)
      = (CHR '' '' # render_field kv) # split_on (CHR '';'') rest" for rest
    using n by (intro split_on_append) auto
  ultimately show ?case using 3 trim_render_field [of kv] by simp
qed simp

lemma parse_fields_all:
  "list_all field_ok kvs \<Longrightarrow> map trim_space ps = map render_field kvs
     \<Longrightarrow> distinct (map fst (fs @ kvs)) \<Longrightarrow> parse_fields E ps fs = Inr (fs @ kvs)"
proof (induction kvs arbitrary: ps fs)
  case (Cons kv kvs)
  then obtain p ps' where ps: "ps = p # ps'" "trim_space p = render_field kv" by (cases ps) auto
  have "parse_fields E ps fs = parse_fields E ps' (fs @ [kv])"
    unfolding ps(1) using Cons.prems ps(2) by (intro parse_fields_step) auto
  then show ?case using Cons ps by simp
qed simp

text \<open>Rendered fields parse back to themselves.\<close>

lemma parse_rendered:
  assumes "list_all field_ok kvs" and "kvs \<noteq> []" and "distinct (map fst kvs)"
  shows "parse_fields E (split_on (CHR '';'') (render_fields kvs)) [] = Inr kvs"
  using split_render [OF assms(1,2)] parse_fields_all [OF assms(1), of _ "[]" E] assms(3) by auto

section \<open>What is accepted\<close>

lemma subject_of_Inr:
  "subject_of E fs dm req = Inr s \<longleftrightarrow>
     (case map_of fs ''d'' of
        Some dv \<Rightarrow> NormalizeDomain E dv = Inr s \<and> (dm = [] \<or> s = dm)
      | None \<Rightarrow> \<not> req \<and> s = dm)"
  by (auto simp: subject_of_def result_simps split: option.splits)

lemma delegate_of_Inr:
  "delegate_of E fs sub = Inr a \<longleftrightarrow>
     (case map_of fs ''a'' of
        Some av \<Rightarrow> \<exists>na. NormalizeDomain E av = Inr na \<and> a = (if na \<noteq> sub then na else [])
      | None \<Rightarrow> a = [])"
  by (auto simp: delegate_of_def result_simps split: option.splits)

lemma decodeID_Inr: "decodeID s = Inr b \<longleftrightarrow> length b = 32 \<and> s = encodeID b"
  by (simp add: decodeID_def encodeID_def DecodeID_Inr)

lemma digest_of_Inr:
  "digest_of fs k = Inr b \<longleftrightarrow>
     (case map_of fs k of Some v \<Rightarrow> \<exists>x. b = Some x \<and> length x = 32 \<and> v = encodeID x | None \<Rightarrow> b = None)"
  by (auto simp: digest_of_def result_simps decodeID_Inr split: option.splits)

lemma parseParams_Inr:
  "parseParams E s dm req = Inr ad \<longleftrightarrow>
     (\<exists>fs subject authority fp id.
        parse_fields E (split_on (CHR '';'') s) [] = Inr fs
        \<and> map_of fs ''v'' = Some Version \<and> map_of fs ''mode'' = Some Mode
        \<and> subject_of E fs dm req = Inr subject \<and> delegate_of E fs subject = Inr authority
        \<and> (\<forall>k \<in> set forbidden_fields. map_of fs k = None)
        \<and> digest_of fs ''fp'' = Inr fp \<and> digest_of fs ''id'' = Inr id \<and> \<not> (id = None \<and> fp = None)
        \<and> ad = \<lparr>ad_version = Version, ad_domain = subject, ad_authority = authority,
                   ad_manifest_id = opt_bytes id, ad_has_id = (id \<noteq> None),
                   ad_fingerprint = opt_bytes fp, ad_has_fp = (fp \<noteq> None), ad_mode = Mode\<rparr>)"
  unfolding parseParams_def
  by (auto simp: result_simps list_ex_iff Let_def)

text \<open>An accepted advertisement names normalized domains only, a delegate that is not the
  subject, and at least one full-length digest.\<close>

definition advertisement_ok :: "externs \<Rightarrow> advertisement \<Rightarrow> bool" where
  "advertisement_ok E ad \<longleftrightarrow>
     ad_version ad = Version \<and> ad_mode ad = Mode \<and> canonical_domain E (ad_domain ad)
     \<and> (ad_authority ad = [] \<or> canonical_domain E (ad_authority ad) \<and> ad_authority ad \<noteq> ad_domain ad)
     \<and> (ad_has_id ad \<or> ad_has_fp ad)
     \<and> length (ad_manifest_id ad) = 32 \<and> length (ad_fingerprint ad) = 32"

lemma length_opt_bytes: "digest_of fs k = Inr b \<Longrightarrow> length (opt_bytes b) = 32"
  by (auto simp: digest_of_Inr opt_bytes_def split: option.splits)

lemma parseParams_ok:
  assumes "idna_ldh E" and "parseParams E s dm req = Inr ad"
    and "req \<and> dm = [] \<or> canonical_domain E dm"
  shows "advertisement_ok E ad"
proof -
  from assms(2) obtain fs subject authority fp id where
    s: "subject_of E fs dm req = Inr subject" and d: "delegate_of E fs subject = Inr authority"
    and g: "digest_of fs ''fp'' = Inr fp" "digest_of fs ''id'' = Inr id" "\<not> (id = None \<and> fp = None)"
    and ad: "ad = \<lparr>ad_version = Version, ad_domain = subject, ad_authority = authority,
                   ad_manifest_id = opt_bytes id, ad_has_id = (id \<noteq> None),
                   ad_fingerprint = opt_bytes fp, ad_has_fp = (fp \<noteq> None), ad_mode = Mode\<rparr>"
    by (auto simp: parseParams_Inr)
  have "canonical_domain E subject"
    using s assms(1,3) by (auto simp: subject_of_Inr canonical_normalized split: option.splits)
  moreover have "authority = [] \<or> canonical_domain E authority \<and> authority \<noteq> subject"
    using d assms(1) by (auto simp: delegate_of_Inr canonical_normalized split: option.splits if_splits)
  ultimately show ?thesis
    using g by (auto simp: ad advertisement_ok_def length_opt_bytes)
qed

lemma ParseHeader_ok:
  "idna_ldh E \<Longrightarrow> ParseHeader E h = Inr ad \<Longrightarrow> advertisement_ok E ad"
  by (auto simp: ParseHeader_def result_simps intro: parseParams_ok)

lemma parseParams_domain:
  "parseParams E s dm req = Inr ad \<Longrightarrow> dm \<noteq> [] \<Longrightarrow> ad_domain ad = dm"
  by (auto simp: parseParams_Inr subject_of_Inr split: option.splits)

lemma parse_records_spec:
  "parse_records E d rs = (ads, skipped) \<Longrightarrow>
     length ads + length skipped = length rs
     \<and> (\<forall>ad \<in> set ads. \<exists>r \<in> set rs. length r \<le> maxTXTLen \<and> parseParams E r d False = Inr ad)"
  by (induction rs arbitrary: ads skipped)
    (fastforce split: prod.splits if_splits sum.splits simp: not_less)+

section \<open>Round trips\<close>

text \<open>The authority a formatted advertisement names: none when it would point at the subject.\<close>

definition collapse :: "string \<Rightarrow> string \<Rightarrow> string" where
  "collapse d a = (if a \<noteq> d then a else [])"

definition ad_fields :: "(string \<times> string) list \<Rightarrow> string \<Rightarrow> (string \<times> string) list" where
  "ad_fields kvs a =
     (''v'', Version) # kvs @ (if a = [] then [] else [(''a'', a)]) @ [(''mode'', Mode)]"

lemma render_fields_app:
  "kvs \<noteq> [] \<Longrightarrow> ks \<noteq> [] \<Longrightarrow> render_fields (kvs @ ks) = render_fields kvs @ ''; '' @ render_fields ks"
  by (induction kvs rule: render_fields.induct) (auto simp: neq_Nil_conv)

lemma norm_field: "list_all norm_char a \<Longrightarrow> list_all field_char a"
  using normalized_not_special(5) [of a]
  by (auto simp: list_all_iff field_char_def norm_char_plain)

lemma sextet_field:
  assumes "n < 64"
  shows "field_char (sextet_char URL_Alphabet n)"
proof -
  have "sextet_val URL_Alphabet c = Some n \<Longrightarrow> field_char c" for c
    by (auto simp: sextet_val_def field_char_def plain_char_def is_ascii_char_def space1_def
        is_upper_def is_lower_def is_digit_def split: if_splits)
  then show ?thesis using assms by simp
qed

lemma encodeID_field: "list_all field_char (encodeID b)"
  by (auto simp: encodeID_def EncodeID_def list_all_iff sextet_field dest!: encode_b64_chars)

lemma fixed_fields [simp]:
  "list_all field_char Version" "list_all field_char Mode"
  by (simp_all add: Version_def Mode_def field_char_def plain_char_def is_ascii_char_def space1_def)

lemma FormatHeader_Inr:
  assumes "FormatHeader E domain i authority = Inr s"
  obtains d a where "NormalizeDomain E domain = Inr d"
    and "authority = [] \<and> a = [] \<or> authority \<noteq> [] \<and> NormalizeDomain E authority = Inr a"
    and "s = render_fields (ad_fields [(''d'', d), (''id'', encodeID i)] (collapse d a))"
proof -
  from assms obtain d where d: "NormalizeDomain E domain = Inr d"
    by (auto simp: FormatHeader_def result_simps)
  show ?thesis
  proof (cases "authority = []")
    case True
    with assms d show ?thesis
      by (intro that [of d "[]"])
        (auto simp: FormatHeader_def ad_fields_def collapse_def render_field_def)
  next
    case False
    with assms d obtain a where a: "NormalizeDomain E authority = Inr a"
      by (auto simp: FormatHeader_def result_simps Let_def)
    have "a \<noteq> []" using NormalizeDomain_Inr(1) [OF a] by auto
    with False assms d a show ?thesis
      by (intro that [of d a])
        (auto simp: FormatHeader_def ad_fields_def collapse_def render_field_def Let_def)
  qed
qed

text \<open>Reading back the fields a formatter wrote.\<close>

lemma parse_ad_fields:
  assumes p: "parse_fields E (split_on (CHR '';'') s) [] = Inr (ad_fields kvs a)"
    and d: "subject_of E (ad_fields kvs a) dm req = Inr d"
    and aa: "a = [] \<or> NormalizeDomain E a = Inr a" and k: "set (map fst kvs) \<subseteq> {''d'', ''id'', ''fp''}"
    and fp: "digest_of kvs ''fp'' = Inr fp" and i: "digest_of kvs ''id'' = Inr i"
    and some: "\<not> (i = None \<and> fp = None)"
  shows "parseParams E s dm req = Inr \<lparr>ad_version = Version, ad_domain = d,
           ad_authority = collapse d a, ad_manifest_id = opt_bytes i, ad_has_id = (i \<noteq> None),
           ad_fingerprint = opt_bytes fp, ad_has_fp = (fp \<noteq> None), ad_mode = Mode\<rparr>"
proof -
  let ?fs = "ad_fields kvs a"
  have none: "k' \<notin> {''d'', ''id'', ''fp''} \<Longrightarrow> map_of kvs k' = None" for k'
    unfolding map_of_eq_None_iff using k by (simp only: set_map) (rule contra_subsetD)
  have "map_of ?fs ''v'' = Some Version" by (simp add: ad_fields_def)
  moreover have "map_of ?fs ''mode'' = Some Mode"
    by (simp add: ad_fields_def map_add_def none)
  moreover have "delegate_of E ?fs d = Inr (collapse d a)"
    using aa by (auto simp: delegate_of_Inr ad_fields_def map_add_def none collapse_def)
  moreover have "\<forall>k \<in> set forbidden_fields. map_of ?fs k = None"
    by (simp add: forbidden_fields_def ad_fields_def map_add_def none)
  moreover have "digest_of ?fs ''fp'' = Inr fp" "digest_of ?fs ''id'' = Inr i"
  proof -
    have "map_of ?fs ''fp'' = map_of kvs ''fp''" "map_of ?fs ''id'' = map_of kvs ''id''"
      by (simp_all add: ad_fields_def map_add_def split: option.split)
    then show "digest_of ?fs ''fp'' = Inr fp" "digest_of ?fs ''id'' = Inr i"
      using fp i by (simp_all add: digest_of_def)
  qed
  ultimately show ?thesis using p d some unfolding parseParams_Inr by blast
qed

lemma ParseHeader_FormatHeader:
  assumes idna: "idna_ldh E" and i: "length i = 32"
    and f: "FormatHeader E domain i authority = Inr s" and len: "length s \<le> MaxHeaderLen"
  obtains d a where "NormalizeDomain E domain = Inr d"
    and "authority = [] \<and> a = [] \<or> authority \<noteq> [] \<and> NormalizeDomain E authority = Inr a"
    and "ParseHeader E s = Inr \<lparr>ad_version = Version, ad_domain = d, ad_authority = collapse d a,
           ad_manifest_id = i, ad_has_id = True, ad_fingerprint = zero32, ad_has_fp = False,
           ad_mode = Mode\<rparr>"
proof -
  from FormatHeader_Inr [OF f] obtain d a where
    d: "NormalizeDomain E domain = Inr d"
    and a: "authority = [] \<and> a = [] \<or> authority \<noteq> [] \<and> NormalizeDomain E authority = Inr a"
    and s: "s = render_fields (ad_fields [(''d'', d), (''id'', encodeID i)] (collapse d a))" .
  let ?fs = "ad_fields [(''d'', d), (''id'', encodeID i)] (collapse d a)"
  have dd: "NormalizeDomain E d = Inr d" using idna d by (rule normalize_idempotent)
  have aa: "a = [] \<or> NormalizeDomain E a = Inr a" using a idna by (auto intro: normalize_idempotent)
  have "list_all field_char d" "list_all field_char a"
    using a normalized_shape(1) [OF idna] d by (auto intro: norm_field)
  then have "list_all field_ok ?fs"
    by (auto simp: ad_fields_def collapse_def field_ok_def encodeID_field is_lower_def)
  then have p: "parse_fields E (split_on (CHR '';'') s) [] = Inr ?fs"
    unfolding s by (rule parse_rendered) (auto simp: ad_fields_def)
  have "collapse d a = [] \<or> NormalizeDomain E (collapse d a) = Inr (collapse d a)"
    using aa by (simp add: collapse_def)
  moreover have "subject_of E ?fs [] True = Inr d"
    using dd by (simp add: subject_of_Inr ad_fields_def)
  ultimately have "ParseHeader E s = Inr \<lparr>ad_version = Version, ad_domain = d,
           ad_authority = collapse d (collapse d a),
           ad_manifest_id = opt_bytes (Some i), ad_has_id = True, ad_fingerprint = opt_bytes None,
           ad_has_fp = False, ad_mode = Mode\<rparr>"
    using parse_ad_fields [OF p, of "[]" True d None "Some i"] len i
    by (simp add: ParseHeader_def digest_of_Inr)
  then have "ParseHeader E s = Inr \<lparr>ad_version = Version, ad_domain = d, ad_authority = collapse d a,
           ad_manifest_id = i, ad_has_id = True, ad_fingerprint = zero32, ad_has_fp = False,
           ad_mode = Mode\<rparr>"
    by (simp add: opt_bytes_def collapse_def split: if_splits)
  with d a show ?thesis by (rule that)
qed

lemma length_render: "length (render_field kv) = length (fst kv) + 1 + length (snd kv)"
  by (simp add: render_field_def)

lemma encodeID_length: "length b = 32 \<Longrightarrow> length (encodeID b) = 43"
  by (simp add: encodeID_def EncodeID_def length_encode_b64_32)

text \<open>Without a delegate the header always fits the parser's bound.\<close>

lemma FormatHeader_fits:
  assumes idna: "idna_ldh E" and i: "length i = 32" and f: "FormatHeader E domain i [] = Inr s"
  shows "length s \<le> MaxHeaderLen"
proof -
  from FormatHeader_Inr [OF f] obtain d where
    d: "NormalizeDomain E domain = Inr d"
    and s: "s = render_fields (ad_fields [(''d'', d), (''id'', encodeID i)] [])"
    by (auto simp: collapse_def split: if_splits)
  show ?thesis
    using normalized_shape(2) [OF idna d] i
    by (simp add: s ad_fields_def length_render encodeID_length MaxHeaderLen_def Version_def Mode_def)
qed

definition dns_authority :: "externs \<Rightarrow> string \<Rightarrow> string" where
  "dns_authority E authority =
     (if authority = [] then [] else case NormalizeDomain E authority of Inr a \<Rightarrow> a | Inl _ \<Rightarrow> [])"

lemma FormatDNS_fields:
  "FormatDNS E fp hasFP i authority
     = render_fields (ad_fields [if hasFP then (''fp'', encodeID fp) else (''id'', encodeID i)]
         (dns_authority E authority))"
  using NormalizeDomain_Inr(1) [of E authority]
  by (auto simp: FormatDNS_def ad_fields_def dns_authority_def render_field_def Let_def encodeID_def
      split: sum.splits)

lemma ParseDNS_FormatDNS:
  assumes idna: "idna_ldh E" and i: "length i = 32" and fp: "length fp = 32"
    and d: "NormalizeDomain E domain = Inr d"
  shows "ParseDNS E domain [FormatDNS E fp hasFP i authority] =
    Inr ([\<lparr>ad_version = Version, ad_domain = d,
           ad_authority = collapse d (dns_authority E authority),
           ad_manifest_id = (if hasFP then zero32 else i), ad_has_id = (\<not> hasFP),
           ad_fingerprint = (if hasFP then fp else zero32), ad_has_fp = hasFP,
           ad_mode = Mode\<rparr>], [])"
proof -
  let ?a = "dns_authority E authority"
  let ?kv = "if hasFP then (''fp'', encodeID fp) else (''id'', encodeID i)"
  let ?s = "FormatDNS E fp hasFP i authority"
  let ?ad = "\<lparr>ad_version = Version, ad_domain = d, ad_authority = collapse d ?a,
           ad_manifest_id = (if hasFP then zero32 else i), ad_has_id = (\<not> hasFP),
           ad_fingerprint = (if hasFP then fp else zero32), ad_has_fp = hasFP, ad_mode = Mode\<rparr>"
  have aa: "?a = [] \<or> NormalizeDomain E ?a = Inr ?a"
    using idna by (auto simp: dns_authority_def intro: normalize_idempotent split: sum.splits)
  then have len: "length ?a \<le> 254" and ch: "list_all field_char ?a"
    using normalized_shape(1,2) [OF idna] by (auto intro: norm_field)
  have "length ?s \<le> maxTXTLen"
    using len i fp
    by (simp add: FormatDNS_fields ad_fields_def length_render encodeID_length maxTXTLen_def
        Version_def Mode_def)
  moreover have "list_all field_ok (ad_fields [?kv] ?a)"
    using ch by (auto simp: ad_fields_def field_ok_def encodeID_field is_lower_def)
  then have p: "parse_fields E (split_on (CHR '';'') ?s) [] = Inr (ad_fields [?kv] ?a)"
    unfolding FormatDNS_fields by (rule parse_rendered) (auto simp: ad_fields_def)
  have sub: "subject_of E (ad_fields [?kv] ?a) d False = Inr d"
    by (simp add: subject_of_Inr ad_fields_def)
  have "parseParams E ?s d False = Inr ?ad"
  proof (cases hasFP)
    case True
    then show ?thesis
      using parse_ad_fields [OF p sub aa, of "Some fp" None] fp by (simp add: digest_of_Inr opt_bytes_def)
  next
    case False
    then show ?thesis
      using parse_ad_fields [OF p sub aa, of None "Some i"] i by (simp add: digest_of_Inr opt_bytes_def)
  qed
  ultimately show ?thesis by (simp add: ParseDNS_def d)
qed

end
