(* ===== verification/Identity.thy ===== *)
theory Identity
  imports Discovery
begin

text \<open>
  \<^verbatim>\<open>identity/identity.go\<close>, \<^verbatim>\<open>identity/proof.go\<close> and \<^verbatim>\<open>identity/selfcheck.go\<close>: the identity
  fingerprint, the detached proof over a manifest's bytes, the three header fields that
  carry it, and the operator's four-way comparison.  A private key is its 64 bytes, the
  public half last.
\<close>

definition FingerprintType :: string where "FingerprintType = ''mailkey-domain-identity-v1''"
definition Alg :: string where "Alg = ''ed25519''"
definition ManifestContext :: string where "ManifestContext = ''mailkey/mkdp/manifest-signature/v1''"
definition PublicKeySize :: nat where "PublicKeySize = 32"
definition PrivateKeySize :: nat where "PrivateKeySize = 64"
definition SignatureSize :: nat where "SignatureSize = 64"

definition ed_public :: "bytes \<Rightarrow> bytes" where
  "ed_public priv = drop 32 priv"

section \<open>Fingerprints and signatures\<close>

definition fingerprint_preimage :: "string \<Rightarrow> bytes \<Rightarrow> gvalue" where
  "fingerprint_preimage d pk =
     sorted_map_of [(''type'', VUtf8 FingerprintType), (''domain'', VUtf8 d), (''alg'', VUtf8 Alg),
                    (''pk'', VRaw pk)]"

definition FingerprintOf :: "externs \<Rightarrow> string \<Rightarrow> bytes \<Rightarrow> gerr + bytes" where
  "FingerprintOf E domain pk =
     try_bind (wrap_err ''identity fingerprint: %w'' (NormalizeDomain E domain)) (\<lambda>d.
     if length pk \<noteq> PublicKeySize
       then Inl (Msg ''identity fingerprint: public key is %d bytes, want %d'')
     else
       try_bind (opt_err (Wrapped ''identity fingerprint: %w'' (Msg ''pack''))
                   (ex_pack E (fingerprint_preimage d pk))) (\<lambda>raw.
       Inr (ex_sha256 E raw)))"

definition transcript :: "externs \<Rightarrow> string \<Rightarrow> bytes \<Rightarrow> gerr + bytes" where
  "transcript E domain rawManifest =
     try_bind (wrap_err ''identity transcript: %w'' (NormalizeDomain E domain)) (\<lambda>d.
       Inr (ManifestContext @ d @ rawManifest))"

definition SignManifest :: "externs \<Rightarrow> bytes \<Rightarrow> string \<Rightarrow> bytes \<Rightarrow> gerr + bytes" where
  "SignManifest E priv domain rawManifest =
     (if length priv \<noteq> PrivateKeySize then Inl (Msg ''sign manifest: private key is %d bytes, want %d'')
      else if length rawManifest = 0 then Inl (Msg ''sign manifest: no manifest bytes'')
      else try_bind (transcript E domain rawManifest) (\<lambda>msg. Inr (ex_ed_sign E priv msg)))"

definition VerifyManifest :: "externs \<Rightarrow> bytes \<Rightarrow> string \<Rightarrow> bytes \<Rightarrow> bytes \<Rightarrow> gerr + unit" where
  "VerifyManifest E pk domain rawManifest sig =
     (if length pk \<noteq> PublicKeySize then Inl (Msg ''verify manifest: public key is %d bytes, want %d'')
      else if length sig \<noteq> SignatureSize then Inl (Msg ''verify manifest: signature is %d bytes, want %d'')
      else try_bind (transcript E domain rawManifest) (\<lambda>msg.
        if \<not> ex_ed_verify E pk msg sig
        then Inl (Msg ''verify manifest: signature does not verify for %s'')
        else Inr ()))"

section \<open>The detached proof\<close>

definition identityPrefix :: string where "identityPrefix = Alg @ '':''"

definition Check :: "externs \<Rightarrow> id_proof option \<Rightarrow> string \<Rightarrow> bytes \<Rightarrow> gerr + unit" where
  "Check E pf domain rawManifest =
     (case pf of
        None \<Rightarrow> Inl (Msg ''proof: absent'')
      | Some p \<Rightarrow>
          try_bind (FingerprintOf E domain (pf_public_key p)) (\<lambda>fp.
            if fp \<noteq> pf_fingerprint p
            then Inl (Msg ''proof: the signer fingerprint is not the one this public key produces for %s'')
            else VerifyManifest E (pf_public_key p) domain rawManifest (pf_signature p)))"

text \<open>Header fields by canonical name; the three names read here are canonical.\<close>

type_synonym http_header = "string \<Rightarrow> string list"

definition header_set :: "http_header \<Rightarrow> string \<Rightarrow> string \<Rightarrow> http_header" where
  "header_set h name v = h(name := [v])"

definition WriteProof :: "http_header \<Rightarrow> id_proof option \<Rightarrow> http_header" where
  "WriteProof h pf =
     (case pf of
        None \<Rightarrow> h
      | Some p \<Rightarrow>
          header_set
            (header_set
              (header_set h HeaderIdentity (identityPrefix @ encode_b64 (pf_public_key p)))
              HeaderSigner (EncodeID (pf_fingerprint p)))
            HeaderSignature (encode_b64 (pf_signature p)))"

definition decodeExact :: "string \<Rightarrow> nat \<Rightarrow> gerr + bytes" where
  "decodeExact s want =
     try_bind (opt_err (Wrapped ''base64url: %w'' (Msg ''base64'')) (decode_b64 s)) (\<lambda>b.
       if length b \<noteq> want then Inl (Msg ''must be %d bytes, got %d'')
       else if encode_b64 b \<noteq> s then Inl (Msg ''%q is not the canonical spelling of its bytes'')
       else Inr b)"

definition field :: "http_header \<Rightarrow> string \<Rightarrow> string \<times> nat" where
  "field h name = (case h name of [] \<Rightarrow> ([], 0) | v # vs \<Rightarrow> (v, length (v # vs)))"

definition ReadProof :: "http_header \<Rightarrow> gerr + id_proof option" where
  "ReadProof h =
     (let (idv, idn) = field h HeaderIdentity;
          (fpv, fpn) = field h HeaderSigner;
          (sgv, sgn) = field h HeaderSignature
      in
        if idn = 0 \<and> fpn = 0 \<and> sgn = 0 then Inr None
        else if idn > 1 \<or> fpn > 1 \<or> sgn > 1 then Inl (Msg ''proof: a field appears more than once'')
        else if idn = 0 \<or> fpn = 0 \<or> sgn = 0
          then Inl (Msg ''proof: incomplete: all three fields are required together'')
        else if length idv \<le> length identityPrefix \<or> take (length identityPrefix) idv \<noteq> identityPrefix
          then Inl (Msg ''proof: identity must be %q-prefixed'')
        else
          try_bind (wrap_err ''proof: identity key: %w''
                      (decodeExact (drop (length identityPrefix) idv) PublicKeySize)) (\<lambda>pk.
          try_bind (wrap_err ''proof: signer: %w'' (decodeExact fpv 32)) (\<lambda>fp.
          try_bind (wrap_err ''proof: signature: %w'' (decodeExact sgv SignatureSize)) (\<lambda>sig.
            Inr (Some \<lparr>pf_public_key = pk, pf_fingerprint = fp, pf_signature = sig\<rparr>)))))"

section \<open>Self-check\<close>

record self_check_input =
  sc_configured :: bytes
  sc_served :: bytes
  sc_external :: bytes
  sc_dns :: bytes
  sc_has_dns :: bool
  sc_dnssec_validated :: bool

datatype self_check_finding =
  SelfCheckNotServing | SelfCheckServedMismatch | SelfCheckExternalMismatch
| SelfCheckExternalUnreachable | SelfCheckDNSMismatch | SelfCheckDNSAbsent
| SelfCheckDNSSECUnvalidated

fun Blocking :: "self_check_finding \<Rightarrow> bool" where
  "Blocking SelfCheckNotServing = True"
| "Blocking SelfCheckServedMismatch = True"
| "Blocking SelfCheckExternalMismatch = True"
| "Blocking SelfCheckExternalUnreachable = True"
| "Blocking _ = False"

record self_check_result =
  sr_findings :: "self_check_finding list"
  sr_ok :: bool

definition Blocked :: "self_check_finding list \<Rightarrow> bool" where
  "Blocked fs = list_ex Blocking fs"

definition SelfCheck :: "self_check_input \<Rightarrow> self_check_result" where
  "SelfCheck i =
     (let served =
            (if sc_served i = zero32 then [SelfCheckNotServing]
             else if sc_configured i \<noteq> zero32 \<and> sc_configured i \<noteq> sc_served i
             then [SelfCheckServedMismatch] else []);
          external =
            (if sc_external i = zero32 then [SelfCheckExternalUnreachable]
             else if sc_served i \<noteq> zero32 \<and> sc_external i \<noteq> sc_served i
             then [SelfCheckExternalMismatch] else []);
          dns =
            (if \<not> sc_has_dns i \<or> sc_dns i = zero32 then [SelfCheckDNSAbsent]
             else if sc_served i \<noteq> zero32 \<and> sc_dns i \<noteq> sc_served i then [SelfCheckDNSMismatch]
             else if \<not> sc_dnssec_validated i then [SelfCheckDNSSECUnvalidated] else []);
          findings = served @ external @ dns
      in \<lparr>sr_findings = findings, sr_ok = \<not> Blocked findings\<rparr>)"

section \<open>Case analysis\<close>

lemma FingerprintOf_Inr:
  "FingerprintOf E domain pk = Inr fp \<longleftrightarrow>
     length pk = PublicKeySize
     \<and> (\<exists>d raw. NormalizeDomain E domain = Inr d \<and> ex_pack E (fingerprint_preimage d pk) = Some raw
          \<and> fp = ex_sha256 E raw)"
  by (auto simp: FingerprintOf_def result_simps)

lemma transcript_Inr:
  "transcript E domain raw = Inr msg \<longleftrightarrow>
     (\<exists>d. NormalizeDomain E domain = Inr d \<and> msg = ManifestContext @ d @ raw)"
  by (auto simp: transcript_def result_simps)

lemma SignManifest_Inr:
  "SignManifest E priv domain raw = Inr sig \<longleftrightarrow>
     length priv = PrivateKeySize \<and> raw \<noteq> []
     \<and> (\<exists>msg. transcript E domain raw = Inr msg \<and> sig = ex_ed_sign E priv msg)"
  by (auto simp: SignManifest_def result_simps)

lemma VerifyManifest_Inr:
  "VerifyManifest E pk domain raw sig = Inr () \<longleftrightarrow>
     length pk = PublicKeySize \<and> length sig = SignatureSize
     \<and> (\<exists>msg. transcript E domain raw = Inr msg \<and> ex_ed_verify E pk msg sig)"
  by (auto simp: VerifyManifest_def result_simps)

lemma Check_Inr:
  "Check E pf domain raw = Inr () \<longleftrightarrow>
     (\<exists>p. pf = Some p \<and> FingerprintOf E domain (pf_public_key p) = Inr (pf_fingerprint p)
        \<and> VerifyManifest E (pf_public_key p) domain raw (pf_signature p) = Inr ())"
  by (auto simp: Check_def result_simps split: option.splits)

lemma decodeExact_Inr: "decodeExact s n = Inr b \<longleftrightarrow> length b = n \<and> s = encode_b64 b"
  by (auto simp: decodeExact_def result_simps)

section \<open>Laws of the signature scheme\<close>

definition ed_law :: "externs \<Rightarrow> bool" where
  "ed_law E \<longleftrightarrow> (\<forall>priv msg. length priv = PrivateKeySize \<longrightarrow>
     length (ex_ed_sign E priv msg) = SignatureSize
     \<and> ex_ed_verify E (ed_public priv) msg (ex_ed_sign E priv msg))"

lemma ed_public_length: "length priv = PrivateKeySize \<Longrightarrow> length (ed_public priv) = PublicKeySize"
  by (simp add: ed_public_def PrivateKeySize_def PublicKeySize_def)

lemma Verify_Sign:
  "ed_law E \<Longrightarrow> SignManifest E priv domain raw = Inr sig
     \<Longrightarrow> VerifyManifest E (ed_public priv) domain raw sig = Inr ()"
  by (auto simp: SignManifest_Inr VerifyManifest_Inr ed_law_def ed_public_length)

text \<open>A publisher's own proof passes the check.\<close>

lemma Check_Sign:
  assumes "ed_law E" and "SignManifest E priv domain raw = Inr sig"
    and "FingerprintOf E domain (ed_public priv) = Inr fp"
  shows "Check E (Some \<lparr>pf_public_key = ed_public priv, pf_fingerprint = fp, pf_signature = sig\<rparr>)
           domain raw = Inr ()"
  using assms by (simp add: Check_Inr Verify_Sign)

section \<open>Domain separation\<close>

text \<open>
  The transcript has no separator between the domain and the manifest.  The manifest starts
  with a MessagePack map byte, which no domain contains, and that is what separates them.
\<close>

definition starts_binary :: "bytes \<Rightarrow> bool" where
  "starts_binary raw \<longleftrightarrow> (case raw of [] \<Rightarrow> False | c # _ \<Rightarrow> \<not> norm_char c)"

lemma norm_prefix_unique:
  assumes "list_all norm_char d" and "list_all norm_char d'"
    and "starts_binary r" and "starts_binary r'" and "d @ r = d' @ r'"
  shows "d = d' \<and> r = r'"
  using assms
proof (induction d arbitrary: d')
  case Nil
  then show ?case by (cases d') (auto simp: starts_binary_def)
next
  case (Cons c d)
  show ?case
  proof (cases d')
    case Nil
    with Cons.prems(5) have "r' = c # d @ r" by simp
    with Cons.prems(1,4) show ?thesis by (simp add: starts_binary_def)
  next
    case (Cons c' e)
    with Cons.prems Cons.IH [of e] show ?thesis by simp
  qed
qed

lemma transcript_inject:
  assumes "idna_ldh E" and "transcript E x r = Inr msg" and "transcript E x' r' = Inr msg"
    and "starts_binary r" and "starts_binary r'"
  shows "NormalizeDomain E x = NormalizeDomain E x' \<and> r = r'"
proof -
  from assms(2,3) obtain d d' where
    d: "NormalizeDomain E x = Inr d" and d': "NormalizeDomain E x' = Inr d'"
    and "ManifestContext @ d @ r = ManifestContext @ d' @ r'" by (auto simp: transcript_Inr)
  then have eq: "d @ r = d' @ r'" by simp
  have "d = d' \<and> r = r'"
    by (rule norm_prefix_unique [OF normalized_shape(1) [OF assms(1) d]
          normalized_shape(1) [OF assms(1) d'] assms(4,5) eq])
  then show ?thesis using d d' by simp
qed

text \<open>A fingerprint names one key of one domain.\<close>

lemma fingerprint_preimage_inject:
  "fingerprint_preimage d pk = fingerprint_preimage d' pk' \<longleftrightarrow> d = d' \<and> pk = pk'"
proof
  assume "fingerprint_preimage d pk = fingerprint_preimage d' pk'"
  then have "map_of [(''type'', VUtf8 FingerprintType), (''domain'', VUtf8 d), (''alg'', VUtf8 Alg),
                    (''pk'', VRaw pk)]
     = map_of [(''type'', VUtf8 FingerprintType), (''domain'', VUtf8 d'), (''alg'', VUtf8 Alg),
                    (''pk'', VRaw pk')]" (is "?l = ?r")
    unfolding fingerprint_preimage_def by (rule sorted_map_inject) simp_all
  then have "?l k = ?r k" for k by (rule fun_cong)
  from this [of "''domain''"] this [of "''pk''"] show "d = d' \<and> pk = pk'" by simp
qed simp

lemma fingerprint_binds:
  assumes "FingerprintOf E x pk = Inr fp" and "FingerprintOf E x' pk' = Inr fp"
    and "\<And>d k. codec_law E (fingerprint_preimage d k)"
  shows "NormalizeDomain E x = NormalizeDomain E x' \<and> pk = pk' \<or> (\<exists>d r d' r'. ex_pack E (fingerprint_preimage d pk) = Some r
          \<and> ex_pack E (fingerprint_preimage d' pk') = Some r' \<and> collision E r r')"
proof -
  from assms(1,2) obtain d r d' r' where
    d: "NormalizeDomain E x = Inr d" "ex_pack E (fingerprint_preimage d pk) = Some r" "fp = ex_sha256 E r"
    and d': "NormalizeDomain E x' = Inr d'" "ex_pack E (fingerprint_preimage d' pk') = Some r'"
      "fp = ex_sha256 E r'" by (auto simp: FingerprintOf_Inr)
  show ?thesis
  proof (cases "r = r'")
    case True
    then have "fingerprint_preimage d pk = fingerprint_preimage d' pk'"
      using d(2) d'(2) assms(3) by (blast intro: codec_inject)
    then show ?thesis using d(1) d'(1) by (simp add: fingerprint_preimage_inject)
  next
    case False
    then have "collision E r r'" using d(3) d'(3) by (simp add: collision_def)
    with d(2) d'(2) show ?thesis by blast
  qed
qed

section \<open>The proof's header fields\<close>

lemma header_names_distinct [simp]:
  "HeaderIdentity \<noteq> HeaderSigner" "HeaderIdentity \<noteq> HeaderSignature" "HeaderSigner \<noteq> HeaderSignature"
  "HeaderSigner \<noteq> HeaderIdentity" "HeaderSignature \<noteq> HeaderIdentity" "HeaderSignature \<noteq> HeaderSigner"
  by (simp_all add: HeaderIdentity_def HeaderSigner_def HeaderSignature_def)

definition proof_sized :: "id_proof \<Rightarrow> bool" where
  "proof_sized p \<longleftrightarrow> length (pf_public_key p) = PublicKeySize \<and> length (pf_fingerprint p) = 32
     \<and> length (pf_signature p) = SignatureSize"

lemma prefix_split:
  "(\<not> length s \<le> length p \<and> take (length p) s = p) \<longleftrightarrow> (\<exists>t. s = p @ t \<and> t \<noteq> [])"
proof
  assume "\<not> length s \<le> length p \<and> take (length p) s = p"
  then have "s = p @ drop (length p) s" "drop (length p) s \<noteq> []"
    using append_take_drop_id [of "length p" s] by simp_all
  then show "\<exists>t. s = p @ t \<and> t \<noteq> []" by blast
qed auto

lemma ReadProof_None: "ReadProof h = Inr None \<longleftrightarrow> h HeaderIdentity = [] \<and> h HeaderSigner = [] \<and> h HeaderSignature = []"
  by (auto simp: ReadProof_def field_def result_simps Let_def split: list.splits prod.splits)

lemma encode_b64_Nil [simp]: "encode_b64 b = [] \<longleftrightarrow> b = []"
proof -
  have "encode_b64 [] = []" by (simp add: encode_b64_def)
  then show ?thesis using encode_b64_inject [of b "[]"] by simp
qed

text \<open>A proof is read exactly when each field is present once, in its one spelling.\<close>

lemma ReadProof_Some:
  "ReadProof h = Inr (Some p) \<longleftrightarrow>
     h HeaderIdentity = [identityPrefix @ encode_b64 (pf_public_key p)]
     \<and> h HeaderSigner = [encode_b64 (pf_fingerprint p)]
     \<and> h HeaderSignature = [encode_b64 (pf_signature p)] \<and> proof_sized p"
  (is "?l \<longleftrightarrow> ?r")
proof
  assume ?l
  then obtain idv fpv sgv pk fp sig where
    h: "h HeaderIdentity = [idv]" "h HeaderSigner = [fpv]" "h HeaderSignature = [sgv]"
    and pre: "\<not> length idv \<le> length identityPrefix \<and> take (length identityPrefix) idv = identityPrefix"
    and dec: "decodeExact (drop (length identityPrefix) idv) PublicKeySize = Inr pk"
      "decodeExact fpv 32 = Inr fp" "decodeExact sgv SignatureSize = Inr sig"
    and p: "p = \<lparr>pf_public_key = pk, pf_fingerprint = fp, pf_signature = sig\<rparr>"
    by (auto simp: ReadProof_def field_def result_simps Let_def split: list.splits prod.splits)
  from pre obtain t where "idv = identityPrefix @ t" unfolding prefix_split by blast
  with dec h p show ?r by (auto simp: decodeExact_Inr proof_sized_def)
next
  assume r: ?r
  then have "pf_public_key p \<noteq> []" by (auto simp: proof_sized_def PublicKeySize_def)
  then have "\<not> length (identityPrefix @ encode_b64 (pf_public_key p)) \<le> length identityPrefix"
    by simp
  moreover have "decodeExact (encode_b64 (pf_public_key p)) PublicKeySize = Inr (pf_public_key p)"
    "decodeExact (encode_b64 (pf_fingerprint p)) 32 = Inr (pf_fingerprint p)"
    "decodeExact (encode_b64 (pf_signature p)) SignatureSize = Inr (pf_signature p)"
    using r by (simp_all add: decodeExact_Inr proof_sized_def)
  ultimately show ?l using r by (simp add: ReadProof_def field_def)
qed

lemma ReadProof_WriteProof: "proof_sized p \<Longrightarrow> ReadProof (WriteProof h (Some p)) = Inr (Some p)"
  by (simp add: ReadProof_Some WriteProof_def header_set_def EncodeID_def)

section \<open>Self-check\<close>

lemma SelfCheck_ok:
  "sr_ok (SelfCheck i) \<longleftrightarrow>
     sc_served i \<noteq> zero32 \<and> sc_external i = sc_served i
     \<and> (sc_configured i = zero32 \<or> sc_configured i = sc_served i)"
  by (auto simp: SelfCheck_def Blocked_def Let_def)

end
