(* ===== verification/Http.thy ===== *)
theory Http
  imports Identity
begin

text \<open>
  The parts of \<^verbatim>\<open>net/http\<close>, \<^verbatim>\<open>mime\<close>, \<^verbatim>\<open>io\<close> and \<^verbatim>\<open>net/url\<close> the resolver and the well-known
  handler use: requests and responses as records, header access, the media type parser,
  a bounded read of a body, and a client that refuses redirects.  Header fields are keyed
  by canonical name, as in \<open>Identity\<close>.
\<close>

section \<open>Messages\<close>

record request =
  rq_method :: string
  rq_host :: string
  rq_path :: string
  rq_query :: "(string \<times> string) list"
  rq_header :: http_header

text \<open>A body yields some bytes and then ends, or breaks off with an error.\<close>

record response =
  rp_status :: int
  rp_length :: int \<comment> \<open>the declared length, -1 when there is none\<close>
  rp_header :: http_header
  rp_bytes :: bytes
  rp_broken :: "transport_kind option"

definition no_header :: http_header where
  "no_header = (\<lambda>_. [])"

text \<open>\<^verbatim>\<open>Header.Get\<close> and \<^verbatim>\<open>Values.Get\<close>: the first value, or the empty string.\<close>

definition header_get :: "http_header \<Rightarrow> string \<Rightarrow> string" where
  "header_get h k = (case h k of [] \<Rightarrow> [] | v # _ \<Rightarrow> v)"

definition query_get :: "(string \<times> string) list \<Rightarrow> string \<Rightarrow> string" where
  "query_get q k = (case map_of q k of Some v \<Rightarrow> v | None \<Rightarrow> [])"

lemma header_get_set [simp]:
  "header_get (header_set h k v) k' = (if k' = k then v else header_get h k')"
  by (simp add: header_get_def header_set_def)

lemma header_set_other [simp]: "k' \<noteq> k \<Longrightarrow> header_set h k v k' = h k'"
  by (simp add: header_set_def)

lemma header_get_none [simp]: "header_get no_header k = []"
  by (simp add: header_get_def no_header_def)

section \<open>Reading a body\<close>

text \<open>\<^verbatim>\<open>io.ReadAll(io.LimitReader(body, n))\<close>: the error is met only if the body breaks off before
  the limit is reached.\<close>

definition read_limited :: "response \<Rightarrow> nat \<Rightarrow> transport_kind + bytes" where
  "read_limited rp n =
     (if n \<le> length (rp_bytes rp) then Inr (take n (rp_bytes rp))
      else case rp_broken rp of
             Some k \<Rightarrow> Inl k
           | None \<Rightarrow> Inr (rp_bytes rp))"

lemma read_limited_Inr:
  "read_limited rp n = Inr b \<Longrightarrow> b = take n (rp_bytes rp)"
  by (auto simp: read_limited_def split: if_splits option.splits)

lemma read_limited_short:
  "read_limited rp (Suc n) = Inr b \<and> length b \<le> n \<longleftrightarrow>
     b = rp_bytes rp \<and> length b \<le> n \<and> rp_broken rp = None"
  by (auto simp: read_limited_def split: option.splits)

section \<open>Media types\<close>

text \<open>\<^verbatim>\<open>mime.isTokenChar\<close>: printable ASCII that is neither a space nor a special.\<close>

definition tspecials :: string where
  "tspecials = ''()<>@,;:'' @ [CHR 0x5C, CHR 0x22] @ ''/[]?=''"

definition token_char :: "char \<Rightarrow> bool" where
  "token_char c \<longleftrightarrow> 0x20 < char_nat c \<and> char_nat c < 0x7F \<and> c \<notin> set tspecials"

definition consumeToken :: "string \<Rightarrow> string \<times> string" where
  "consumeToken v = (takeWhile token_char v, dropWhile token_char v)"

text \<open>The inside of a quoted value; a backslash escapes only a special.\<close>

fun consume_quoted :: "string \<Rightarrow> string \<Rightarrow> (string \<times> string) option" where
  "consume_quoted acc [] = None"
| "consume_quoted acc (r # v) =
     (if r = CHR 0x22 then Some (acc, v)
      else if r = CHR 0x5C \<and> v \<noteq> [] \<and> hd v \<in> set tspecials
        then consume_quoted (acc @ [hd v]) (tl v)
      else if r = CHR 0x0D \<or> r = CHR 0x0A then None
      else consume_quoted (acc @ [r]) v)"

definition consumeValue :: "string \<Rightarrow> string \<times> string" where
  "consumeValue v =
     (case v of
        [] \<Rightarrow> ([], [])
      | c # w \<Rightarrow>
          if c \<noteq> CHR 0x22 then consumeToken v
          else (case consume_quoted [] w of Some r \<Rightarrow> r | None \<Rightarrow> ([], v)))"

text \<open>A parameter \<^verbatim>\<open>; key=value\<close>; \<open>None\<close> where the code answers an empty key.\<close>

definition consumeMediaParam :: "externs \<Rightarrow> string \<Rightarrow> (string \<times> string \<times> string) option" where
  "consumeMediaParam E v =
     (case trim_left v of
        [] \<Rightarrow> None
      | c # r0 \<Rightarrow>
          if c \<noteq> CHR '';'' then None
          else
            (case consumeToken (trim_left r0) of
               (param0, r1) \<Rightarrow>
                 let param = to_lower (ex_lower E) param0 in
                 if param = [] then None
                 else
                   (case trim_left r1 of
                      [] \<Rightarrow> None
                    | c2 # r2 \<Rightarrow>
                        if c2 \<noteq> CHR ''='' then None
                        else
                          let r3 = trim_left r2; (val, r4) = consumeValue r3 in
                          if val = [] \<and> r4 = r3 then None else Some (param, val, r4))))"

lemma length_dropWhile: "length (dropWhile P xs) \<le> length xs"
  by (induction xs) auto

lemma length_trim_left: "length (trim_left s) \<le> length s"
proof (induction s rule: trim_left.induct)
  case (1 s)
  then show ?case by (subst trim_left.simps) auto
qed

lemma consume_quoted_length: "consume_quoted acc v = Some (a, r) \<Longrightarrow> length r < length v"
proof (induction acc v rule: consume_quoted.induct)
  case (2 acc c v)
  then show ?case by (cases v) (auto split: if_splits)
qed simp

lemma consumeValue_length: "length (snd (consumeValue v)) \<le> length v"
  by (cases v)
    (auto simp: consumeValue_def consumeToken_def length_dropWhile le_SucI split: option.splits
      dest!: consume_quoted_length)

lemma consumeMediaParam_length: "consumeMediaParam E v = Some (k, x, r) \<Longrightarrow> length r < length v"
proof -
  assume p: "consumeMediaParam E v = Some (k, x, r)"
  then obtain c r0 c2 r2 where v: "trim_left v = c # r0"
    and t: "trim_left (dropWhile token_char (trim_left r0)) = c2 # r2" and r: "r = snd (consumeValue (trim_left r2))"
    by (auto simp: consumeMediaParam_def consumeToken_def Let_def split: list.splits if_splits prod.splits)
  have "length r \<le> length r2" using consumeValue_length [of "trim_left r2"] length_trim_left [of r2] r by simp
  also have "\<dots> < length (c2 # r2)" by simp
  also have "\<dots> \<le> length r0"
    using t length_trim_left [of "dropWhile token_char (trim_left r0)"] length_dropWhile [of token_char "trim_left r0"]
      length_trim_left [of r0] by simp
  also have "\<dots> < length v" using v length_trim_left [of v] by simp
  finally show ?thesis .
qed

text \<open>The loop over the parameters: whether it ends without an error.  A parameter may repeat
  with the same value only.\<close>

function media_params :: "externs \<Rightarrow> (string \<times> string) list \<Rightarrow> string \<Rightarrow> bool" where
  "media_params E seen v0 =
     (let v = trim_left v0 in
      if v = [] then True
      else case consumeMediaParam E v of
             None \<Rightarrow> trim_space v = '';''
           | Some (key, val, rest) \<Rightarrow>
               (case map_of seen key of
                  Some w \<Rightarrow> w = val \<and> media_params E seen rest
                | None \<Rightarrow> media_params E ((key, val) # seen) rest))"
  by pat_completeness auto
termination
  by (relation "measure (\<lambda>(E, seen, v). length v)")
    (auto dest!: consumeMediaParam_length intro: less_le_trans [OF _ length_trim_left])

declare media_params.simps [simp del]

definition checkMediaTypeDisposition :: "string \<Rightarrow> bool" where
  "checkMediaTypeDisposition s =
     (case consumeToken s of
        (typ, rest) \<Rightarrow>
          typ \<noteq> []
          \<and> (case rest of
               [] \<Rightarrow> True
             | c # r \<Rightarrow>
                 c = CHR ''/'' \<and> (case consumeToken r of (sub, r2) \<Rightarrow> sub \<noteq> [] \<and> r2 = [])))"

text \<open>\<^verbatim>\<open>mime.ParseMediaType\<close>: the media type, when there is no error.\<close>

definition ParseMediaType :: "externs \<Rightarrow> string \<Rightarrow> string option" where
  "ParseMediaType E v =
     (let base = takeWhile (\<lambda>c. c \<noteq> CHR '';'') v;
          mediatype = trim_space (to_lower (ex_lower E) base)
      in if \<not> checkMediaTypeDisposition mediatype then None
         else if media_params E [] (drop (length base) v) then Some mediatype else None)"

text \<open>A type written plainly is read back as it is.\<close>

lemma ParseMediaType_plain:
  assumes "list_all (\<lambda>c. token_char c \<and> \<not> is_upper c) a" and "list_all (\<lambda>c. token_char c \<and> \<not> is_upper c) b"
    and "a \<noteq> []" and "b \<noteq> []"
  shows "ParseMediaType E (a @ CHR ''/'' # b) = Some (a @ CHR ''/'' # b)"
proof -
  let ?v = "a @ CHR ''/'' # b"
  have tok: "token_char c \<Longrightarrow> plain_char c \<and> c \<noteq> CHR '';''" for c
    by (auto simp: token_char_def plain_char_def is_ascii_char_def space1_def tspecials_def Let_def)
  have slash: "plain_char (CHR ''/'')" "\<not> token_char (CHR ''/'')"
    by (simp_all add: plain_char_def is_ascii_char_def space1_def token_char_def tspecials_def)
  have plain: "c \<in> set ?v \<Longrightarrow> plain_char c \<and> c \<noteq> CHR '';'' \<and> \<not> is_upper c" for c
    using assms(1,2) tok slash by (auto simp: list_all_iff is_upper_def)
  have "ascii_str ?v" using plain by (auto simp: ascii_str_def list_all_iff plain_char_def)
  moreover have "map lower_char ?v = ?v"
    by (rule map_idI) (use plain lower_char_id in blast)
  ultimately have l: "to_lower (ex_lower E) ?v = ?v" by (simp add: to_lower_ascii)
  have base: "takeWhile (\<lambda>c. c \<noteq> CHR '';'') ?v = ?v" using plain by (simp add: takeWhile_eq_all_conv)
  have t: "trim_space ?v = ?v" by (rule trim_space_plain_all) (use plain in blast)
  have ca: "consumeToken ?v = (a, CHR ''/'' # b)" "consumeToken b = (b, [])"
    using assms(1,2) slash by (auto simp: consumeToken_def takeWhile_append dropWhile_append list_all_iff
        takeWhile_eq_all_conv)
  have "trim_left [] = ([] :: string)" by (simp add: trim_left_plain)
  then have "media_params E [] []" by (subst media_params.simps) simp
  then show ?thesis using ca assms(3,4)
    by (simp add: ParseMediaType_def base l t checkMediaTypeDisposition_def Let_def)
qed

section \<open>The client\<close>

text \<open>
  One round trip is a parameter: it takes the TLS server name and the request over a
  connection and answers a response or a transport failure.  \<open>client_do\<close> adds the
  client's treatment of redirects when \<^verbatim>\<open>CheckRedirect\<close> refuses: the error it returns,
  wrapped.  A redirect without a target is an ordinary response; a target that does not
  parse is an error of its own.
\<close>

definition redirect_status :: "int \<Rightarrow> bool" where
  "redirect_status s \<longleftrightarrow> s \<in> {301, 302, 303, 307, 308}"

definition client_do ::
  "gerr \<Rightarrow> (string \<Rightarrow> bool) \<Rightarrow> gerr + response \<Rightarrow> gerr + response" where
  "client_do refusal location_ok r =
     try_bind r (\<lambda>rp.
       if redirect_status (rp_status rp) \<and> header_get (rp_header rp) ''Location'' \<noteq> []
       then Inl (Wrapped ''%s %q: %v''
              (if location_ok (header_get (rp_header rp) ''Location'') then refusal
               else Msg ''failed to parse Location header''))
       else Inr rp)"

lemma client_do_Inr:
  "client_do e ok r = Inr rp \<longleftrightarrow> r = Inr rp
     \<and> \<not> (redirect_status (rp_status rp) \<and> header_get (rp_header rp) ''Location'' \<noteq> [])"
  by (auto simp: client_do_def result_simps)

end
