(* ===== verification/Rotation.thy ===== *)
theory Rotation
  imports Identity "HOL-Library.Multiset"
begin

text \<open>
  \<^verbatim>\<open>identity/rotation.go\<close> and \<^verbatim>\<open>identity/rotation_verify.go\<close>: the signed statements of a
  domain's identity history and the walk that follows them from a pin.
\<close>

definition RotationType :: string where "RotationType = ''mailkey-identity-rotation-v1''"
definition RevocationType :: string where "RevocationType = ''mailkey-identity-revocation-v1''"
definition StatementContext :: string where "StatementContext = ''mailkey/mkdp/identity-rotation/v1''"
definition MaxChainEntries :: nat where "MaxChainEntries = 32"
definition MaxChainBytes :: nat where "MaxChainBytes = 65536"

record statement =
  st_type :: string
  st_version :: string
  st_domain :: string
  st_old_fp :: bytes
  st_new_fp :: bytes
  st_new_alg :: string
  st_new_pk :: bytes
  st_not_before :: time
  st_created_at :: time
  st_expires_at :: time
  st_reason :: string
  st_old_signature :: bytes
  st_new_signature :: bytes

definition IsRevocation :: "statement \<Rightarrow> bool" where
  "IsRevocation s \<longleftrightarrow> st_type s = RevocationType"

section \<open>The signed bytes\<close>

definition statement_fields :: "string \<Rightarrow> statement \<Rightarrow> (string \<times> gvalue) list" where
  "statement_fields d s =
     [(''type'', VUtf8 (st_type s)), (''version'', VUtf8 (st_version s)), (''domain'', VUtf8 d),
      (''old_fp'', VRaw (st_old_fp s)), (''new_fp'', VRaw (st_new_fp s)),
      (''new_alg'', VUtf8 (st_new_alg s)), (''new_pk'', VRaw (st_new_pk s)),
      (''not_before'', VLong (unix_of_time (st_not_before s))),
      (''created_at'', VLong (unix_of_time (st_created_at s))),
      (''expires_at'', VLong (unix_of_time (st_expires_at s)))]
     @ (if IsRevocation s then [(''reason'', VUtf8 (st_reason s))] else [])"

definition canonical :: "externs \<Rightarrow> statement \<Rightarrow> gerr + bytes" where
  "canonical E s =
     try_bind (wrap_err ''identity statement: %w'' (NormalizeDomain E (st_domain s))) (\<lambda>d.
       opt_err (Wrapped ''identity statement: %w'' (Msg ''pack''))
         (ex_pack E (sorted_map_of (statement_fields d s))))"

definition signingBytes :: "externs \<Rightarrow> statement \<Rightarrow> gerr + bytes" where
  "signingBytes E s = try_bind (canonical E s) (\<lambda>raw. Inr (StatementContext @ raw))"

section \<open>Signing\<close>

definition SignStatement :: "externs \<Rightarrow> statement \<Rightarrow> bytes \<Rightarrow> bytes \<Rightarrow> gerr + statement" where
  "SignStatement E s oldPriv newPriv =
     try_bind (signingBytes E s) (\<lambda>msg.
       let s = (if length oldPriv = PrivateKeySize
                then s\<lparr>st_old_signature := ex_ed_sign E oldPriv msg\<rparr> else s);
           s = (if length newPriv = PrivateKeySize
                then s\<lparr>st_new_signature := ex_ed_sign E newPriv msg\<rparr> else s)
       in Inr s)"

definition SignRotation ::
  "externs \<Rightarrow> string \<Rightarrow> bytes \<Rightarrow> bytes \<Rightarrow> time \<Rightarrow> time \<Rightarrow> time \<Rightarrow> gerr + statement" where
  "SignRotation E domain oldPriv newPriv notBefore createdAt expiresAt =
     (if length oldPriv \<noteq> PrivateKeySize \<or> length newPriv \<noteq> PrivateKeySize
        then Inl (Msg ''sign rotation: both the old and the new private key are required'')
      else
        let oldPK = ed_public oldPriv; newPK = ed_public newPriv in
        try_bind (FingerprintOf E domain oldPK) (\<lambda>oldFP.
        try_bind (FingerprintOf E domain newPK) (\<lambda>newFP.
        let s = \<lparr>st_type = RotationType, st_version = Version, st_domain = domain,
                 st_old_fp = oldFP, st_new_fp = newFP, st_new_alg = Alg, st_new_pk = newPK,
                 st_not_before = notBefore, st_created_at = createdAt, st_expires_at = expiresAt,
                 st_reason = [], st_old_signature = [], st_new_signature = []\<rparr>
        in try_bind (signingBytes E s) (\<lambda>msg.
             Inr (s\<lparr>st_old_signature := ex_ed_sign E oldPriv msg,
                    st_new_signature := ex_ed_sign E newPriv msg\<rparr>)))))"

definition SignRevocation ::
  "externs \<Rightarrow> string \<Rightarrow> bytes \<Rightarrow> bytes \<Rightarrow> string \<Rightarrow> time \<Rightarrow> time \<Rightarrow> bytes \<Rightarrow> gerr + statement" where
  "SignRevocation E domain revokedPriv successorPriv reason createdAt expiresAt revokedFP =
     (if length revokedPriv \<noteq> PrivateKeySize
        then Inl (Msg ''sign revocation: the currently trusted identity private key is required'')
      else if length successorPriv \<noteq> 0 \<and> length successorPriv \<noteq> PrivateKeySize
        then Inl (Msg ''sign revocation: the successor private key is malformed'')
      else
        try_bind (FingerprintOf E domain (ed_public revokedPriv)) (\<lambda>fp.
        if revokedFP \<noteq> zero32 \<and> revokedFP \<noteq> fp
          then Inl (Msg ''sign revocation: revoked fingerprint does not match the currently trusted key'')
        else
          let s = \<lparr>st_type = RevocationType, st_version = Version, st_domain = domain,
                   st_old_fp = fp, st_new_fp = zero32, st_new_alg = Alg, st_new_pk = [],
                   st_not_before = createdAt, st_created_at = createdAt, st_expires_at = expiresAt,
                   st_reason = reason, st_old_signature = [], st_new_signature = []\<rparr>
          in
          try_bind (if length successorPriv = PrivateKeySize
                    then try_bind (FingerprintOf E domain (ed_public successorPriv)) (\<lambda>nfp.
                           Inr (s\<lparr>st_new_fp := nfp, st_new_pk := ed_public successorPriv\<rparr>))
                    else Inr s) (\<lambda>s.
          try_bind (signingBytes E s) (\<lambda>msg.
            let s = s\<lparr>st_old_signature := ex_ed_sign E revokedPriv msg\<rparr> in
            Inr (if length successorPriv = PrivateKeySize
                 then s\<lparr>st_new_signature := ex_ed_sign E successorPriv msg\<rparr> else s)))))"

section \<open>Verifying one statement\<close>

definition VerifyStatement :: "externs \<Rightarrow> statement \<Rightarrow> bytes \<Rightarrow> gerr + unit" where
  "VerifyStatement E s oldPK =
     (if st_type s \<noteq> RotationType \<and> st_type s \<noteq> RevocationType
        then Inl (Msg ''identity statement: unknown type %q'')
      else if st_version s \<noteq> Version then Inl (Msg ''identity statement: version %q, want %q'')
      else
        try_bind (signingBytes E s) (\<lambda>msg.
        if length oldPK \<noteq> PublicKeySize
          then Inl (Msg ''identity statement: the currently trusted public key is missing or malformed'')
        else
        try_bind (FingerprintOf E (st_domain s) oldPK) (\<lambda>oldFP.
        if oldFP \<noteq> st_old_fp s
          then Inl (Msg ''identity statement: old_fp does not match the currently trusted identity'')
        else if length (st_new_pk s) \<noteq> 0 \<and> length (st_new_pk s) \<noteq> PublicKeySize
          then Inl (Msg ''identity statement: new_pk is the wrong length'')
        else if st_new_alg s \<noteq> Alg then Inl (Msg ''identity statement: new_alg %q, want %q'')
        else
          let hasNew = (length (st_new_pk s) = PublicKeySize) in
          try_bind
            (if hasNew then
               try_bind (FingerprintOf E (st_domain s) (st_new_pk s)) (\<lambda>want.
                 guard_err (want \<noteq> st_new_fp s)
                   (Msg ''identity statement: new_fp does not match new_pk''))
             else
               guard_err (st_new_fp s \<noteq> zero32 \<or> length (st_new_signature s) \<noteq> 0)
                 (Msg ''identity statement: successor fields are present without new_pk'')) (\<lambda>_.
          let oldOK = (length (st_old_signature s) = SignatureSize
                       \<and> ex_ed_verify E oldPK msg (st_old_signature s));
              newOK = (hasNew \<and> length (st_new_signature s) = SignatureSize
                       \<and> ex_ed_verify E (st_new_pk s) msg (st_new_signature s))
          in
          if IsRevocation s then
            if \<not> oldOK then Inl (Msg ''identity revocation: the currently trusted identity did not authorize this statement'')
            else if hasNew \<and> \<not> newOK
              then Inl (Msg ''identity revocation: the successor did not prove possession of its key'')
            else Inr ()
          else if \<not> oldOK then Inl (Msg ''identity rotation: the old identity did not authorize this transition'')
          else if \<not> newOK
            then Inl (Msg ''identity rotation: the new identity did not prove possession of its key'')
          else Inr ()))))"

section \<open>Walking the chain\<close>

record chain_result =
  cr_fingerprint :: bytes
  cr_public_key :: bytes
  cr_applied :: nat
  cr_revoked :: bool
  cr_reason :: string

text \<open>A statement the inner loop does not skip: it descends from the identity in effect, is
  in force, and, unless it is a revocation, has not expired.\<close>

definition in_force :: "time \<Rightarrow> bytes \<Rightarrow> statement \<Rightarrow> bool" where
  "in_force now fp s \<longleftrightarrow>
     st_old_fp s = fp \<and> \<not> st_not_before s > now
     \<and> \<not> (\<not> IsRevocation s \<and> st_expires_at s \<noteq> zero_time \<and> \<not> st_expires_at s > now)"

definition next_link :: "time \<Rightarrow> bytes \<Rightarrow> statement list \<Rightarrow> nat list \<Rightarrow> (nat \<times> statement) option" where
  "next_link now fp chain used =
     find (\<lambda>(i, s). i \<notin> set used \<and> in_force now fp s) (enumerate 0 chain)"

text \<open>Following a link, and stopping at a withdrawal that names no successor.\<close>

definition advance :: "statement \<Rightarrow> chain_result \<Rightarrow> chain_result" where
  "advance s out =
     (let out = out\<lparr>cr_fingerprint := st_new_fp s, cr_public_key := st_new_pk s,
                    cr_applied := cr_applied out + 1\<rparr>
      in if IsRevocation s then out\<lparr>cr_revoked := False, cr_reason := []\<rparr> else out)"

definition withdraw :: "statement \<Rightarrow> chain_result \<Rightarrow> chain_result" where
  "withdraw s out =
     out\<lparr>cr_revoked := True, cr_reason := st_reason s, cr_applied := cr_applied out + 1\<rparr>"

fun walk ::
  "externs \<Rightarrow> time \<Rightarrow> statement list \<Rightarrow> nat \<Rightarrow> nat list \<Rightarrow> chain_result
     \<Rightarrow> chain_result \<times> gerr option" where
  "walk E now chain 0 used out = (out, None)"
| "walk E now chain (Suc n) used out =
     (case next_link now (cr_fingerprint out) chain used of
        None \<Rightarrow> (out, None)
      | Some (i, s) \<Rightarrow>
          (case VerifyStatement E s (cr_public_key out) of
             Inl _ \<Rightarrow> (out, Some (Wrapped ''%w: %v'' (Sentinel ErrChainBroken)))
           | Inr _ \<Rightarrow>
               if IsRevocation s \<and> length (st_new_pk s) \<noteq> PublicKeySize
               then (withdraw s out, None)
               else walk E now chain n (i # used) (advance s out)))"

definition WalkChain ::
  "externs \<Rightarrow> bytes \<Rightarrow> bytes \<Rightarrow> statement list \<Rightarrow> time \<Rightarrow> chain_result \<times> gerr option" where
  "WalkChain E pin pinPK chain now =
     (let out = \<lparr>cr_fingerprint = pin, cr_public_key = pinPK, cr_applied = 0, cr_revoked = False,
                 cr_reason = []\<rparr>
      in if length chain > MaxChainEntries
         then (out, Some (Wrapped ''%w: %d entries, max %d'' (Sentinel ErrChainTooLong)))
         else walk E now chain (length chain) [] out)"

section \<open>What a verified statement carries\<close>

lemma signingBytes_Inr:
  "signingBytes E s = Inr msg \<longleftrightarrow>
     (\<exists>d raw. NormalizeDomain E (st_domain s) = Inr d
        \<and> ex_pack E (sorted_map_of (statement_fields d s)) = Some raw
        \<and> msg = StatementContext @ raw)"
  by (auto simp: signingBytes_def canonical_def result_simps)

definition has_successor :: "statement \<Rightarrow> bool" where
  "has_successor s \<longleftrightarrow> length (st_new_pk s) = PublicKeySize"

text \<open>The contract of a verified statement, for the key the caller trusts.\<close>

definition authorizes :: "externs \<Rightarrow> statement \<Rightarrow> bytes \<Rightarrow> bool" where
  "authorizes E s oldPK \<longleftrightarrow>
     FingerprintOf E (st_domain s) oldPK = Inr (st_old_fp s)
     \<and> (\<exists>msg. signingBytes E s = Inr msg
          \<and> length (st_old_signature s) = SignatureSize \<and> ex_ed_verify E oldPK msg (st_old_signature s)
          \<and> (has_successor s \<longrightarrow>
               FingerprintOf E (st_domain s) (st_new_pk s) = Inr (st_new_fp s)
               \<and> length (st_new_signature s) = SignatureSize
               \<and> ex_ed_verify E (st_new_pk s) msg (st_new_signature s)))"

lemma VerifyStatement_Inr:
  "VerifyStatement E s oldPK = Inr () \<longleftrightarrow>
     (st_type s = RotationType \<and> has_successor s \<or> st_type s = RevocationType)
     \<and> st_version s = Version \<and> st_new_alg s = Alg
     \<and> (has_successor s \<or> st_new_pk s = [] \<and> st_new_fp s = zero32 \<and> st_new_signature s = [])
     \<and> authorizes E s oldPK"
proof -
  have ne: "RotationType \<noteq> RevocationType" by (simp add: RotationType_def RevocationType_def)
  have sz: "PublicKeySize \<noteq> 0" by (simp add: PublicKeySize_def)
  have len: "FingerprintOf E (st_domain s) oldPK = Inr f \<Longrightarrow> length oldPK = PublicKeySize" for f
    by (simp add: FingerprintOf_Inr)
  show ?thesis
    using ne sz len
    by (cases "has_successor s")
      (auto simp: VerifyStatement_def result_simps Let_def authorizes_def has_successor_def IsRevocation_def)
qed

lemma VerifyStatement_unit: "VerifyStatement E s pk = Inr u \<longleftrightarrow> VerifyStatement E s pk = Inr ()"
  by simp

lemma Verified_rotation_successor:
  "VerifyStatement E s pk = Inr () \<Longrightarrow> \<not> IsRevocation s \<Longrightarrow> has_successor s"
  by (auto simp: VerifyStatement_Inr IsRevocation_def)

section \<open>Signing and verifying\<close>

lemma SignRotation_verifies:
  assumes ed: "ed_law E" and s: "SignRotation E domain oldPriv newPriv nb ca ea = Inr s"
  shows "VerifyStatement E s (ed_public oldPriv) = Inr ()"
    and "st_new_pk s = ed_public newPriv" and "st_not_before s = nb" and "st_expires_at s = ea"
    and "FingerprintOf E domain (ed_public oldPriv) = Inr (st_old_fp s)"
    and "FingerprintOf E domain (ed_public newPriv) = Inr (st_new_fp s)" and "st_type s = RotationType"
  using assms
  by (auto simp: SignRotation_def result_simps Let_def VerifyStatement_Inr authorizes_def has_successor_def
      ed_law_def ed_public_length signingBytes_Inr statement_fields_def IsRevocation_def)

lemma size_consts: "PublicKeySize \<noteq> 0" "PrivateKeySize \<noteq> 0" "0 \<noteq> PublicKeySize" "0 \<noteq> PrivateKeySize"
  by (simp_all add: PublicKeySize_def PrivateKeySize_def)

lemma SignRevocation_verifies:
  assumes ed: "ed_law E"
    and s: "SignRevocation E domain revokedPriv successorPriv reason ca ea fp = Inr s"
  shows "VerifyStatement E s (ed_public revokedPriv) = Inr ()"
    and "IsRevocation s" and "st_reason s = reason" and "st_not_before s = ca"
    and "FingerprintOf E domain (ed_public revokedPriv) = Inr (st_old_fp s)"
    and "successorPriv = [] \<longleftrightarrow> \<not> has_successor s"
proof -
  from s obtain f where f: "FingerprintOf E domain (ed_public revokedPriv) = Inr f"
    and len: "length revokedPriv = PrivateKeySize"
    and len': "successorPriv = [] \<or> length successorPriv = PrivateKeySize"
    by (auto simp: SignRevocation_def result_simps)
  have "VerifyStatement E s (ed_public revokedPriv) = Inr () \<and> IsRevocation s \<and> st_reason s = reason
    \<and> st_not_before s = ca \<and> st_old_fp s = f \<and> (successorPriv = [] \<longleftrightarrow> \<not> has_successor s)"
  proof (cases "successorPriv = []")
    case True
    with s f len obtain msg s0 where m: "signingBytes E s0 = Inr msg"
      and s0: "s0 = \<lparr>st_type = RevocationType, st_version = Version, st_domain = domain,
                   st_old_fp = f, st_new_fp = zero32, st_new_alg = Alg, st_new_pk = [],
                   st_not_before = ca, st_created_at = ca, st_expires_at = ea,
                   st_reason = reason, st_old_signature = [], st_new_signature = []\<rparr>"
      and s: "s = s0\<lparr>st_old_signature := ex_ed_sign E revokedPriv msg\<rparr>"
      by (auto simp: SignRevocation_def result_simps Let_def size_consts)
    have "signingBytes E s = Inr msg"
      using m by (simp add: s s0 signingBytes_Inr statement_fields_def IsRevocation_def)
    then show ?thesis
      using ed f len True
      by (simp add: s s0 VerifyStatement_Inr authorizes_def has_successor_def IsRevocation_def
          ed_law_def size_consts)
  next
    case False
    with len' have len2: "length successorPriv = PrivateKeySize" by simp
    with s f len obtain g msg s0 where g: "FingerprintOf E domain (ed_public successorPriv) = Inr g"
      and m: "signingBytes E s0 = Inr msg"
      and s0: "s0 = \<lparr>st_type = RevocationType, st_version = Version, st_domain = domain,
                   st_old_fp = f, st_new_fp = g, st_new_alg = Alg, st_new_pk = ed_public successorPriv,
                   st_not_before = ca, st_created_at = ca, st_expires_at = ea,
                   st_reason = reason, st_old_signature = [], st_new_signature = []\<rparr>"
      and s: "s = s0\<lparr>st_old_signature := ex_ed_sign E revokedPriv msg,
                     st_new_signature := ex_ed_sign E successorPriv msg\<rparr>"
      by (auto simp: SignRevocation_def result_simps Let_def size_consts)
    have "signingBytes E s = Inr msg"
      using m by (simp add: s s0 signingBytes_Inr statement_fields_def IsRevocation_def)
    then show ?thesis
      using ed f g len len2 False
      by (simp add: s s0 VerifyStatement_Inr authorizes_def has_successor_def IsRevocation_def
          ed_law_def ed_public_length)
  qed
  with f show "VerifyStatement E s (ed_public revokedPriv) = Inr ()"
    and "IsRevocation s" and "st_reason s = reason" and "st_not_before s = ca"
    and "FingerprintOf E domain (ed_public revokedPriv) = Inr (st_old_fp s)"
    and "successorPriv = [] \<longleftrightarrow> \<not> has_successor s" by simp_all
qed

section \<open>The walk only moves on a signature\<close>

text \<open>The abstract history: from an identity to the one a statement of the set installs.\<close>

inductive descends ::
  "externs \<Rightarrow> time \<Rightarrow> statement set \<Rightarrow> bytes \<times> bytes \<Rightarrow> bytes \<times> bytes \<Rightarrow> bool"
  for E now S where
  descends_refl: "descends E now S x x"
| descends_step:
    "s \<in> S \<Longrightarrow> in_force now fp s \<Longrightarrow> VerifyStatement E s pk = Inr () \<Longrightarrow> has_successor s
     \<Longrightarrow> descends E now S (st_new_fp s, st_new_pk s) y \<Longrightarrow> descends E now S (fp, pk) y"

inductive_cases descends_pair : "descends E now S (fp, pk) y"

lemma descends_mono: "descends E now S x y \<Longrightarrow> S \<subseteq> T \<Longrightarrow> descends E now T x y"
  by (induction rule: descends.induct) (auto intro: descends.intros)

lemma find_Some_iff: "find P xs = Some x \<Longrightarrow> x \<in> set xs \<and> P x"
  by (induction xs) (auto split: if_splits)

lemma next_link_Some:
  "next_link now fp chain used = Some (i, s)
     \<Longrightarrow> i < length chain \<and> chain ! i = s \<and> i \<notin> set used \<and> in_force now fp s"
  unfolding next_link_def
  by (drule find_Some_iff) (auto simp: in_set_enumerate_eq)

lemma next_link_set: "next_link now fp chain used = Some (i, s) \<Longrightarrow> s \<in> set chain"
  using next_link_Some [of now fp chain used i s] by (metis nth_mem)

lemma advance_sel [simp]:
  "cr_fingerprint (advance s out) = st_new_fp s" "cr_public_key (advance s out) = st_new_pk s"
  "cr_applied (advance s out) = cr_applied out + 1"
  "cr_revoked (advance s out) \<longleftrightarrow> cr_revoked out \<and> \<not> IsRevocation s"
  by (auto simp: advance_def Let_def)

lemma withdraw_sel [simp]:
  "cr_fingerprint (withdraw s out) = cr_fingerprint out"
  "cr_public_key (withdraw s out) = cr_public_key out"
  "cr_applied (withdraw s out) = cr_applied out + 1"
  "cr_revoked (withdraw s out)" "cr_reason (withdraw s out) = st_reason s"
  by (simp_all add: withdraw_def)

lemma walk_Suc_cases:
  assumes "walk E now chain (Suc n) used out = (out', err)"
  obtains (stay) "out' = out"
  | (withdrawn) i s where "next_link now (cr_fingerprint out) chain used = Some (i, s)"
      "VerifyStatement E s (cr_public_key out) = Inr ()" "IsRevocation s"
      "out' = withdraw s out" "err = None"
  | (moved) i s where "next_link now (cr_fingerprint out) chain used = Some (i, s)"
      "VerifyStatement E s (cr_public_key out) = Inr ()" "has_successor s"
      "walk E now chain n (i # used) (advance s out) = (out', err)"
proof (cases "next_link now (cr_fingerprint out) chain used")
  case None
  with assms stay show ?thesis by simp
next
  case (Some p)
  obtain i s where p: "p = (i, s)" by (cases p)
  show ?thesis
  proof (cases "VerifyStatement E s (cr_public_key out)")
    case (Inl e)
    with assms Some p stay show ?thesis by simp
  next
    case (Inr u)
    then have v: "VerifyStatement E s (cr_public_key out) = Inr ()" by simp
    show ?thesis
    proof (cases "IsRevocation s \<and> \<not> has_successor s")
      case True
      with assms Some p v show ?thesis
        by (intro withdrawn [of i s]) (simp_all add: has_successor_def)
    next
      case False
      then have "has_successor s" using v Verified_rotation_successor by blast
      with assms Some p v show ?thesis
        by (intro moved [of i s]) (simp_all add: has_successor_def)
    qed
  qed
qed

lemma walk_descends:
  "walk E now chain n used out = (out', err) \<Longrightarrow>
     descends E now (set chain) (cr_fingerprint out, cr_public_key out)
       (cr_fingerprint out', cr_public_key out')"
proof (induction n arbitrary: used out)
  case (Suc n)
  from Suc.prems show ?case
  proof (cases rule: walk_Suc_cases)
    case (moved i s)
    then show ?thesis
      using Suc.IH [OF moved(4)] next_link_Some [OF moved(1)] next_link_set [OF moved(1)]
      by (simp add: descends_step)
  qed (auto intro: descends_refl)
qed (auto intro: descends_refl)

lemma WalkChain_descends:
  "WalkChain E pin pk chain now = (out, err) \<Longrightarrow>
     descends E now (set chain) (pin, pk) (cr_fingerprint out, cr_public_key out)"
  by (auto simp: WalkChain_def Let_def intro: descends_refl dest!: walk_descends split: if_splits)

text \<open>So the identity in effect changes only on a statement the pinned key itself signed.\<close>

lemma WalkChain_moved:
  assumes "WalkChain E pin pk chain now = (out, err)" and "(cr_fingerprint out, cr_public_key out) \<noteq> (pin, pk)"
  shows "\<exists>s \<in> set chain. in_force now pin s \<and> authorizes E s pk"
  using WalkChain_descends [OF assms(1)]
  by (rule descends_pair) (use assms(2) in \<open>auto simp: VerifyStatement_Inr\<close>)

text \<open>Every identity reached is one its own key produces.\<close>

lemma descends_fingerprint:
  "descends E now S x y \<Longrightarrow> x = y \<or> (\<exists>d. FingerprintOf E d (snd y) = Inr (fst y))"
  by (induction rule: descends.induct) (auto simp: VerifyStatement_Inr authorizes_def)

section \<open>Withdrawal and bounds\<close>

lemma walk_revoked:
  "walk E now chain n used out = (out', err) \<Longrightarrow> \<not> cr_revoked out \<Longrightarrow> cr_revoked out' \<Longrightarrow>
     err = None \<and> (\<exists>s \<in> set chain. IsRevocation s \<and> st_old_fp s = cr_fingerprint out'
       \<and> authorizes E s (cr_public_key out') \<and> cr_reason out' = st_reason s)"
proof (induction n arbitrary: used out)
  case (Suc n)
  from Suc.prems(1) show ?case
  proof (cases rule: walk_Suc_cases)
    case (withdrawn i s)
    then show ?thesis
      using next_link_Some [OF withdrawn(1)] next_link_set [OF withdrawn(1)]
      by (auto simp: VerifyStatement_Inr in_force_def intro!: bexI [of _ s])
  next
    case (moved i s)
    then show ?thesis using Suc.IH [OF moved(4)] Suc.prems by simp
  qed (use Suc.prems in simp)
qed simp

lemma WalkChain_revoked:
  "WalkChain E pin pk chain now = (out, err) \<Longrightarrow> cr_revoked out \<Longrightarrow>
     err = None \<and> (\<exists>s \<in> set chain. IsRevocation s \<and> st_old_fp s = cr_fingerprint out
       \<and> authorizes E s (cr_public_key out) \<and> cr_reason out = st_reason s)"
  by (auto simp: WalkChain_def Let_def dest!: walk_revoked split: if_splits)

lemma walk_applied:
  "walk E now chain n used out = (out', err) \<Longrightarrow> cr_applied out' \<le> cr_applied out + n"
proof (induction n arbitrary: used out)
  case (Suc n)
  from Suc.prems show ?case
  proof (cases rule: walk_Suc_cases)
    case (moved i s)
    then show ?thesis using Suc.IH [OF moved(4)] by simp
  qed simp_all
qed simp

lemma WalkChain_applied: "WalkChain E pin pk chain now = (out, err) \<Longrightarrow> cr_applied out \<le> MaxChainEntries"
  by (auto simp: WalkChain_def Let_def dest!: walk_applied split: if_splits)


section \<open>One domain, one history\<close>

lemma descends_same_domain:
  assumes "descends E now S x y" and "FingerprintOf E d (snd x) = Inr (fst x)"
    and "snd x \<in> K" and "st_new_pk ` S \<subseteq> K"
    and "\<And>s k. s \<in> S \<Longrightarrow> k \<in> K \<Longrightarrow> FingerprintOf E (st_domain s) k = FingerprintOf E d k
           \<Longrightarrow> NormalizeDomain E (st_domain s) = NormalizeDomain E d"
  shows "FingerprintOf E d (snd y) = Inr (fst y)"
  using assms
proof (induction rule: descends.induct)
  case (descends_step s fp pk y)
  have au: "authorizes E s pk" using descends_step.hyps(3) by (simp add: VerifyStatement_Inr)
  then have "FingerprintOf E (st_domain s) pk = FingerprintOf E d pk"
    using descends_step.prems(1) descends_step.hyps(2) by (simp add: authorizes_def in_force_def)
  then have n: "NormalizeDomain E (st_domain s) = NormalizeDomain E d"
    using descends_step.prems(2,4) descends_step.hyps(1) by simp
  have "FingerprintOf E (st_domain s) (st_new_pk s) = Inr (st_new_fp s)"
    using au descends_step.hyps(4) by (auto simp: authorizes_def)
  then have "FingerprintOf E d (st_new_pk s) = Inr (st_new_fp s)"
    by (simp add: FingerprintOf_def n)
  then show ?case
    using descends_step.IH descends_step.prems(3,4) descends_step.hyps(1) by auto
qed simp

text \<open>The signature covers every field: equal signed bytes, equal statements, up to the
  spelling of the domain and the fraction of a second.\<close>

lemma statement_fields_distinct: "distinct (map fst (statement_fields d s))"
  by (simp add: statement_fields_def)

lemma signed_fields:
  assumes "signingBytes E s = Inr msg" and "signingBytes E s' = Inr msg"
    and codec: "\<And>d. codec_law E (sorted_map_of (statement_fields d s))"
      "\<And>d. codec_law E (sorted_map_of (statement_fields d s'))"
  shows "NormalizeDomain E (st_domain s) = NormalizeDomain E (st_domain s')"
    and "st_type s = st_type s' \<and> st_version s = st_version s' \<and> st_new_alg s = st_new_alg s'"
    and "st_old_fp s = st_old_fp s' \<and> st_new_fp s = st_new_fp s' \<and> st_new_pk s = st_new_pk s'"
    and "unix_of_time (st_not_before s) = unix_of_time (st_not_before s')
      \<and> unix_of_time (st_created_at s) = unix_of_time (st_created_at s')
      \<and> unix_of_time (st_expires_at s) = unix_of_time (st_expires_at s')"
    and "IsRevocation s \<Longrightarrow> st_reason s = st_reason s'"
proof -
  from assms(1,2) obtain d d' raw where
    d: "NormalizeDomain E (st_domain s) = Inr d" "NormalizeDomain E (st_domain s') = Inr d'"
    and raw: "ex_pack E (sorted_map_of (statement_fields d s)) = Some raw"
      "ex_pack E (sorted_map_of (statement_fields d' s')) = Some raw"
    by (auto simp: signingBytes_Inr)
  have "sorted_map_of (statement_fields d s) = sorted_map_of (statement_fields d' s')"
    using codec raw by (rule codec_inject)
  then have m: "map_of (statement_fields d s) = map_of (statement_fields d' s')"
    by (rule sorted_map_inject [OF _ statement_fields_distinct statement_fields_distinct])
  note get = fun_cong [OF m]
  show t: "st_type s = st_type s' \<and> st_version s = st_version s' \<and> st_new_alg s = st_new_alg s'"
    using get [of "''type''"] get [of "''version''"] get [of "''new_alg''"]
    by (simp add: statement_fields_def)
  show "NormalizeDomain E (st_domain s) = NormalizeDomain E (st_domain s')"
    using d get [of "''domain''"] by (simp add: statement_fields_def)
  show "st_old_fp s = st_old_fp s' \<and> st_new_fp s = st_new_fp s' \<and> st_new_pk s = st_new_pk s'"
    using get [of "''old_fp''"] get [of "''new_fp''"] get [of "''new_pk''"]
    by (simp add: statement_fields_def)
  show "unix_of_time (st_not_before s) = unix_of_time (st_not_before s')
      \<and> unix_of_time (st_created_at s) = unix_of_time (st_created_at s')
      \<and> unix_of_time (st_expires_at s) = unix_of_time (st_expires_at s')"
    using get [of "''not_before''"] get [of "''created_at''"] get [of "''expires_at''"]
    by (simp add: statement_fields_def)
  show "st_reason s = st_reason s'" if "IsRevocation s"
    using get [of "''reason''"] that t by (simp add: statement_fields_def IsRevocation_def)
qed

section \<open>Order does not matter without a fork\<close>

lemma next_link_spec:
  assumes di: "distinct (map st_old_fp chain)" and us: "set used \<subseteq> {..<length chain}"
  shows "map_option snd (next_link now fp chain used) = Some s \<longleftrightarrow>
     s \<in> set chain \<and> in_force now fp s \<and> s \<notin> nth chain ` set used" (is "?l \<longleftrightarrow> ?r")
proof
  assume ?l
  then obtain i where nl: "next_link now fp chain used = Some (i, s)" by auto
  note f = next_link_Some [OF nl]
  have "distinct chain" using di by (simp add: distinct_map)
  then have "s \<notin> nth chain ` set used" using f us by (auto simp: nth_eq_iff_index_eq subset_iff)
  then show ?r using f next_link_set [OF nl] by simp
next
  assume r: ?r
  then obtain i where i: "i < length chain" "chain ! i = s" by (auto simp: in_set_conv_nth)
  then have "i \<notin> set used" using r by auto
  then have "(i, s) \<in> set (enumerate 0 chain)" and "i \<notin> set used \<and> in_force now fp s"
    using i r by (auto simp: in_set_enumerate_eq)
  then have "next_link now fp chain used \<noteq> None"
    unfolding next_link_def find_None_iff by auto
  then obtain j s' where nl: "next_link now fp chain used = Some (j, s')" by auto
  have "st_old_fp s' = st_old_fp s" using next_link_Some [OF nl] r by (simp add: in_force_def)
  then have "s' = s"
    using di r next_link_set [OF nl] by (auto simp: distinct_map dest: inj_onD)
  then show ?l by (simp add: nl)
qed

lemma walk_permutation:
  assumes "distinct (map st_old_fp chain)" and "distinct (map st_old_fp chain')"
    and "set chain = set chain'"
    and "set used \<subseteq> {..<length chain}" and "set used' \<subseteq> {..<length chain'}"
    and "nth chain ` set used = nth chain' ` set used'"
  shows "walk E now chain n used out = walk E now chain' n used' out"
  using assms
proof (induction n arbitrary: used used' out)
  case (Suc n)
  let ?l = "next_link now (cr_fingerprint out) chain used"
  let ?l' = "next_link now (cr_fingerprint out) chain' used'"
  have eq: "map_option snd ?l = map_option snd ?l'"
  proof (rule option.expand, goal_cases)
    case 1
    then show ?case
      using next_link_spec [OF Suc.prems(1,4), of now "cr_fingerprint out"]
        next_link_spec [OF Suc.prems(2,5), of now "cr_fingerprint out"] Suc.prems(3,6)
      by (metis not_None_eq)
  next
    case 2
    then show ?case
      using next_link_spec [OF Suc.prems(1,4), of now "cr_fingerprint out"]
        next_link_spec [OF Suc.prems(2,5), of now "cr_fingerprint out"] Suc.prems(3,6)
      by (metis option.exhaust_sel)
  qed
  show ?case
  proof (cases ?l)
    case None
    with eq have "?l' = None" by auto
    with None show ?thesis by simp
  next
    case (Some p)
    obtain i s where p: "p = (i, s)" by (cases p)
    with eq Some obtain j where l': "?l' = Some (j, s)" by (cases ?l') auto
    note i = next_link_Some [OF Some [unfolded p]] and j = next_link_Some [OF l']
    have "walk E now chain n (i # used) (advance s out) = walk E now chain' n (j # used') (advance s out)"
      using Suc.prems i j by (intro Suc.IH) auto
    with Some p l' show ?thesis by (auto split: sum.split)
  qed
qed simp

lemma WalkChain_permutation:
  assumes di: "distinct (map st_old_fp chain)" and m: "mset chain' = mset chain"
  shows "WalkChain E pin pk chain' now = WalkChain E pin pk chain now"
proof -
  have len: "length chain' = length chain" and set: "set chain' = set chain"
    using m by (metis size_mset) (metis m set_mset_mset)
  have "distinct (map st_old_fp chain')"
    using di m by (metis mset_eq_imp_distinct_iff mset_map)
  then show ?thesis
    using walk_permutation [OF _ di set, of "[]" "[]"] len by (simp add: WalkChain_def Let_def)
qed

section \<open>One rotation\<close>

lemma WalkChain_single:
  assumes ed: "ed_law E" and s: "SignRotation E domain oldPriv newPriv nb ca ea = Inr s"
    and now: "nb \<le> now" "ea = zero_time \<or> now < ea"
  shows "WalkChain E (st_old_fp s) (ed_public oldPriv) [s] now
     = (\<lparr>cr_fingerprint = st_new_fp s, cr_public_key = ed_public newPriv, cr_applied = 1,
         cr_revoked = False, cr_reason = []\<rparr>, None)"
proof -
  note v = SignRotation_verifies [OF ed s]
  have r: "\<not> IsRevocation s" using v(7) by (simp add: IsRevocation_def RotationType_def RevocationType_def)
  have f: "in_force now (st_old_fp s) s" using now v r by (auto simp: in_force_def)
  show ?thesis
    using v r f
    by (simp add: WalkChain_def Let_def MaxChainEntries_def next_link_def advance_def)
qed

end
