(* ===== verification/Resource.thy ===== *)
theory Resource
  imports Rotation
begin

text \<open>
  \<^verbatim>\<open>identity/resource.go\<close>: the identity resource, its strict schema, and the stored form of
  a statement chain.
\<close>

definition ResourcePath :: string where "ResourcePath = ''/.well-known/mail-key-identity''"
definition ByFPPath :: string where "ByFPPath = ResourcePath @ ''/by-fp/''"
definition DocType :: string where "DocType = ''mailkey-identity-doc-v1''"
definition StatusActive :: string where "StatusActive = ''active''"
definition StatusRevoked :: string where "StatusRevoked = ''revoked''"

record doc =
  dc_type :: string
  dc_version :: string
  dc_domain :: string
  dc_active_fp :: bytes
  dc_active_pk :: bytes
  dc_alg :: string
  dc_status :: string
  dc_updated_at :: time
  dc_authority :: "string list"
  dc_chain :: "statement list"

section \<open>Field access\<close>

definition docAsMap :: "gvalue option \<Rightarrow> string \<Rightarrow> gerr + (string \<times> gvalue) list" where
  "docAsMap v what =
     (case v of Some (VMap m) \<Rightarrow> Inr m | _ \<Rightarrow> Inl (Msg (what @ '': expected a map'')))"

definition boundedDocKeys ::
  "externs \<Rightarrow> (string \<times> gvalue) list \<Rightarrow> string list \<Rightarrow> string list \<Rightarrow> gerr + unit" where
  "boundedDocKeys E m required optional =
     (if list_ex (\<lambda>k. k \<notin> set (required @ optional)) (map_keys m)
      then Inl (Msg ''identity resource: unexpected field %q'')
      else if list_ex (\<lambda>k. map_get E m k = None) required
      then Inl (Msg ''identity resource: missing field %q'')
      else Inr ())"

definition docUtf8Field :: "externs \<Rightarrow> (string \<times> gvalue) list \<Rightarrow> string \<Rightarrow> gerr + string" where
  "docUtf8Field E m key =
     (case map_get E m key of Some (VUtf8 s) \<Rightarrow> Inr s
      | _ \<Rightarrow> Inl (Msg ''identity resource: field %q must be a UTF-8 string''))"

definition docRawField :: "externs \<Rightarrow> (string \<times> gvalue) list \<Rightarrow> string \<Rightarrow> gerr + bytes" where
  "docRawField E m key =
     (case map_get E m key of Some (VRaw b) \<Rightarrow> Inr b
      | _ \<Rightarrow> Inl (Msg ''identity resource: field %q must be raw bytes''))"

definition docLongField :: "externs \<Rightarrow> (string \<times> gvalue) list \<Rightarrow> string \<Rightarrow> gerr + 64 word" where
  "docLongField E m key =
     (case map_get E m key of Some (VLong n) \<Rightarrow> Inr n
      | _ \<Rightarrow> Inl (Msg ''identity resource: field %q must be a 64-bit integer''))"

definition docAuthorityItem :: "externs \<Rightarrow> gvalue \<Rightarrow> gerr + string" where
  "docAuthorityItem E it =
     (case it of
        VUtf8 a \<Rightarrow>
          if canonical_domain E a then Inr a
          else Inl (Msg ''identity resource: authority %q is not in canonical form'')
      | _ \<Rightarrow> Inl (Msg ''identity resource: authority entries must be UTF-8 strings''))"

definition docAuthorityField :: "externs \<Rightarrow> (string \<times> gvalue) list \<Rightarrow> gerr + string list" where
  "docAuthorityField E m =
     (case map_get E m ''authority'' of
        None \<Rightarrow> Inr []
      | Some VNull \<Rightarrow> Inr []
      | Some (VList items) \<Rightarrow>
          if items = [] then Inl (Msg ''identity resource: authority must not be empty when present'')
          else if length items > MaxAuthorityEntries
          then Inl (Msg ''identity resource: authority has %d entries, at most %d allowed'')
          else try_map (docAuthorityItem E) items
      | Some _ \<Rightarrow> Inl (Msg ''identity resource: authority must be a list''))"

section \<open>Statements\<close>

definition packed_fields :: "statement \<Rightarrow> (string \<times> gvalue) list" where
  "packed_fields s =
     [(''type'', VUtf8 (st_type s)), (''version'', VUtf8 (st_version s)),
      (''domain'', VUtf8 (st_domain s)), (''old_fp'', VRaw (st_old_fp s)),
      (''new_fp'', VRaw (st_new_fp s)), (''new_alg'', VUtf8 (st_new_alg s)),
      (''new_pk'', VRaw (st_new_pk s)), (''not_before'', VLong (unix_of_time (st_not_before s))),
      (''created_at'', VLong (unix_of_time (st_created_at s))),
      (''expires_at'', VLong (unix_of_time (st_expires_at s))), (''reason'', VUtf8 (st_reason s))]
     @ (if st_old_signature s \<noteq> [] then [(''old_signature'', VRaw (st_old_signature s))] else [])
     @ (if st_new_signature s \<noteq> [] then [(''new_signature'', VRaw (st_new_signature s))] else [])"

definition packStatement :: "statement \<Rightarrow> gvalue" where
  "packStatement s = sorted_map_of (packed_fields s)"

definition statement_keys :: "string list" where
  "statement_keys =
     [''type'', ''version'', ''domain'', ''old_fp'', ''new_fp'', ''new_alg'', ''new_pk'',
      ''not_before'', ''created_at'', ''expires_at'', ''reason'', ''old_signature'', ''new_signature'']"

definition unpackStatement :: "externs \<Rightarrow> gvalue \<Rightarrow> gerr + statement" where
  "unpackStatement E v =
     try_bind (docAsMap (Some v) ''identity statement'') (\<lambda>m.
     if list_ex (\<lambda>k. k \<notin> set statement_keys) (map_keys m)
       then Inl (Msg ''identity statement: unknown field %q'')
     else
       let present = (\<lambda>k. k \<in> set (map_keys m)) in
       try_bind (docUtf8Field E m ''type'') (\<lambda>ty.
       try_bind (docUtf8Field E m ''version'') (\<lambda>ver.
       try_bind (docUtf8Field E m ''domain'') (\<lambda>dm.
       try_bind (docUtf8Field E m ''new_alg'') (\<lambda>alg.
       try_bind (docUtf8Field E m ''reason'') (\<lambda>reason.
       try_bind (docRawField E m ''old_fp'') (\<lambda>oldFP.
       try_bind (docRawField E m ''new_fp'') (\<lambda>newFP.
       if length oldFP \<noteq> 32 \<or> length newFP \<noteq> 32
         then Inl (Msg ''identity statement: a fingerprint is the wrong length'')
       else
       try_bind (docRawField E m ''new_pk'') (\<lambda>newPK.
       try_bind (if present ''old_signature'' then docRawField E m ''old_signature'' else Inr []) (\<lambda>os.
       try_bind (if present ''new_signature'' then docRawField E m ''new_signature'' else Inr []) (\<lambda>ns.
       try_bind (docLongField E m ''not_before'') (\<lambda>nb.
       try_bind (docLongField E m ''created_at'') (\<lambda>ca.
       try_bind (docLongField E m ''expires_at'') (\<lambda>ea.
         Inr \<lparr>st_type = ty, st_version = ver, st_domain = dm, st_old_fp = oldFP, st_new_fp = newFP,
              st_new_alg = alg, st_new_pk = newPK, st_not_before = time_of_unix nb,
              st_created_at = time_of_unix ca, st_expires_at = time_of_unix ea, st_reason = reason,
              st_old_signature = os, st_new_signature = ns\<rparr>))))))))))))))"

section \<open>The document\<close>

definition doc_fields :: "string \<Rightarrow> doc \<Rightarrow> (string \<times> gvalue) list" where
  "doc_fields dm d =
     [(''type'', VUtf8 DocType), (''version'', VUtf8 Version), (''domain'', VUtf8 dm),
      (''active_fp'', VRaw (dc_active_fp d)), (''active_pk'', VRaw (dc_active_pk d)),
      (''alg'', VUtf8 Alg), (''status'', VUtf8 (dc_status d)),
      (''updated_at'', VLong (unix_of_time (dc_updated_at d))),
      (''chain'', VList (map packStatement (dc_chain d)))]
     @ (if dc_authority d \<noteq> [] then [(''authority'', VList (map VUtf8 (dc_authority d)))] else [])"

definition PackDoc :: "externs \<Rightarrow> doc \<Rightarrow> gerr + bytes" where
  "PackDoc E d =
     try_bind (wrap_err ''identity resource: %w'' (NormalizeDomain E (dc_domain d))) (\<lambda>dm.
     if length (dc_chain d) > MaxChainEntries
       then Inl (Wrapped ''%w: %d entries'' (Sentinel ErrChainTooLong))
     else if length (dc_authority d) > MaxAuthorityEntries
       then Inl (Msg ''identity resource: authority has %d entries, at most %d allowed'')
     else
       try_bind (try_map (check_canonical E
                   ''identity resource: authority %q is not in canonical form (want %q)'')
                   (dc_authority d)) (\<lambda>_.
         opt_err (Wrapped ''identity resource: %w'' (Msg ''pack''))
           (ex_pack E (sorted_map_of (doc_fields dm d)))))"

definition parse_entries :: "externs \<Rightarrow> gvalue list \<Rightarrow> gerr + statement list" where
  "parse_entries E entries =
     (if length entries > MaxChainEntries
      then Inl (Wrapped ''%w: %d entries'' (Sentinel ErrChainTooLong))
      else try_map (unpackStatement E) entries)"

definition ParseDoc :: "externs \<Rightarrow> string \<Rightarrow> bytes \<Rightarrow> gerr + doc" where
  "ParseDoc E domain raw =
     (if length raw > MaxChainBytes then Inl (Msg ''identity resource: %d bytes, max %d'')
      else
      try_bind (wrap_err ''identity resource: %w'' (NormalizeDomain E domain)) (\<lambda>dm.
      try_bind (opt_err (Wrapped ''identity resource: %w'' (Msg ''unpack'')) (ex_unpack E raw)) (\<lambda>v.
      try_bind (docAsMap (Some v) ''identity resource'') (\<lambda>m.
      try_bind (boundedDocKeys E m
                  [''type'', ''version'', ''domain'', ''active_fp'', ''active_pk'', ''alg'',
                   ''status'', ''updated_at'', ''chain''] [''authority'']) (\<lambda>_.
      try_bind (docUtf8Field E m ''type'') (\<lambda>ty.
      if ty \<noteq> DocType then Inl (Msg ''identity resource: type %q, want %q'') else
      try_bind (docUtf8Field E m ''version'') (\<lambda>ver.
      if ver \<noteq> Version then Inl (Msg ''identity resource: version %q, want %q'') else
      try_bind (docUtf8Field E m ''domain'') (\<lambda>docDomain.
      if docDomain \<noteq> dm
        then Inl (Msg ''identity resource: the document names a different domain than the one fetched'')
      else
      try_bind (docAuthorityField E m) (\<lambda>authority.
      try_bind (docUtf8Field E m ''alg'') (\<lambda>alg.
      if alg \<noteq> Alg then Inl (Msg ''identity resource: alg %q, want %q'') else
      try_bind (docUtf8Field E m ''status'') (\<lambda>status.
      try_bind (docLongField E m ''updated_at'') (\<lambda>upd.
      try_bind (docRawField E m ''active_pk'') (\<lambda>pk.
      if length pk \<noteq> PublicKeySize then Inl (Msg ''identity resource: active_pk is %d bytes, want %d'')
      else
      try_bind (FingerprintOf E dm pk) (\<lambda>want.
      try_bind (docRawField E m ''active_fp'') (\<lambda>claimed.
      if length claimed \<noteq> 32 then Inl (Msg ''identity resource: active_fp is the wrong length'')
      else if claimed \<noteq> want
        then Inl (Msg ''identity resource: active_fp does not match active_pk'')
      else
      try_bind (case map_get E m ''chain'' of
                  Some (VList entries) \<Rightarrow> parse_entries E entries
                | _ \<Rightarrow> Inr []) (\<lambda>chain.
        Inr \<lparr>dc_type = ty, dc_version = ver, dc_domain = dm, dc_active_fp = want,
             dc_active_pk = pk, dc_alg = alg, dc_status = status,
             dc_updated_at = time_of_unix upd, dc_authority = authority,
             dc_chain = chain\<rparr>))))))))))))))))"

definition ByFPPathFor :: "bytes \<Rightarrow> string" where
  "ByFPPathFor fp = ByFPPath @ encode_b64 fp"

text \<open>The host a document was fetched from must be one it declares.\<close>

definition CheckAuthority :: "externs \<Rightarrow> doc \<Rightarrow> string \<Rightarrow> gerr + unit" where
  "CheckAuthority E d fetchedHost =
     (let allowed = (if dc_authority d = [] then [dc_domain d] else dc_authority d) in
      if list_ex (\<lambda>a. case AuthorityHost E a [] of
                        Inl _ \<Rightarrow> False
                      | Inr host \<Rightarrow> equal_fold (ex_fold E) host fetchedHost) allowed
      then Inr ()
      else Inl (Msg ''identity resource served by %q, which its declared authority does not name (%v)''))"

section \<open>Stored chains\<close>

definition PackChain :: "externs \<Rightarrow> statement list \<Rightarrow> gerr + bytes" where
  "PackChain E chain =
     (if length chain > MaxChainEntries then Inl (Wrapped ''%w: %d entries'' (Sentinel ErrChainTooLong))
      else opt_err (Msg ''pack'') (ex_pack E (VList (map packStatement chain))))"

definition ParseChain :: "externs \<Rightarrow> bytes \<Rightarrow> gerr + statement list" where
  "ParseChain E raw =
     (if length raw = 0 then Inr []
      else if length raw > MaxChainBytes then Inl (Msg ''identity chain: %d bytes, max %d'')
      else
        try_bind (opt_err (Wrapped ''identity chain: %w'' (Msg ''unpack'')) (ex_unpack E raw)) (\<lambda>v.
          case v of
            VList entries \<Rightarrow> parse_entries E entries
          | _ \<Rightarrow> Inl (Msg ''identity chain: body is not a list'')))"

section \<open>Case analysis\<close>

lemma doc_field_Inr [result_simps]:
  "docAsMap v w = Inr m \<longleftrightarrow> v = Some (VMap m)"
  "docUtf8Field E m k = Inr s \<longleftrightarrow> map_get E m k = Some (VUtf8 s)"
  "docRawField E m k = Inr b \<longleftrightarrow> map_get E m k = Some (VRaw b)"
  "docLongField E m k = Inr n \<longleftrightarrow> map_get E m k = Some (VLong n)"
  by (auto simp: docAsMap_def docUtf8Field_def docRawField_def docLongField_def
      split: option.splits gvalue.splits)

section \<open>Statements survive storage\<close>

text \<open>What the wire can carry of a statement: whole seconds and full-length fingerprints.\<close>

definition storable :: "statement \<Rightarrow> bool" where
  "storable s \<longleftrightarrow> whole_seconds (st_not_before s) \<and> whole_seconds (st_created_at s)
     \<and> whole_seconds (st_expires_at s) \<and> length (st_old_fp s) = 32 \<and> length (st_new_fp s) = 32"

lemma packed_fields_distinct: "distinct (map fst (packed_fields s))"
  by (simp add: packed_fields_def)

lemma packed_fields_get:
  "map_get E (sort_key fst (packed_fields s)) k
     = (case map_of (packed_fields s) k of Some v \<Rightarrow> Some v | None \<Rightarrow> ex_absent E)"
  by (rule map_get_sorted [OF packed_fields_distinct])

lemma packed_keys: "set (map_keys (sort_key fst (packed_fields s))) \<subseteq> set statement_keys"
  by (auto simp: map_keys_def packed_fields_def statement_keys_def)

lemma packed_present:
  "''old_signature'' \<in> set (map_keys (sort_key fst (packed_fields s))) \<longleftrightarrow> st_old_signature s \<noteq> []"
  "''new_signature'' \<in> set (map_keys (sort_key fst (packed_fields s))) \<longleftrightarrow> st_new_signature s \<noteq> []"
  by (auto simp: map_keys_def packed_fields_def)

lemma packed_lookup:
  "map_of (packed_fields s) ''type'' = Some (VUtf8 (st_type s))"
  "map_of (packed_fields s) ''version'' = Some (VUtf8 (st_version s))"
  "map_of (packed_fields s) ''domain'' = Some (VUtf8 (st_domain s))"
  "map_of (packed_fields s) ''new_alg'' = Some (VUtf8 (st_new_alg s))"
  "map_of (packed_fields s) ''reason'' = Some (VUtf8 (st_reason s))"
  "map_of (packed_fields s) ''old_fp'' = Some (VRaw (st_old_fp s))"
  "map_of (packed_fields s) ''new_fp'' = Some (VRaw (st_new_fp s))"
  "map_of (packed_fields s) ''new_pk'' = Some (VRaw (st_new_pk s))"
  "map_of (packed_fields s) ''not_before'' = Some (VLong (unix_of_time (st_not_before s)))"
  "map_of (packed_fields s) ''created_at'' = Some (VLong (unix_of_time (st_created_at s)))"
  "map_of (packed_fields s) ''expires_at'' = Some (VLong (unix_of_time (st_expires_at s)))"
  "st_old_signature s \<noteq> [] \<Longrightarrow> map_of (packed_fields s) ''old_signature'' = Some (VRaw (st_old_signature s))"
  "st_new_signature s \<noteq> [] \<Longrightarrow> map_of (packed_fields s) ''new_signature'' = Some (VRaw (st_new_signature s))"
  by (simp_all add: packed_fields_def)

lemma unpack_pack_statement:
  assumes "storable s"
  shows "unpackStatement E (packStatement s) = Inr s"
proof -
  let ?m = "sort_key fst (packed_fields s)"
  have f: "docUtf8Field E ?m ''type'' = Inr (st_type s)"
    "docUtf8Field E ?m ''version'' = Inr (st_version s)" "docUtf8Field E ?m ''domain'' = Inr (st_domain s)"
    "docUtf8Field E ?m ''new_alg'' = Inr (st_new_alg s)" "docUtf8Field E ?m ''reason'' = Inr (st_reason s)"
    "docRawField E ?m ''old_fp'' = Inr (st_old_fp s)" "docRawField E ?m ''new_fp'' = Inr (st_new_fp s)"
    "docRawField E ?m ''new_pk'' = Inr (st_new_pk s)"
    "docLongField E ?m ''not_before'' = Inr (unix_of_time (st_not_before s))"
    "docLongField E ?m ''created_at'' = Inr (unix_of_time (st_created_at s))"
    "docLongField E ?m ''expires_at'' = Inr (unix_of_time (st_expires_at s))"
    unfolding doc_field_Inr packed_fields_get by (simp_all add: packed_lookup)
  have sig: "(if st_old_signature s \<noteq> [] then docRawField E ?m ''old_signature'' else Inr [])
      = Inr (st_old_signature s)"
    "(if st_new_signature s \<noteq> [] then docRawField E ?m ''new_signature'' else Inr [])
      = Inr (st_new_signature s)"
    by (simp_all add: result_simps packed_fields_get packed_lookup)
  have known: "\<not> list_ex (\<lambda>k. k \<notin> set statement_keys) (map_keys ?m)"
    using packed_keys [of s] by (auto simp: list_ex_iff)
  show ?thesis
    unfolding unpackStatement_def packStatement_def sorted_map_of_def
    using assms known
    by (simp add: docAsMap_def f packed_present sig storable_def time_of_unix_of_time del: map_keys_def)
qed

lemma parse_packed_entries:
  "list_all storable chain \<Longrightarrow> length chain \<le> MaxChainEntries
     \<Longrightarrow> parse_entries E (map packStatement chain) = Inr chain"
  by (simp add: parse_entries_def)
    (rule try_map_map, auto simp: list_all_iff unpack_pack_statement)

lemma ParseChain_PackChain:
  assumes "PackChain E chain = Inr raw" and "codec_law E (VList (map packStatement chain))"
    and "list_all storable chain" and "raw \<noteq> []" and "length raw \<le> MaxChainBytes"
  shows "ParseChain E raw = Inr chain"
  using assms
  by (auto simp: PackChain_def ParseChain_def result_simps codec_law_def parse_packed_entries)

section \<open>The document round trip\<close>

lemma doc_fields_distinct: "distinct (map fst (doc_fields dm d))"
  by (simp add: doc_fields_def)

lemma PackDoc_Inr:
  "PackDoc E d = Inr raw \<longleftrightarrow>
     (\<exists>dm. NormalizeDomain E (dc_domain d) = Inr dm
        \<and> length (dc_chain d) \<le> MaxChainEntries \<and> length (dc_authority d) \<le> MaxAuthorityEntries
        \<and> list_all (canonical_domain E) (dc_authority d)
        \<and> ex_pack E (sorted_map_of (doc_fields dm d)) = Some raw)"
  unfolding PackDoc_def try_map_check [symmetric, of _ _
      "''identity resource: authority %q is not in canonical form (want %q)''"]
  by (auto simp: result_simps not_less)

definition doc_ok :: "externs \<Rightarrow> doc \<Rightarrow> bool" where
  "doc_ok E d \<longleftrightarrow> dc_type d = DocType \<and> dc_version d = Version \<and> dc_alg d = Alg
     \<and> canonical_domain E (dc_domain d)
     \<and> FingerprintOf E (dc_domain d) (dc_active_pk d) = Inr (dc_active_fp d)
     \<and> list_all (canonical_domain E) (dc_authority d) \<and> length (dc_authority d) \<le> MaxAuthorityEntries
     \<and> length (dc_chain d) \<le> MaxChainEntries"

lemma try_map_docAuthority:
  "try_map (docAuthorityItem E) items = Inr as \<Longrightarrow> list_all (canonical_domain E) as"
  by (auto simp: list_all_iff docAuthorityItem_def dest!: try_map_set split: gvalue.splits if_splits)

lemma docAuthorityField_Inr:
  "docAuthorityField E m = Inr as \<Longrightarrow>
     list_all (canonical_domain E) as \<and> length as \<le> MaxAuthorityEntries"
  by (auto simp: docAuthorityField_def result_simps MaxAuthorityEntries_def
      dest: try_map_docAuthority try_map_length split: option.splits gvalue.splits)

lemma parse_entries_Inr: "parse_entries E es = Inr chain \<Longrightarrow> length chain \<le> MaxChainEntries"
  by (auto simp: parse_entries_def result_simps dest: try_map_length)

definition chain_field :: "externs \<Rightarrow> gvalue option \<Rightarrow> gerr + statement list" where
  "chain_field E v = (case v of Some (VList entries) \<Rightarrow> parse_entries E entries | _ \<Rightarrow> Inr [])"

lemma chain_field_Inr: "chain_field E v = Inr chain \<Longrightarrow> length chain \<le> MaxChainEntries"
  by (auto simp: chain_field_def dest: parse_entries_Inr split: option.splits gvalue.splits)

text \<open>Whatever the parser accepts is self-consistent and about the domain asked for.\<close>

lemma ParseDoc_ok:
  assumes "idna_ldh E" and "ParseDoc E domain raw = Inr d"
  shows "doc_ok E d" and "NormalizeDomain E domain = Inr (dc_domain d)"
proof -
  show "NormalizeDomain E domain = Inr (dc_domain d)"
    using assms(2) by (auto simp: ParseDoc_def result_simps)
  then have "canonical_domain E (dc_domain d)" using assms(1) by (rule canonical_normalized [rotated])
  moreover have "dc_type d = DocType \<and> dc_version d = Version \<and> dc_alg d = Alg
     \<and> FingerprintOf E (dc_domain d) (dc_active_pk d) = Inr (dc_active_fp d)
     \<and> (\<exists>m. docAuthorityField E m = Inr (dc_authority d))
     \<and> (\<exists>v. chain_field E v = Inr (dc_chain d))"
    using assms(2) unfolding ParseDoc_def chain_field_def [symmetric]
    by (auto simp: result_simps)
  ultimately show "doc_ok E d"
    by (auto simp: doc_ok_def dest: docAuthorityField_Inr chain_field_Inr)
qed

lemma doc_authority_items: "list_all (canonical_domain E) as \<Longrightarrow>
  try_map (docAuthorityItem E) (map VUtf8 as) = Inr as"
  by (rule try_map_map) (auto simp: docAuthorityItem_def list_all_iff)

lemma ParseDoc_PackDoc:
  assumes ok: "doc_ok E d" and p: "PackDoc E d = Inr raw" and absent: "absent_law E"
    and codec: "codec_law E (sorted_map_of (doc_fields (dc_domain d) d))"
    and sz: "length raw \<le> MaxChainBytes" and sha: "sha256_len E"
    and st: "list_all storable (dc_chain d)" and upd: "whole_seconds (dc_updated_at d)"
  shows "ParseDoc E (dc_domain d) raw = Inr d"
proof -
  let ?kvs = "doc_fields (dc_domain d) d"
  let ?m = "sort_key fst ?kvs"
  have n: "NormalizeDomain E (dc_domain d) = Inr (dc_domain d)"
    using ok by (simp add: doc_ok_def canonical_domain_def)
  with p codec have un: "ex_unpack E raw = Some (VMap ?m)"
    by (auto simp: PackDoc_Inr codec_law_def sorted_map_of_def)
  note get = map_get_sorted [OF doc_fields_distinct]
  have bk: "boundedDocKeys E ?m
      [''type'', ''version'', ''domain'', ''active_fp'', ''active_pk'', ''alg'',
       ''status'', ''updated_at'', ''chain''] [''authority''] = Inr ()"
    unfolding boundedDocKeys_def map_keys_def get list_ex_iff
    by (auto simp: doc_fields_def split: if_splits)
  have au: "docAuthorityField E ?m = Inr (dc_authority d)"
    using absent ok doc_authority_items [of E "dc_authority d"] unfolding docAuthorityField_def get
    by (auto simp: doc_fields_def absent_law_def doc_ok_def)
  have f: "docUtf8Field E ?m ''type'' = Inr DocType" "docUtf8Field E ?m ''version'' = Inr Version"
    "docUtf8Field E ?m ''domain'' = Inr (dc_domain d)" "docUtf8Field E ?m ''alg'' = Inr Alg"
    "docUtf8Field E ?m ''status'' = Inr (dc_status d)"
    "docLongField E ?m ''updated_at'' = Inr (unix_of_time (dc_updated_at d))"
    "docRawField E ?m ''active_pk'' = Inr (dc_active_pk d)"
    "docRawField E ?m ''active_fp'' = Inr (dc_active_fp d)"
    "map_get E ?m ''chain'' = Some (VList (map packStatement (dc_chain d)))"
    unfolding doc_field_Inr get by (simp_all add: doc_fields_def)
  have fp: "FingerprintOf E (dc_domain d) (dc_active_pk d) = Inr (dc_active_fp d)"
    using ok by (simp add: doc_ok_def)
  then have len: "length (dc_active_pk d) = PublicKeySize" "length (dc_active_fp d) = 32"
    using sha by (auto simp: FingerprintOf_Inr sha256_len_def)
  have ch: "parse_entries E (map packStatement (dc_chain d)) = Inr (dc_chain d)"
    using ok st by (simp add: doc_ok_def parse_packed_entries)
  have eta: "\<lparr>dc_type = DocType, dc_version = Version, dc_domain = dc_domain d,
      dc_active_fp = dc_active_fp d, dc_active_pk = dc_active_pk d, dc_alg = Alg,
      dc_status = dc_status d, dc_updated_at = dc_updated_at d, dc_authority = dc_authority d,
      dc_chain = dc_chain d\<rparr> = d" using ok by (simp add: doc_ok_def)
  show ?thesis
    using sz by (simp add: ParseDoc_def n un docAsMap_def bk au f fp len ch
        time_of_unix_of_time [OF upd] eta)
qed

text \<open>What was packed is parsed with the constant fields filled in and the domain normalized, under any
  spelling of the domain.\<close>

definition completed :: "string \<Rightarrow> doc \<Rightarrow> doc" where
  "completed dm d = d\<lparr>dc_type := DocType, dc_version := Version, dc_domain := dm, dc_alg := Alg\<rparr>"

lemma completed_fields [simp]: "doc_fields dm (completed dm d) = doc_fields dm d"
  by (simp add: completed_def doc_fields_def)

lemma ParseDoc_completed:
  assumes idna: "idna_ldh E" and n: "NormalizeDomain E domain = Inr dm"
    and p: "PackDoc E d = Inr raw" and nd: "NormalizeDomain E (dc_domain d) = Inr dm"
    and fp: "FingerprintOf E dm (dc_active_pk d) = Inr (dc_active_fp d)"
    and absent: "absent_law E" and codec: "codec_law E (sorted_map_of (doc_fields dm d))"
    and sz: "length raw \<le> MaxChainBytes" and sha: "sha256_len E"
    and st: "list_all storable (dc_chain d)" and upd: "whole_seconds (dc_updated_at d)"
  shows "ParseDoc E domain raw = Inr (completed dm d)"
proof -
  have dm: "NormalizeDomain E dm = Inr dm" using idna nd by (rule normalize_idempotent)
  have sel: "dc_domain (completed dm d) = dm" "dc_chain (completed dm d) = dc_chain d"
    "dc_authority (completed dm d) = dc_authority d" "dc_updated_at (completed dm d) = dc_updated_at d"
    by (simp_all add: completed_def)
  have "doc_ok E (completed dm d)"
    using p fp dm by (auto simp: doc_ok_def PackDoc_Inr completed_def canonical_domain_def)
  moreover have "PackDoc E (completed dm d) = Inr raw"
    using p nd dm by (auto simp: PackDoc_Inr sel)
  ultimately have "ParseDoc E dm raw = Inr (completed dm d)"
    using ParseDoc_PackDoc [of E "completed dm d" raw] absent codec sz sha st upd by (simp add: sel)
  moreover have "ParseDoc E domain raw = ParseDoc E dm raw" unfolding ParseDoc_def n dm ..
  ultimately show ?thesis by simp
qed

lemma CheckAuthority_Inr:
  "CheckAuthority E d h = Inr () \<longleftrightarrow>
     (\<exists>a \<in> set (if dc_authority d = [] then [dc_domain d] else dc_authority d).
        \<exists>host. AuthorityHost E a [] = Inr host \<and> equal_fold (ex_fold E) host h)"
proof -
  have "(case r of Inl _ \<Rightarrow> False | Inr host \<Rightarrow> P host) \<longleftrightarrow> (\<exists>host. r = Inr host \<and> P host)"
    for r :: "gerr + string" and P by (cases r) auto
  then show ?thesis by (simp add: CheckAuthority_def list_ex_iff Let_def)
qed

end
