(* ===== verification/Dial.thy ===== *)
theory Dial
  imports Errors Go_Net
begin

text \<open>
  \<^verbatim>\<open>resolver/dial.go\<close>: which addresses the authority client connects to, and the dialer
  that applies the policy to every address it is about to use.  The predicates of
  \<^verbatim>\<open>net/netip\<close> are written out on the 32 or 128 bits of an address; an IPv6 address
  carries its zone, because a prefix contains no zoned address.  Establishing a connection
  is a parameter; the dialer also returns the addresses it tried.
\<close>

unbundle bit_operations_syntax

section \<open>The predicates of netip\<close>

fun IsValid :: "ip_addr \<Rightarrow> bool" where
  "IsValid NoAddr = False"
| "IsValid _ = True"

fun Is4In6 :: "ip_addr \<Rightarrow> bool" where
  "Is4In6 (IPv6 a z) = (drop_bit 32 a = 0xFFFF)"
| "Is4In6 _ = False"

fun Unmap :: "ip_addr \<Rightarrow> ip_addr" where
  "Unmap (IPv6 a z) = (if Is4In6 (IPv6 a z) then IPv4 (ucast a) else IPv6 a z)"
| "Unmap x = x"

fun IsUnspecified :: "ip_addr \<Rightarrow> bool" where
  "IsUnspecified (IPv4 a) = (a = 0)"
| "IsUnspecified (IPv6 a z) = (a = 0 \<and> z = [])"
| "IsUnspecified NoAddr = False"

fun IsMulticast :: "ip_addr \<Rightarrow> bool" where
  "IsMulticast (IPv4 a) = (drop_bit 24 a AND 0xF0 = 0xE0)"
| "IsMulticast (IPv6 a z) = (drop_bit 120 a = 0xFF)"
| "IsMulticast NoAddr = False"

fun IsInterfaceLocalMulticast :: "ip_addr \<Rightarrow> bool" where
  "IsInterfaceLocalMulticast (IPv6 a z) = (drop_bit 112 a AND 0xFF0F = 0xFF01)"
| "IsInterfaceLocalMulticast _ = False"

fun IsLinkLocalUnicast :: "ip_addr \<Rightarrow> bool" where
  "IsLinkLocalUnicast (IPv4 a) = (drop_bit 24 a = 169 \<and> drop_bit 16 a AND 0xFF = 254)"
| "IsLinkLocalUnicast (IPv6 a z) = (drop_bit 112 a AND 0xFFC0 = 0xFE80)"
| "IsLinkLocalUnicast NoAddr = False"

fun IsLinkLocalMulticast :: "ip_addr \<Rightarrow> bool" where
  "IsLinkLocalMulticast (IPv4 a) = (drop_bit 8 a = 0xE00000)"
| "IsLinkLocalMulticast (IPv6 a z) = (drop_bit 112 a AND 0xFF0F = 0xFF02)"
| "IsLinkLocalMulticast NoAddr = False"

fun IsLoopback :: "ip_addr \<Rightarrow> bool" where
  "IsLoopback (IPv4 a) = (drop_bit 24 a = 127)"
| "IsLoopback (IPv6 a z) = (a = 1)"
| "IsLoopback NoAddr = False"

fun IsPrivate :: "ip_addr \<Rightarrow> bool" where
  "IsPrivate (IPv4 a) =
     (drop_bit 24 a = 10
      \<or> drop_bit 24 a = 172 \<and> drop_bit 16 a AND 0xF0 = 16
      \<or> drop_bit 24 a = 192 \<and> drop_bit 16 a AND 0xFF = 168)"
| "IsPrivate (IPv6 a z) = (drop_bit 120 a AND 0xFE = 0xFC)"
| "IsPrivate NoAddr = False"

text \<open>\<^verbatim>\<open>Prefix.Contains\<close>: a zoned address is in no prefix.\<close>

datatype ip_prefix = Prefix4 "32 word" nat | Prefix6 "128 word" nat

fun Contains :: "ip_prefix \<Rightarrow> ip_addr \<Rightarrow> bool" where
  "Contains (Prefix4 p bits) (IPv4 a) = (drop_bit (32 - bits) (a XOR p) = 0)"
| "Contains (Prefix6 p bits) (IPv6 a z) = (z = [] \<and> drop_bit (128 - bits) (a XOR p) = 0)"
| "Contains _ _ = False"

section \<open>The policy\<close>

definition reservedRanges :: "ip_prefix list" where
  "reservedRanges =
     [Prefix4 (word_of_octets [100, 64, 0, 0]) 10,
      Prefix4 (word_of_octets [192, 0, 0, 0]) 24,
      Prefix4 (word_of_octets [192, 0, 2, 0]) 24,
      Prefix4 (word_of_octets [198, 18, 0, 0]) 15,
      Prefix4 (word_of_octets [198, 51, 100, 0]) 24,
      Prefix4 (word_of_octets [203, 0, 113, 0]) 24,
      Prefix4 (word_of_octets [240, 0, 0, 0]) 4,
      Prefix4 (word_of_octets [255, 255, 255, 255]) 32,
      Prefix6 0x0064FF9B000000000000000000000000 96,
      Prefix6 0x01000000000000000000000000000000 64,
      Prefix6 0x20010DB8000000000000000000000000 32]"

definition privateRanges :: "ip_prefix list" where
  "privateRanges = [Prefix6 0xFC000000000000000000000000000000 7]"

record address_policy =
  ap_allow_private :: bool

definition Permit :: "address_policy \<Rightarrow> ip_addr \<Rightarrow> gerr + unit" where
  "Permit p addr0 =
     (if \<not> IsValid addr0 then Inl (Msg ''invalid address'')
      else
        let addr = (if Is4In6 addr0 then Unmap addr0 else addr0) in
        if IsUnspecified addr then Inl (Msg ''address %s is unspecified'')
        else if IsMulticast addr \<or> IsInterfaceLocalMulticast addr
          then Inl (Msg ''address %s is multicast'')
        else if IsLinkLocalUnicast addr \<or> IsLinkLocalMulticast addr
          then Inl (Msg ''address %s is link-local (metadata services are never MKDP1 authorities)'')
        else if list_ex (\<lambda>r. Contains r addr) reservedRanges
          then Inl (Msg ''address %s is in the reserved range %s'')
        else if \<not> ap_allow_private p then
          if IsLoopback addr then Inl (Msg ''address %s is loopback'')
          else if IsPrivate addr then Inl (Msg ''address %s is in a private range'')
          else if list_ex (\<lambda>r. Contains r addr) privateRanges
            then Inl (Msg ''address %s is in the private range %s'')
          else Inr ()
        else Inr ())"

section \<open>Dialing\<close>

record 'c dialer =
  dl_policy :: address_policy
  dl_lookup :: "string \<Rightarrow> gerr + ip_addr list"
  dl_port :: string
  dl_connect :: "ip_addr \<Rightarrow> string \<Rightarrow> gerr + 'c" \<comment> \<open>\<^verbatim>\<open>net.Dialer\<close> on an address and a port\<close>
  dl_domain :: string

text \<open>The loop over the candidates: addresses tried, then the connection, or the first
  refusal and the last dialing error.\<close>

fun dial_loop ::
  "'c dialer \<Rightarrow> gerr option \<Rightarrow> gerr option \<Rightarrow> ip_addr list
     \<Rightarrow> ip_addr list \<times> (gerr option \<times> gerr option + 'c)" where
  "dial_loop d refused lastDial [] = ([], Inl (refused, lastDial))"
| "dial_loop d refused lastDial (a # as) =
     (case Permit (dl_policy d) a of
        Inl perr \<Rightarrow> dial_loop d (if refused = None then Some perr else refused) lastDial as
      | Inr _ \<Rightarrow>
          (case dl_connect d a (dl_port d) of
             Inr c \<Rightarrow> ([a], Inr c)
           | Inl derr \<Rightarrow>
               (case dial_loop d refused (Some derr) as of (tried, r) \<Rightarrow> (a # tried, r))))"

definition DialContext :: "'c dialer \<Rightarrow> string \<Rightarrow> ip_addr list \<times> (gerr + 'c)" where
  "DialContext d addr =
     (case split_host_port addr of
        None \<Rightarrow> ([], Inl (Fail FailurePolicy (dl_domain d) (Msg ''address'')))
      | Some (host, port) \<Rightarrow>
          if port \<noteq> dl_port d
          then ([], Inl (Failf FailurePolicy (dl_domain d) ''MKDP1 connects only to port %s, not %s''))
          else
            (case (case parse_addr host of
                     Some lit \<Rightarrow> Inr [lit]
                   | None \<Rightarrow> dl_lookup d host) of
               Inl e \<Rightarrow> ([], Inl (Fail FailureNetwork (dl_domain d) e))
             | Inr addrs \<Rightarrow>
                 if addrs = [] then ([], Inl (Failf FailureNetwork (dl_domain d) ''no addresses for %s''))
                 else
                   (case dial_loop d None None addrs of
                      (tried, Inr c) \<Rightarrow> (tried, Inr c)
                    | (tried, Inl (refused, Some e)) \<Rightarrow>
                        (tried, Inl (Fail FailureNetwork (dl_domain d) e))
                    | (tried, Inl (refused, None)) \<Rightarrow>
                        (tried, Inl (Failf FailurePolicy (dl_domain d)
                           ''the authority for %s resolves to no permitted address: %v'')))))"

section \<open>Words and octets\<close>

lemma xor_zero: "(a :: 'a::len word) XOR b = 0 \<longleftrightarrow> a = b"
proof
  assume "a XOR b = 0"
  then have "(a XOR b) XOR b = 0 XOR b" by simp
  then show "a = b" by (simp add: ac_simps)
qed simp

lemma unat_drop: "unat (drop_bit n (a :: 'a::len word)) = unat a div 2 ^ n"
  by (simp only: unat_drop_bit_eq drop_bit_nat_def)

lemma unat_take: "unat (take_bit n (a :: 'a::len word)) = unat a mod 2 ^ n"
  by (simp only: unsigned_take_bit_eq take_bit_nat_def)

lemma drop_eq: "drop_bit n a = (w :: 'a::len word) \<longleftrightarrow> unat a div 2 ^ n = unat w"
  by (simp only: word_unat_eq_iff unat_drop)

lemma contains_div: "drop_bit n ((a :: 'a::len word) XOR p) = 0 \<longleftrightarrow> unat a div 2 ^ n = unat p div 2 ^ n"
  by (simp only: drop_bit_xor xor_zero drop_eq unat_drop)

text \<open>A test of the top bits of a field, and of a whole byte inside a word.\<close>

lemma and_high: "(x :: 'a::len word) AND push_bit n (mask m) = push_bit n (take_bit m (drop_bit n x))"
  by (rule bit_eqI) (auto simp: bit_simps)

lemma push_take_eq:
  assumes "n + m \<le> LENGTH('a)"
  shows "push_bit n (take_bit m (y :: 'a::len word)) = push_bit n (take_bit m z) \<longleftrightarrow> take_bit m y = take_bit m z"
proof
  assume e: "push_bit n (take_bit m y) = push_bit n (take_bit m z)"
  have "drop_bit n (push_bit n (take_bit m w)) = take_bit m w" for w :: "'a word"
    by (rule bit_eqI) (use assms in \<open>auto simp: bit_simps\<close>)
  then show "take_bit m y = take_bit m z" using e by metis
qed simp

lemma high_test:
  assumes "n + m \<le> LENGTH('a)"
  shows "drop_bit k (x :: 'a::len word) AND push_bit n (mask m) = push_bit n (take_bit m z)
     \<longleftrightarrow> unat x div 2 ^ (k + n) mod 2 ^ m = unat z mod 2 ^ m"
  unfolding and_high unfolding push_take_eq [OF assms]
  unfolding word_unat_eq_iff unat_take unat_drop
  by (simp only: power_add flip: div_mult2_eq)

lemma unat_octets4:
  assumes "a < 256" "b < 256" "c < 256" "d < 256"
  shows "unat (word_of_octets [a, b, c, d] :: 32 word) = ((a * 256 + b) * 256 + c) * 256 + d"
proof -
  have "((a * 256 + b) * 256 + c) * 256 + d < 2 ^ LENGTH(32)" using assms by simp
  from take_bit_nat_eq_self [OF this] show ?thesis
    by (simp only: word_of_octets_def foldl.simps mult_zero_left mult_zero_right add_0 unsigned_of_nat of_nat_id mult.commute [of 256])
qed

lemma octet_div:
  assumes "a < 256" "b < 256" "c < 256" "d < (256::nat)"
  defines "N \<equiv> ((a * 256 + b) * 256 + c) * 256 + d"
  shows "N div 256 = (a * 256 + b) * 256 + c" and "N div 65536 = a * 256 + b" and "N div 16777216 = a"
    and "N div 268435456 = a div 16" and "N div 1048576 = (a * 256 + b) div 16"
proof -
  show 1: "N div 256 = (a * 256 + b) * 256 + c" and 2: "N div 65536 = a * 256 + b" and 3: "N div 16777216 = a"
    using assms by simp_all
  show "N div 268435456 = a div 16" and "N div 1048576 = (a * 256 + b) div 16"
    using 2 3 div_mult2_eq [of N 16777216 16] div_mult2_eq [of N 65536 16] by simp_all
qed

lemma digit_eq: "c < B \<Longrightarrow> r < B \<Longrightarrow> x * B + c = y * B + r \<longleftrightarrow> x = y \<and> c = (r::nat)"
proof
  assume b: "c < B" "r < B" and e: "x * B + c = y * B + r"
  from b have "(x * B + c) div B = x" "(y * B + r) div B = y" by simp_all
  then have "x = y" using e by simp
  then show "x = y \<and> c = r" using e by simp
qed simp

lemma div_interval: "0 < k \<Longrightarrow> b div k = q \<longleftrightarrow> k * q \<le> b \<and> b < k * q + (k::nat)"
  using times_div_less_eq_dividend [of k b] dividend_less_times_div [of k b]
  by (auto intro: div_nat_eqI simp: ac_simps)

lemma digits3_eq:
  "b < 256 \<Longrightarrow> c < 256 \<Longrightarrow> q < 256 \<Longrightarrow> r < 256 \<Longrightarrow>
     (a * 256 + b) * 256 + c = (p * 256 + q) * 256 + r \<longleftrightarrow> a = p \<and> b = q \<and> c = (r::nat)"
  by (simp only: digit_eq) blast

text \<open>Three octets against a number, its octets given.\<close>

lemma octets3_num:
  "b < 256 \<Longrightarrow> c < 256 \<Longrightarrow> q < 256 \<Longrightarrow> r < 256 \<Longrightarrow> n = (p * 256 + q) * 256 + r \<Longrightarrow>
     (a * 256 + b) * 256 + c = n \<longleftrightarrow> a = p \<and> b = q \<and> c = (r::nat)"
  by (simp only: digits3_eq)

lemma low_digit_div:
  "(a * 256 + b) div 64 = a * 4 + b div (64::nat)"
  "(a * 256 + b) div 16 = a * 16 + b div (16::nat)"
  "(a * 256 + b) div 2 = a * 128 + b div (2::nat)"
  using div_mult_self1 [of 64 b "a * 4"] div_mult_self1 [of 16 b "a * 16"] div_mult_self1 [of 2 b "a * 128"]
  by (simp_all add: ac_simps)

section \<open>What the policy admits\<close>

text \<open>The tests on an IPv4 address, on its octets.\<close>

lemma v4_tests:
  fixes a b c d :: nat
  assumes o: "a < 256" "b < 256" "c < 256" "d < 256"
  defines "x \<equiv> IPv4 (word_of_octets [a, b, c, d])"
  shows "IsUnspecified x \<longleftrightarrow> a = 0 \<and> b = 0 \<and> c = 0 \<and> d = 0"
    and "IsMulticast x \<longleftrightarrow> 224 \<le> a \<and> a < 240"
    and "IsLinkLocalUnicast x \<longleftrightarrow> a = 169 \<and> b = 254"
    and "IsLinkLocalMulticast x \<longleftrightarrow> a = 224 \<and> b = 0 \<and> c = 0"
    and "IsLoopback x \<longleftrightarrow> a = 127"
    and "IsPrivate x \<longleftrightarrow> a = 10 \<or> a = 172 \<and> 16 \<le> b \<and> b < 32 \<or> a = 192 \<and> b = 168"
proof -
  note u = unat_octets4 [OF o] and dv = octet_div [OF o]
  have F0: "drop_bit k y AND 0xF0 = v \<longleftrightarrow> unat y div 2 ^ (k + 4) mod 16 = unat v div 16 mod 16"
    if "v = push_bit 4 (take_bit 4 (drop_bit 4 v))" for y v :: "32 word" and k
    using high_test [of 4 4 k y "drop_bit 4 v"] that
    by (simp add: unat_drop mask_eq_exp_minus_1)
  have FF: "drop_bit k y AND 0xFF = v \<longleftrightarrow> unat y div 2 ^ k mod 256 = unat v mod 256"
    if "take_bit 8 v = v" for y v :: "32 word" and k
    using high_test [of 0 8 k y v] unfolding that by (simp add: mask_eq_exp_minus_1)
  show "IsUnspecified x \<longleftrightarrow> a = 0 \<and> b = 0 \<and> c = 0 \<and> d = 0"
    using u by (simp add: x_def word_unat_eq_iff [of _ 0])
  show "IsLoopback x \<longleftrightarrow> a = 127"
    using dv o by (simp add: x_def drop_eq u)
  show "IsLinkLocalMulticast x \<longleftrightarrow> a = 224 \<and> b = 0 \<and> c = 0"
  proof -
    have "IsLinkLocalMulticast x \<longleftrightarrow> (a * 256 + b) * 256 + c = 14680064"
      unfolding x_def IsLinkLocalMulticast.simps drop_eq u using dv(1) by simp
    also have "\<dots> \<longleftrightarrow> a = 224 \<and> b = 0 \<and> c = 0" by (rule octets3_num) (use o in simp_all)
    finally show ?thesis .
  qed
  have "a div 16 < 16" using o(1) by simp
  then have "IsMulticast x \<longleftrightarrow> a div 16 = 14"
    unfolding x_def IsMulticast.simps using F0 [of "0xE0" 24 "word_of_octets [a, b, c, d]"] u dv(4) by simp
  then show "IsMulticast x \<longleftrightarrow> 224 \<le> a \<and> a < 240" by (simp add: div_interval)
  have b8: "drop_bit 16 (word_of_octets [a, b, c, d] :: 32 word) AND 0xFF = v \<longleftrightarrow> b = unat v"
    if "take_bit 8 v = v" "unat v < 256" for v
  proof -
    have "(a * 256 + b) mod 256 = b" using o(2) by simp
    then show ?thesis using FF [OF that(1), of 16 "word_of_octets [a, b, c, d]"] u dv(2) that(2) by simp
  qed
  have b4: "drop_bit 16 (word_of_octets [a, b, c, d] :: 32 word) AND 0xF0 = 16 \<longleftrightarrow> b div 16 = 1"
  proof -
    have "b div 16 < 16" using o(2) by simp
    then have "(a * 256 + b) div 16 mod 16 = b div 16" unfolding low_digit_div by simp
    then show ?thesis using F0 [of "16" 16 "word_of_octets [a, b, c, d]"] u dv(5) by simp
  qed
  have top: "drop_bit 24 (word_of_octets [a, b, c, d] :: 32 word) = v \<longleftrightarrow> a = unat v" for v
    unfolding drop_eq u using dv(3) by simp
  show "IsLinkLocalUnicast x \<longleftrightarrow> a = 169 \<and> b = 254"
    unfolding x_def IsLinkLocalUnicast.simps top by (subst b8) simp_all
  have "b div 16 = 1 \<longleftrightarrow> 16 \<le> b \<and> b < 32" by (simp add: div_interval)
  then show "IsPrivate x \<longleftrightarrow> a = 10 \<or> a = 172 \<and> 16 \<le> b \<and> b < 32 \<or> a = 192 \<and> b = 168"
    unfolding x_def IsPrivate.simps top b4 by (subst b8) simp_all
qed

lemma contains4:
  fixes p :: "32 word" and a b c d :: nat
  assumes "a < 256" "b < 256" "c < 256" "d < 256" and "p0 < 256" "p1 < 256" "p2 < 256" "p3 < 256"
  shows "Contains (Prefix4 (word_of_octets [p0, p1, p2, p3]) n) (IPv4 (word_of_octets [a, b, c, d]))
    \<longleftrightarrow> (((a * 256 + b) * 256 + c) * 256 + d) div 2 ^ (32 - n)
       = (((p0 * 256 + p1) * 256 + p2) * 256 + p3) div 2 ^ (32 - n)"
  by (simp only: Contains.simps contains_div unat_octets4 assms)

text \<open>The reserved blocks of IPv4, on octets.\<close>

definition reserved4 :: "nat \<Rightarrow> nat \<Rightarrow> nat \<Rightarrow> bool" where
  "reserved4 a b c \<longleftrightarrow> a = 100 \<and> 64 \<le> b \<and> b < 128 \<or> a = 192 \<and> b = 0 \<and> (c = 0 \<or> c = 2)
     \<or> a = 198 \<and> (b = 18 \<or> b = 19) \<or> a = 198 \<and> b = 51 \<and> c = 100
     \<or> a = 203 \<and> b = 0 \<and> c = 113 \<or> 240 \<le> a"

lemma reserved_octets:
  fixes a b c d :: nat
  assumes o: "a < 256" "b < 256" "c < 256" "d < 256"
  shows "list_ex (\<lambda>r. Contains r (IPv4 (word_of_octets [a, b, c, d]))) reservedRanges
     \<longleftrightarrow> reserved4 a b c"
proof -
  define N where "N = ((a * 256 + b) * 256 + c) * 256 + d"
  have n: "N div 256 = (a * 256 + b) * 256 + c" "N div 16777216 = a" "N div 65536 = a * 256 + b"
    using octet_div [OF o] by (simp_all only: N_def)
  have n2: "N div 4194304 = (N div 65536) div 64" "N div 131072 = (N div 65536) div 2"
     "N div 268435456 = (N div 16777216) div 16"
    by (simp_all flip: div_mult2_eq)
  have no6: "\<not> Contains (Prefix6 q n) (IPv4 x)" for q n x by simp
  have "list_ex (\<lambda>r. Contains r (IPv4 (word_of_octets [a, b, c, d]))) reservedRanges \<longleftrightarrow>
      N div 4194304 = 401 \<or> N div 256 = 12582912 \<or> N div 256 = 12582914 \<or> N div 131072 = 25353
      \<or> N div 256 = 12989284 \<or> N div 256 = 13303921 \<or> N div 268435456 = 15 \<or> N = 4294967295"
    by (simp add: reservedRanges_def contains4 o N_def no6 del: Contains.simps)
  also have "\<dots> \<longleftrightarrow> (a * 256 + b) div 64 = 401 \<or> (a * 256 + b) * 256 + c = 12582912
      \<or> (a * 256 + b) * 256 + c = 12582914 \<or> (a * 256 + b) div 2 = 25353
      \<or> (a * 256 + b) * 256 + c = 12989284 \<or> (a * 256 + b) * 256 + c = 13303921 \<or> 240 \<le> a"
  proof -
    have "a div 16 = 15 \<longleftrightarrow> 240 \<le> a" using o(1) by (simp add: div_interval)
    moreover have "240 \<le> a" if "N = 4294967295" using n(2) unfolding that by simp
    ultimately show ?thesis unfolding n2 unfolding n by blast
  qed
  also have "\<dots> \<longleftrightarrow> reserved4 a b c"
  proof -
    have "b div 64 < 4" "b div 2 < 128" using o(2) by simp_all
    then have "(a * 256 + b) div 64 = 401 \<longleftrightarrow> a = 100 \<and> b div 64 = 1"
      and "(a * 256 + b) div 2 = 25353 \<longleftrightarrow> a = 198 \<and> b div 2 = 9"
      unfolding low_digit_div using digit_eq [of "b div 64" 4 1 a 100] digit_eq [of "b div 2" 128 9 a 198] by simp_all
    moreover have "b div 64 = 1 \<longleftrightarrow> 64 \<le> b \<and> b < 128" and "b div 2 = 9 \<longleftrightarrow> b = 18 \<or> b = 19"
      by (auto simp: div_interval)
    ultimately have "(a * 256 + b) div 64 = 401 \<longleftrightarrow> a = 100 \<and> 64 \<le> b \<and> b < 128"
      and "(a * 256 + b) div 2 = 25353 \<longleftrightarrow> a = 198 \<and> (b = 18 \<or> b = 19)" by blast+
    moreover have "(a * 256 + b) * 256 + c = 12582912 \<longleftrightarrow> a = 192 \<and> b = 0 \<and> c = 0"
      and "(a * 256 + b) * 256 + c = 12582914 \<longleftrightarrow> a = 192 \<and> b = 0 \<and> c = 2"
      and "(a * 256 + b) * 256 + c = 12989284 \<longleftrightarrow> a = 198 \<and> b = 51 \<and> c = 100"
      and "(a * 256 + b) * 256 + c = 13303921 \<longleftrightarrow> a = 203 \<and> b = 0 \<and> c = 113"
      by (rule octets3_num; use o(2,3) in simp)+
    ultimately show ?thesis unfolding reserved4_def by argo
  qed
  finally show ?thesis .
qed

definition private4 :: "nat \<Rightarrow> nat \<Rightarrow> bool" where
  "private4 a b \<longleftrightarrow> a = 10 \<or> a = 127 \<or> a = 172 \<and> 16 \<le> b \<and> b < 32 \<or> a = 192 \<and> b = 168"

text \<open>The whole policy on IPv4.\<close>

lemma Permit_v4:
  fixes a b c d :: nat
  assumes o: "a < 256" "b < 256" "c < 256" "d < 256"
  shows "Permit p (IPv4 (word_of_octets [a, b, c, d])) = Inr () \<longleftrightarrow>
     \<not> (a = 0 \<and> b = 0 \<and> c = 0 \<and> d = 0) \<and> a < 224 \<and> \<not> (a = 169 \<and> b = 254) \<and> \<not> reserved4 a b c
     \<and> (ap_allow_private p \<or> \<not> private4 a b)"
proof -
  have "Permit p (IPv4 (word_of_octets [a, b, c, d])) = Inr () \<longleftrightarrow>
     \<not> (a = 0 \<and> b = 0 \<and> c = 0 \<and> d = 0) \<and> \<not> (224 \<le> a \<and> a < 240)
     \<and> \<not> (a = 169 \<and> b = 254 \<or> a = 224 \<and> b = 0 \<and> c = 0) \<and> \<not> reserved4 a b c
     \<and> (ap_allow_private p \<or> a \<noteq> 127 \<and> \<not> (a = 10 \<or> a = 172 \<and> 16 \<le> b \<and> b < 32 \<or> a = 192 \<and> b = 168))"
    unfolding Permit_def Let_def v4_tests [OF o, symmetric] reserved_octets [OF o, symmetric]
    by (simp add: privateRanges_def)
  moreover have "a < 224 \<Longrightarrow> \<not> 224 \<le> a \<and> \<not> 240 \<le> a \<and> a \<noteq> 224"
    and "\<not> a < 224 \<Longrightarrow> 224 \<le> a \<and> (a < 240 \<or> 240 \<le> a)" by linarith+
  moreover have "240 \<le> a \<Longrightarrow> reserved4 a b c"
    and "private4 a b \<longleftrightarrow> a = 127 \<or> (a = 10 \<or> a = 172 \<and> 16 \<le> b \<and> b < 32 \<or> a = 192 \<and> b = 168)"
    by (auto simp: reserved4_def private4_def)
  ultimately show ?thesis by argo
qed

text \<open>A mapped address is judged as the IPv4 address it carries, zone or not.\<close>

lemma Permit_mapped:
  assumes "Is4In6 (IPv6 x z)"
  shows "Permit p (IPv6 x z) = Permit p (IPv4 (ucast x))"
  using assms by (simp add: Permit_def)

lemma Permit_private_mono:
  "Permit p a = Inr () \<Longrightarrow> Permit (q\<lparr>ap_allow_private := True\<rparr>) a = Inr ()"
  by (auto simp: Permit_def Let_def split: if_splits)

text \<open>The whole policy on unmapped IPv6 addresses without a zone, as blocks of the number.\<close>

lemma Permit_v6:
  fixes x :: "128 word"
  assumes "\<not> Is4In6 (IPv6 x [])"
  defines "N \<equiv> unat x"
  shows "Permit p (IPv6 x []) = Inr () \<longleftrightarrow>
     N \<noteq> 0 \<and> N div 2 ^ 120 \<noteq> 0xFF \<and> N div 2 ^ 118 \<noteq> 0x3FA
     \<and> N div 2 ^ 32 \<noteq> 0x0064FF9B0000000000000000 \<and> N div 2 ^ 64 \<noteq> 0x0100000000000000
     \<and> N div 2 ^ 96 \<noteq> 0x20010DB8
     \<and> (ap_allow_private p \<or> N \<noteq> 1 \<and> N div 2 ^ 121 \<noteq> 0x7E)"
proof -
  have lim: "N < 2 ^ 128" unfolding N_def using unsigned_less [of x] by simp
  have x: "x = 0 \<longleftrightarrow> N = 0" "x = 1 \<longleftrightarrow> N = 1" unfolding N_def by (simp_all add: word_unat_eq_iff)
  have h: "drop_bit k x AND push_bit n (mask m) = push_bit n (take_bit m z)
      \<longleftrightarrow> N div 2 ^ (k + n) mod 2 ^ m = unat z mod 2 ^ m" if "n + m \<le> 128" for k n m and z :: "128 word"
    using high_test [of n m k x z] that by (simp add: N_def)
  have ll: "IsLinkLocalUnicast (IPv6 x []) \<longleftrightarrow> N div 2 ^ 118 = 0x3FA"
  proof -
    have "IsLinkLocalUnicast (IPv6 x []) \<longleftrightarrow> N div 2 ^ 118 mod 2 ^ 10 = 0x3FA"
      using h [of 6 10 112 "0x3FA"] by (simp add: mask_eq_exp_minus_1)
    moreover have "N div 2 ^ 118 < 2 ^ 10" using lim by (simp add: less_mult_imp_div_less)
    ultimately show ?thesis by simp
  qed
  have pv: "IsPrivate (IPv6 x []) \<longleftrightarrow> N div 2 ^ 121 = 0x7E"
  proof -
    have "IsPrivate (IPv6 x []) \<longleftrightarrow> N div 2 ^ 121 mod 2 ^ 7 = 0x7E"
      using h [of 1 7 120 "0x7E"] by (simp add: mask_eq_exp_minus_1)
    moreover have "N div 2 ^ 121 < 2 ^ 7" using lim by (simp add: less_mult_imp_div_less)
    ultimately show ?thesis by simp
  qed
  have mc: "IsMulticast (IPv6 x []) \<longleftrightarrow> N div 2 ^ 120 = 0xFF"
    unfolding IsMulticast.simps drop_eq N_def by simp
  have sub: "drop_bit 120 x = 0xFF" if "drop_bit 112 x AND 0xFF0F = v" "drop_bit 8 v = 0xFF" for v
  proof -
    have "drop_bit 8 (drop_bit 112 x AND 0xFF0F) = 0xFF" using that by simp
    then have "drop_bit 120 x AND mask 8 = 0xFF" by (simp add: drop_bit_and mask_eq_exp_minus_1)
    moreover have "drop_bit 120 x AND mask 8 = drop_bit 120 x"
      by (rule bit_eqI) (auto simp: bit_simps dest: bit_imp_le_length)
    ultimately show ?thesis by simp
  qed
  have local: "IsInterfaceLocalMulticast (IPv6 x []) \<Longrightarrow> IsMulticast (IPv6 x [])"
    "IsLinkLocalMulticast (IPv6 x []) \<Longrightarrow> IsMulticast (IPv6 x [])"
    using sub by simp_all
  have rs: "list_ex (\<lambda>r. Contains r (IPv6 x [])) reservedRanges \<longleftrightarrow>
      N div 2 ^ 32 = 0x0064FF9B0000000000000000 \<or> N div 2 ^ 64 = 0x0100000000000000
      \<or> N div 2 ^ 96 = 0x20010DB8"
    by (simp add: reservedRanges_def contains_div N_def del: drop_bit_xor)
  have pr: "list_ex (\<lambda>r. Contains r (IPv6 x [])) privateRanges \<longleftrightarrow> N div 2 ^ 121 = 0x7E"
    by (simp add: privateRanges_def contains_div N_def del: drop_bit_xor)
  have basics: "IsUnspecified (IPv6 x []) \<longleftrightarrow> N = 0" "IsLoopback (IPv6 x []) \<longleftrightarrow> N = 1"
    by (simp_all add: x)
  have "Permit p (IPv6 x []) = Inr () \<longleftrightarrow>
     \<not> IsUnspecified (IPv6 x []) \<and> \<not> IsMulticast (IPv6 x []) \<and> \<not> IsLinkLocalUnicast (IPv6 x [])
     \<and> \<not> list_ex (\<lambda>r. Contains r (IPv6 x [])) reservedRanges
     \<and> (ap_allow_private p \<or> \<not> IsLoopback (IPv6 x []) \<and> \<not> IsPrivate (IPv6 x [])
         \<and> \<not> list_ex (\<lambda>r. Contains r (IPv6 x [])) privateRanges)"
    using assms(1) local unfolding Permit_def Let_def
    by (simp del: IsUnspecified.simps IsMulticast.simps IsInterfaceLocalMulticast.simps
        IsLinkLocalUnicast.simps IsLinkLocalMulticast.simps IsLoopback.simps IsPrivate.simps Is4In6.simps)
  then show ?thesis unfolding basics mc ll rs pr pv by argo
qed

text \<open>A zone hides an address from every prefix: the NAT64 form of a loopback address is refused
  without one and permitted with one.\<close>

lemma Permit_zone:
  "Permit \<lparr>ap_allow_private = False\<rparr> (IPv6 0x0064FF9B00000000000000007F000001 []) \<noteq> Inr ()"
  "Permit \<lparr>ap_allow_private = False\<rparr> (IPv6 0x0064FF9B00000000000000007F000001 ''eth0'') = Inr ()"
  by (simp_all add: Permit_def reservedRanges_def privateRanges_def)

text \<open>The 6to4 form of a loopback address is in no refused range.\<close>

lemma Permit_6to4:
  "Permit \<lparr>ap_allow_private = False\<rparr> (IPv6 0x20027F00000100000000000000000001 []) = Inr ()"
  by (simp add: Permit_def reservedRanges_def privateRanges_def)

section \<open>What the dialer connects to\<close>

lemma dial_loop_permitted:
  "dial_loop d rf ld as = (tried, r) \<Longrightarrow> set tried \<subseteq> set as \<and> (\<forall>a \<in> set tried. Permit (dl_policy d) a = Inr ())
     \<and> (\<forall>c. r = Inr c \<longrightarrow> tried \<noteq> [] \<and> dl_connect d (last tried) (dl_port d) = Inr c)
     \<and> (\<forall>x. r = Inl (x, None) \<longrightarrow> ld = None \<and> tried = [] \<and> (\<forall>a \<in> set as. Permit (dl_policy d) a \<noteq> Inr ()))"
proof (induction as arbitrary: rf ld tried r)
  case (Cons a as)
  show ?case
  proof (cases "Permit (dl_policy d) a")
    case (Inl e)
    then have "dial_loop d (if rf = None then Some e else rf) ld as = (tried, r)" using Cons.prems by simp
    from Cons.IH [OF this] Inl show ?thesis by auto
  next
    case (Inr u)
    show ?thesis
    proof (cases "dl_connect d a (dl_port d)")
      case (Inr c)
      then show ?thesis using Cons.prems \<open>Permit (dl_policy d) a = Inr u\<close> by auto
    next
      case (Inl derr)
      obtain t' r' where l: "dial_loop d rf (Some derr) as = (t', r')" by fastforce
      then have "tried = a # t'" "r' = r" using Cons.prems Inl \<open>Permit (dl_policy d) a = Inr u\<close> by simp_all
      then show ?thesis using Cons.IH [OF l] \<open>Permit (dl_policy d) a = Inr u\<close> by auto
    qed
  qed
qed auto

text \<open>Whatever the lookup answers: every address tried is permitted, and a connection is one the
  dialer made to a permitted address on its own port.\<close>

lemma DialContext_permitted:
  assumes "DialContext d addr = (tried, r)"
  shows "\<forall>a \<in> set tried. Permit (dl_policy d) a = Inr ()"
    and "r = Inr c \<Longrightarrow> \<exists>a. Permit (dl_policy d) a = Inr () \<and> dl_connect d a (dl_port d) = Inr c"
    and "r = Inr c \<Longrightarrow> \<exists>host. split_host_port addr = Some (host, dl_port d)"
proof -
  have "(\<forall>a \<in> set tried. Permit (dl_policy d) a = Inr ())
     \<and> (\<forall>c. r = Inr c \<longrightarrow> (\<exists>a. Permit (dl_policy d) a = Inr () \<and> dl_connect d a (dl_port d) = Inr c)
        \<and> (\<exists>host. split_host_port addr = Some (host, dl_port d)))"
    using assms
    by (auto simp: DialContext_def split: option.splits prod.splits if_splits sum.splits
        dest!: dial_loop_permitted intro!: exI [of _ "last tried"])
  then show "\<forall>a \<in> set tried. Permit (dl_policy d) a = Inr ()"
    and "r = Inr c \<Longrightarrow> \<exists>a. Permit (dl_policy d) a = Inr () \<and> dl_connect d a (dl_port d) = Inr c"
    and "r = Inr c \<Longrightarrow> \<exists>host. split_host_port addr = Some (host, dl_port d)" by auto
qed

text \<open>When every candidate is refused the error is a policy error, never a network one.\<close>

lemma DialContext_all_refused:
  assumes "split_host_port addr = Some (host, dl_port d)" and "parse_addr host = None"
    and "dl_lookup d host = Inr as" and "as \<noteq> []" and "\<forall>a \<in> set as. Permit (dl_policy d) a \<noteq> Inr ()"
  shows "\<exists>e. DialContext d addr = ([], Inl e) \<and> ClassOf e = Some FailurePolicy"
proof -
  have refused: "\<exists>x. dial_loop d rf None as = ([], Inl (x, None))" if "\<forall>a \<in> set as. Permit (dl_policy d) a \<noteq> Inr ()" for rf as
    using that by (induction as arbitrary: rf) (auto split: sum.splits)
  from refused [OF assms(5), of None] assms(1-4) show ?thesis
    by (auto simp: DialContext_def)
qed

end
