(* ===== verification/Store.thy ===== *)
theory Store
  imports Peer_State Domain
begin

text \<open>
  The persistence contract \<^verbatim>\<open>mailkey.Store\<close> (\<^verbatim>\<open>mailkey.go\<close>): its operations as a record over
  an arbitrary state, the abstract book of peers and latches they act on, and the laws a
  store promises as a locale.  Every operation either fails and leaves the book as it was,
  or performs the transition of \<open>Peer_State\<close> it stands for, at some reading of the clock.
\<close>

record 's store_ops =
  so_get :: "string \<Rightarrow> 's \<Rightarrow> (gerr + peer option) \<times> 's"
  so_list :: "'s \<Rightarrow> (gerr + peer list) \<times> 's"
  so_put_observation :: "string \<Rightarrow> observation \<Rightarrow> 's \<Rightarrow> (gerr + unit) \<times> 's"
  so_install :: "string \<Rightarrow> fetch_result \<Rightarrow> 's \<Rightarrow> (gerr + unit) \<times> 's"
  so_record_failure :: "string \<Rightarrow> gerr option \<Rightarrow> 's \<Rightarrow> (gerr + unit) \<times> 's"
  so_record_issue :: "string \<Rightarrow> issue_code \<Rightarrow> prose \<Rightarrow> 's \<Rightarrow> (gerr + bool) \<times> 's"
  so_clear_issue :: "string \<Rightarrow> issue_code \<Rightarrow> 's \<Rightarrow> (gerr + unit) \<times> 's"
  so_set_policy :: "string \<Rightarrow> policy \<Rightarrow> 's \<Rightarrow> (gerr + unit) \<times> 's"
  so_forget :: "string \<Rightarrow> 's \<Rightarrow> (gerr + unit) \<times> 's"
  so_set_identity :: "string \<Rightarrow> identity_state \<Rightarrow> 's \<Rightarrow> (gerr + unit) \<times> 's"
  so_capability :: "string \<Rightarrow> 's \<Rightarrow> (gerr + capability) \<times> 's"
  so_list_capabilities :: "'s \<Rightarrow> (gerr + (string \<times> capability) list) \<times> 's"
  so_mark_validated :: "string \<Rightarrow> time \<Rightarrow> 's \<Rightarrow> (gerr + unit) \<times> 's"
  so_set_disabled :: "string \<Rightarrow> bool \<Rightarrow> string \<Rightarrow> time \<Rightarrow> 's \<Rightarrow> (gerr + unit) \<times> 's"

section \<open>The abstract book\<close>

record book =
  bk_peers :: "string \<Rightarrow> peer option"
  bk_caps :: "string \<Rightarrow> capability"

definition book_peer :: "book \<Rightarrow> string \<Rightarrow> peer" where
  "book_peer b d = (case bk_peers b d of Some p \<Rightarrow> p | None \<Rightarrow> New_peer d)"

definition book_put :: "string \<Rightarrow> peer \<Rightarrow> book \<Rightarrow> book" where
  "book_put d p b = b\<lparr>bk_peers := (bk_peers b)(d := Some p)\<rparr>"

definition book_put_cap :: "string \<Rightarrow> capability \<Rightarrow> book \<Rightarrow> book" where
  "book_put_cap d c b = b\<lparr>bk_caps := (bk_caps b)(d := c)\<rparr>"

definition mark_validated :: "time \<Rightarrow> capability \<Rightarrow> capability" where
  "mark_validated at c =
     (let c = (if \<not> cp_ever_validated c
               then c\<lparr>cp_ever_validated := True, cp_first_validated_at := at\<rparr> else c)
      in c\<lparr>cp_last_validated_at := at\<rparr>)"

definition set_disabled :: "bool \<Rightarrow> string \<Rightarrow> time \<Rightarrow> capability \<Rightarrow> capability" where
  "set_disabled disabled reason at c =
     (if disabled then c\<lparr>cp_disabled := True, cp_disabled_at := at, cp_reason := reason\<rparr>
      else c\<lparr>cp_disabled := False, cp_disabled_at := zero_time, cp_reason := []\<rparr>)"

text \<open>Storing an identity for an unknown domain creates a record with nothing else in it.\<close>

definition identity_stored :: "string \<Rightarrow> identity_state \<Rightarrow> book \<Rightarrow> book \<Rightarrow> bool" where
  "identity_stored d st b b' \<longleftrightarrow>
     (case bk_peers b d of
        Some p \<Rightarrow> b' = book_put d (p\<lparr>pr_identity := st\<rparr>) b
      | None \<Rightarrow> \<exists>p. b' = book_put d p b \<and> pr_domain p = d \<and> pr_identity p = st \<and> pr_effective p = None
                    \<and> pr_history p = [] \<and> pr_policy p \<noteq> PolicyDisabled \<and> pr_policy p \<noteq> PolicyRequire)"

definition peer_disabled :: "book \<Rightarrow> string \<Rightarrow> bool" where
  "peer_disabled b d \<longleftrightarrow> (\<exists>p. bk_peers b d = Some p \<and> pr_policy p = PolicyDisabled)"

text \<open>Fails without effect, or succeeds as described; only a disabled peer answers
  \<^verbatim>\<open>ErrDisabled\<close>.\<close>

definition outcome ::
  "('s \<Rightarrow> book) \<Rightarrow> string \<Rightarrow> 's \<Rightarrow> (gerr + 'a) \<times> 's \<Rightarrow> ('a \<Rightarrow> book \<Rightarrow> book \<Rightarrow> bool) \<Rightarrow> bool" where
  "outcome view d s rs P \<longleftrightarrow>
     (case fst rs of
        Inl e \<Rightarrow> view (snd rs) = view s \<and> (err_is ErrDisabled e \<longrightarrow> peer_disabled (view s) d)
      | Inr x \<Rightarrow> P x (view s) (view (snd rs)))"

section \<open>The contract\<close>

locale store_contract =
  fixes E :: externs and S :: "'s store_ops" and view :: "'s \<Rightarrow> book"
  assumes get: "canonical_domain E d \<Longrightarrow> outcome view d s (so_get S d s) (\<lambda>x b b'.
      b' = b \<and> (\<exists>now. x = map_option (\<lambda>p. Reconcile p now) (bk_peers b d)))"
  and put_obs: "canonical_domain E d \<Longrightarrow> outcome view d s (so_put_observation S d ob s) (\<lambda>x b b'.
      \<exists>now. b' = book_put d (Observe (book_peer b d) ob now) b)"
  and install: "canonical_domain E d \<Longrightarrow> outcome view d s (so_install S d r s) (\<lambda>x b b'.
      mf_domain (rs_manifest r) = d \<and> \<not> peer_disabled b d
      \<and> (\<exists>now. b' = book_put d (Install (book_peer b d) r now) b))"
  and record_failure: "canonical_domain E d \<Longrightarrow> outcome view d s (so_record_failure S d e s) (\<lambda>x b b'.
      \<exists>now. b' = book_put d (Fail_peer (book_peer b d) e now) b)"
  and record_issue: "canonical_domain E d \<Longrightarrow> outcome view d s (so_record_issue S d c t s) (\<lambda>first b b'.
      \<exists>now. b' = book_put d ((book_peer b d)\<lparr>pr_issues := fst (CoalesceIssue (pr_issues (book_peer b d)) c t now)\<rparr>) b
        \<and> (first \<longleftrightarrow> c \<notin> pi_code ` set (pr_issues (book_peer b d))))"
  and clear_issue: "canonical_domain E d \<Longrightarrow> outcome view d s (so_clear_issue S d c s) (\<lambda>x b b'.
      b' = book_put d ((book_peer b d)\<lparr>pr_issues := ClearIssue (pr_issues (book_peer b d)) c\<rparr>) b)"
  and set_policy: "canonical_domain E d \<Longrightarrow> outcome view d s (so_set_policy S d pol s) (\<lambda>x b b'.
      \<exists>now. b' = book_put d (Reconcile ((book_peer b d)\<lparr>pr_policy := pol\<rparr>) now) b)"
  and forget: "canonical_domain E d \<Longrightarrow> outcome view d s (so_forget S d s) (\<lambda>x b b'.
      bk_caps b' = bk_caps b \<and> (\<forall>d'. d' \<noteq> d \<longrightarrow> bk_peers b' d' = bk_peers b d')
      \<and> (bk_peers b' d = None \<or> bk_peers b' d = map_option Forget_peer (bk_peers b d)))"
  and set_identity: "canonical_domain E d \<Longrightarrow> outcome view d s (so_set_identity S d st s) (\<lambda>x b b'.
      identity_stored d st b b')"
  and capability: "canonical_domain E d \<Longrightarrow> outcome view d s (so_capability S d s) (\<lambda>x b b'.
      b' = b \<and> x = bk_caps b d)"
  and mark: "canonical_domain E d \<Longrightarrow> outcome view d s (so_mark_validated S d at s) (\<lambda>x b b'.
      b' = book_put_cap d (mark_validated at (bk_caps b d)) b)"
  and disable: "canonical_domain E d \<Longrightarrow> outcome view d s (so_set_disabled S d dis why at s) (\<lambda>x b b'.
      b' = book_put_cap d (set_disabled dis why at (bk_caps b d)) b)"

section \<open>Consequences\<close>

lemma outcome_mono:
  "outcome view d s rs P \<Longrightarrow> (\<And>x. P x (view s) (view (snd rs)) \<Longrightarrow> Q x (view s) (view (snd rs)))
     \<Longrightarrow> outcome view d s rs Q"
  by (auto simp: outcome_def split: sum.splits)

lemma outcome_Inr: "outcome view d s (Inr x, s') P \<longleftrightarrow> P x (view s) (view s')"
  by (simp add: outcome_def)

lemma outcome_Inl: "outcome view d s (Inl e, s') P \<longleftrightarrow>
    view s' = view s \<and> (err_is ErrDisabled e \<longrightarrow> peer_disabled (view s) d)"
  by (simp add: outcome_def)

lemma book_put_sel [simp]:
  "bk_peers (book_put d p b) d' = (if d' = d then Some p else bk_peers b d')"
  "bk_caps (book_put d p b) = bk_caps b"
  by (simp_all add: book_put_def)

lemma book_put_cap_sel [simp]:
  "bk_peers (book_put_cap d c b) = bk_peers b"
  "bk_caps (book_put_cap d c b) d' = (if d' = d then c else bk_caps b d')"
  by (simp_all add: book_put_cap_def)

lemma mark_validated_requires [simp]:
  "cap_requires (mark_validated at c) \<longleftrightarrow> \<not> cp_disabled c"
  "cp_ever_validated (mark_validated at c)" "cp_disabled (mark_validated at c) = cp_disabled c"
  by (auto simp: mark_validated_def cap_requires_def Let_def)

lemma set_disabled_ever [simp]:
  "cp_ever_validated (set_disabled dis why at c) = cp_ever_validated c"
  "cap_requires (set_disabled dis why at c) \<longleftrightarrow> cp_ever_validated c \<and> \<not> dis"
  by (auto simp: set_disabled_def cap_requires_def)

end
