(* ===== verification/Admission.thy ===== *)
theory Admission
  imports Complex_Main Peer_State "HOL-Library.AList"
begin

text \<open>
  \<^verbatim>\<open>peer/admission.go\<close>: what untrusted observations may turn into durable state.  The map of
  decisions is an association list; its order is the order of iteration, which the code
  leaves unspecified and no theorem depends on.  The token count is a rational number: the
  rounding of the floating-point bucket is not modelled.
\<close>

definition defaultObserveInterval :: duration where "defaultObserveInterval = 10 * minute"
definition defaultNewPeerBurst :: int where "defaultNewPeerBurst = 256"
definition defaultNewPeerRefill :: duration where "defaultNewPeerRefill = hour div 256"
definition maxTrackedDomains :: nat where "maxTrackedDomains = 8192"

record decision =
  de_at :: time
  de_id :: bytes
  de_has_id :: bool
  de_fp :: bytes
  de_has_fp :: bool
  de_source :: source

record admission =
  am_interval :: duration
  am_seen :: "(string \<times> decision) list"
  am_tokens :: rat
  am_burst :: rat
  am_refill_each :: duration
  am_last_refill :: time

definition newAdmission :: "duration \<Rightarrow> int \<Rightarrow> duration \<Rightarrow> time \<Rightarrow> admission" where
  "newAdmission interval burst refillEach now =
     (let interval = (if interval \<le> 0 then defaultObserveInterval else interval);
          burst = (if burst \<le> 0 then defaultNewPeerBurst else burst);
          refillEach = (if refillEach \<le> 0 then defaultNewPeerRefill else refillEach)
      in \<lparr>am_interval = interval, am_seen = [], am_tokens = of_int burst, am_burst = of_int burst,
          am_refill_each = refillEach, am_last_refill = now\<rparr>)"

section \<open>Sweeping\<close>

text \<open>The two loops that delete while ranging over the map, and the one that finds the extent.\<close>

fun seen_extent :: "(string \<times> decision) list \<Rightarrow> time \<Rightarrow> time \<Rightarrow> time \<times> time" where
  "seen_extent [] oldest newest = (oldest, newest)"
| "seen_extent ((d, v) # xs) oldest newest =
     seen_extent xs
       (if oldest = zero_time \<or> de_at v < oldest then de_at v else oldest)
       (if de_at v > newest then de_at v else newest)"

definition quarter :: "duration \<Rightarrow> duration" where
  "quarter d = sgn d * (\<bar>d\<bar> div 4)"

definition sweepLocked :: "admission \<Rightarrow> time \<Rightarrow> admission" where
  "sweepLocked a now =
     (if length (am_seen a) < maxTrackedDomains then a
      else
        let seen = filter (\<lambda>(d, v). \<not> time_sub now (de_at v) \<ge> am_interval a) (am_seen a) in
        if length seen < maxTrackedDomains then a\<lparr>am_seen := seen\<rparr>
        else
          let (oldest, newest) = seen_extent seen zero_time zero_time;
              cutoff = oldest + quarter (time_sub newest oldest)
          in a\<lparr>am_seen := filter (\<lambda>(d, v). de_at v > cutoff) seen\<rparr>)"

section \<open>Admitting\<close>

definition decision_of :: "observation \<Rightarrow> time \<Rightarrow> decision" where
  "decision_of o' now =
     \<lparr>de_at = now, de_id = ob_manifest_id o', de_has_id = ob_has_id o',
      de_fp = ob_fingerprint o', de_has_fp = ob_has_fp o', de_source = ob_source o'\<rparr>"

definition same_evidence :: "decision \<Rightarrow> observation \<Rightarrow> bool" where
  "same_evidence d o' \<longleftrightarrow>
     de_source d = ob_source o' \<and> de_has_id d = ob_has_id o' \<and> de_id d = ob_manifest_id o'
     \<and> de_has_fp d = ob_has_fp o' \<and> de_fp d = ob_fingerprint o'"

definition allowObservation ::
  "admission \<Rightarrow> string \<Rightarrow> observation \<Rightarrow> time \<Rightarrow> bool \<times> admission" where
  "allowObservation a domain o' now =
     (let repeated = (case map_of (am_seen a) domain of
                        None \<Rightarrow> False
                      | Some d \<Rightarrow> same_evidence d o' \<and> time_sub now (de_at d) < am_interval a)
      in if repeated then (False, a)
         else
           let a = sweepLocked a now
           in (True, a\<lparr>am_seen := AList.update domain (decision_of o' now) (am_seen a)\<rparr>))"

definition allowNewPeer :: "admission \<Rightarrow> time \<Rightarrow> bool \<times> admission" where
  "allowNewPeer a now =
     (let elapsed = time_sub now (am_last_refill a);
          a = (if elapsed > 0
               then a\<lparr>am_tokens := min (am_burst a)
                        (am_tokens a + of_int elapsed / of_int (am_refill_each a)),
                      am_last_refill := now\<rparr>
               else a)
      in if am_tokens a < 1 then (False, a)
         else (True, a\<lparr>am_tokens := am_tokens a - 1\<rparr>))"

definition forget :: "admission \<Rightarrow> string \<Rightarrow> admission" where
  "forget a domain = a\<lparr>am_seen := AList.delete domain (am_seen a)\<rparr>"

section \<open>The tracking map stays bounded\<close>

lemma seen_extent_bounds:
  "seen_extent xs oldest newest = (ol, nw) \<Longrightarrow> newest \<le> nw
     \<and> (ol = oldest \<or> (\<exists>d v. (d, v) \<in> set xs \<and> ol = de_at v \<and> ol \<le> nw))
     \<and> (\<forall>(d, v) \<in> set xs. de_at v \<le> nw)"
proof (induction xs arbitrary: oldest newest)
  case (Cons x xs)
  obtain d v where x: "x = (d, v)" by (cases x)
  let ?o = "if oldest = zero_time \<or> de_at v < oldest then de_at v else oldest"
  let ?n = "if de_at v > newest then de_at v else newest"
  have e: "seen_extent xs ?o ?n = (ol, nw)" using Cons.prems x by simp
  note ih = Cons.IH [OF e]
  have n: "newest \<le> nw" "de_at v \<le> nw" using ih by (auto split: if_splits)
  moreover have "ol = oldest \<or> (\<exists>d v. (d, v) \<in> set (x # xs) \<and> ol = de_at v \<and> ol \<le> nw)"
  proof (cases "ol = ?o")
    case True
    then have "ol = oldest \<or> ol = de_at v" by presburger
    with n x show ?thesis by auto
  next
    case False
    then show ?thesis using ih by auto
  qed
  ultimately show ?case using ih x by auto
qed simp

lemma quarter_nonneg: "0 \<le> d \<Longrightarrow> 0 \<le> quarter d"
  by (cases "d = 0") (auto simp: quarter_def sgn_if)

lemma time_sub_nonneg: "u \<le> t \<Longrightarrow> 0 \<le> time_sub t u"
  by (simp add: time_sub_def)

lemma sweep_bound:
  assumes "\<forall>(d, v) \<in> set (am_seen a). zero_time < de_at v"
  shows "length (am_seen (sweepLocked a now)) < maxTrackedDomains
    \<or> length (am_seen (sweepLocked a now)) < length (am_seen a)"
proof -
  let ?seen = "filter (\<lambda>(d, v). \<not> time_sub now (de_at v) \<ge> am_interval a) (am_seen a)"
  obtain ol nw where e: "seen_extent ?seen zero_time zero_time = (ol, nw)" by fastforce
  have len: "length ?seen \<le> length (am_seen a)" by (rule length_filter_le)
  show ?thesis
  proof (cases "length (am_seen a) < maxTrackedDomains \<or> length ?seen < maxTrackedDomains")
    case True
    then show ?thesis by (auto simp: sweepLocked_def Let_def)
  next
    case False
    let ?cut = "ol + quarter (time_sub nw ol)"
    have ne: "?seen \<noteq> []" using False by (auto simp: maxTrackedDomains_def)
    note b = seen_extent_bounds [OF e]
    have "\<exists>x \<in> set ?seen. \<not> (\<lambda>(d, v). de_at v > ?cut) x"
    proof (cases "\<exists>d v. (d, v) \<in> set ?seen \<and> ol = de_at v \<and> ol \<le> nw")
      case True
      then obtain d v where v: "(d, v) \<in> set ?seen" "ol = de_at v" "ol \<le> nw" by blast
      have "0 \<le> quarter (time_sub nw ol)" using v(3) by (intro quarter_nonneg time_sub_nonneg)
      with v show ?thesis by (intro bexI [of _ "(d, v)"]) auto
    next
      case none: False
      then have ol: "ol = zero_time" using b by blast
      obtain x xs where xs: "?seen = x # xs" using ne by (cases ?seen) auto
      obtain d v where x: "x = (d, v)" by (cases x)
      have pos: "zero_time < de_at v'" if "(d', v') \<in> set ?seen" for d' v' using that assms by auto
      have "seen_extent xs (de_at v) (max zero_time (de_at v)) = (ol, nw)"
        using e pos [of d v] unfolding xs x by (simp add: max_def)
      from seen_extent_bounds [OF this] ol none xs x pos [of d v]
      have False by auto
      then show ?thesis ..
    qed
    then have "length (filter (\<lambda>(d, v). de_at v > ?cut) ?seen) < length ?seen"
      by (metis (mono_tags, lifting) length_filter_less)
    then have "length (filter (\<lambda>(d, v). de_at v > ?cut) ?seen) < length (am_seen a)"
      using len by (rule less_le_trans)
    then show ?thesis using False e by (simp add: sweepLocked_def Let_def del: filter_filter)
  qed
qed

definition admission_wf :: "admission \<Rightarrow> bool" where
  "admission_wf a \<longleftrightarrow> distinct (map fst (am_seen a)) \<and> length (am_seen a) \<le> maxTrackedDomains
     \<and> (\<forall>(d, v) \<in> set (am_seen a). zero_time < de_at v)
     \<and> 0 \<le> am_tokens a \<and> am_tokens a \<le> am_burst a \<and> 1 \<le> am_burst a \<and> 0 < am_refill_each a
     \<and> 0 < am_interval a"

lemma sweep_subset: "set (am_seen (sweepLocked a now)) \<subseteq> set (am_seen a)"
  by (auto simp: sweepLocked_def Let_def split: prod.splits)

lemma sweep_frame [simp]:
  "am_interval (sweepLocked a now) = am_interval a" "am_tokens (sweepLocked a now) = am_tokens a"
  "am_burst (sweepLocked a now) = am_burst a" "am_refill_each (sweepLocked a now) = am_refill_each a"
  "am_last_refill (sweepLocked a now) = am_last_refill a"
  by (simp_all add: sweepLocked_def Let_def split: prod.splits)

lemma sweep_distinct: "distinct (map fst (am_seen a)) \<Longrightarrow> distinct (map fst (am_seen (sweepLocked a now)))"
  by (auto simp: sweepLocked_def Let_def distinct_map_filter split: prod.splits)

lemma length_update: "length (AList.update k v xs) \<le> Suc (length xs)"
  by (induction xs) auto

lemma set_update: "set (AList.update k v xs) \<subseteq> insert (k, v) (set xs)"
  by (induction xs) auto

lemma admission_wf_new: "admission_wf (newAdmission interval burst refillEach now)"
  by (simp add: admission_wf_def newAdmission_def Let_def maxTrackedDomains_def
      defaultObserveInterval_def defaultNewPeerBurst_def defaultNewPeerRefill_def)

lemma admission_wf_observe:
  assumes wf: "admission_wf a" and now: "zero_time < now"
  shows "admission_wf (snd (allowObservation a d ob now))"
proof -
  let ?a = "sweepLocked a now"
  have pos: "\<forall>(d, v) \<in> set (am_seen a). zero_time < de_at v"
    and len: "length (am_seen a) \<le> maxTrackedDomains" using wf by (auto simp: admission_wf_def)
  have "length (am_seen ?a) < maxTrackedDomains" using sweep_bound [OF pos, of now] len by auto
  then have "length (AList.update d (decision_of ob now) (am_seen ?a)) \<le> maxTrackedDomains"
    using length_update [of d "decision_of ob now" "am_seen ?a"] by simp
  moreover have "\<forall>(e, v) \<in> set (AList.update d (decision_of ob now) (am_seen ?a)). zero_time < de_at v"
    using set_update [of d "decision_of ob now" "am_seen ?a"] sweep_subset [of a now] pos now
    by (fastforce simp: decision_of_def)
  ultimately show ?thesis
    using wf by (auto simp: admission_wf_def allowObservation_def Let_def sweep_distinct distinct_update)
qed

lemma admission_wf_new_peer: "admission_wf a \<Longrightarrow> admission_wf (snd (allowNewPeer a now))"
  by (auto simp: admission_wf_def allowNewPeer_def Let_def)

lemma admission_wf_forget: "admission_wf a \<Longrightarrow> admission_wf (forget a d)"
proof -
  assume wf: "admission_wf a"
  have "length (AList.delete d (am_seen a)) \<le> length (am_seen a)" by (simp add: AList.delete_eq)
  moreover have "set (AList.delete d (am_seen a)) \<subseteq> set (am_seen a)" by (auto simp: AList.delete_eq)
  ultimately show ?thesis using wf by (auto simp: admission_wf_def forget_def AList.distinct_delete)
qed

section \<open>Repeats and news\<close>

text \<open>The same evidence inside the interval is refused without a change of state.\<close>

lemma repeat_refused:
  assumes "allowObservation a d ob t = (True, a')" and "same_evidence (decision_of ob t) ob'"
    and "time_sub now t < am_interval a"
  shows "allowObservation a' d ob' now = (False, a')"
  using assms by (auto simp: allowObservation_def Let_def decision_of_def update_conv' split: if_splits)

text \<open>A changed id or fingerprint is admitted at once.\<close>

lemma news_admitted:
  "(\<And>e. map_of (am_seen a) d = Some e \<Longrightarrow> \<not> same_evidence e ob) \<Longrightarrow> fst (allowObservation a d ob now)"
  by (auto simp: allowObservation_def Let_def split: option.splits)

section \<open>The rate of new peers\<close>

fun admit_run :: "admission \<Rightarrow> time list \<Rightarrow> nat \<times> admission" where
  "admit_run a [] = (0, a)"
| "admit_run a (t # ts) =
     (let (ok, a1) = allowNewPeer a t; (n, a2) = admit_run a1 ts in ((if ok then Suc n else n), a2))"

definition clock_sane :: "time \<Rightarrow> time list \<Rightarrow> bool" where
  "clock_sane t0 ts \<longleftrightarrow> sorted (t0 # ts) \<and> last (t0 # ts) - t0 < 2 ^ 63"

lemma allowNewPeer_cost:
  assumes "am_last_refill a \<le> t" and "t - am_last_refill a < 2 ^ 63" and r: "0 < am_refill_each a"
    and a: "allowNewPeer a t = (ok, a')"
  shows "am_tokens a' + (if ok then 1 else 0)
      \<le> am_tokens a + of_int (t - am_last_refill a) / of_int (am_refill_each a)"
    and "am_last_refill a' = t" and "am_refill_each a' = am_refill_each a"
proof -
  have ts: "time_sub t (am_last_refill a) = t - am_last_refill a"
    using assms(1,2) by (intro time_sub_in_range) auto
  show "am_tokens a' + (if ok then 1 else 0)
      \<le> am_tokens a + of_int (t - am_last_refill a) / of_int (am_refill_each a)"
    "am_last_refill a' = t" "am_refill_each a' = am_refill_each a"
    using a assms(1) r by (auto simp: allowNewPeer_def Let_def ts split: if_splits)
qed

text \<open>However the flood is spread, it buys the bucket plus what time refills.\<close>

lemma admit_run_bound:
  assumes "clock_sane (am_last_refill a) ts" and "0 < am_refill_each a" and "0 \<le> am_tokens a"
    and "0 \<le> am_burst a"
  shows "of_nat (fst (admit_run a ts))
     \<le> am_tokens a + of_int (last (am_last_refill a # ts) - am_last_refill a) / of_int (am_refill_each a)"
  using assms
proof (induction ts arbitrary: a)
  case (Cons t ts)
  obtain ok a1 where a1: "allowNewPeer a t = (ok, a1)" by fastforce
  obtain n a2 where a2: "admit_run a1 ts = (n, a2)" by fastforce
  have le: "am_last_refill a \<le> t" and lt: "t \<le> last (t # ts)"
    using Cons.prems(1) by (auto simp: clock_sane_def dest: last_in_set)
  then have d: "t - am_last_refill a < 2 ^ 63" using Cons.prems(1) by (auto simp: clock_sane_def)
  note c = allowNewPeer_cost [OF le d Cons.prems(2) a1]
  have tok: "0 \<le> am_tokens a1" and bu: "0 \<le> am_burst a1"
    using a1 Cons.prems(2-4) by (auto simp: allowNewPeer_def Let_def split: if_splits)
  have "clock_sane (am_last_refill a1) ts"
    using Cons.prems(1) le by (auto simp: clock_sane_def c(2))
  from Cons.IH [OF this] Cons.prems(2) tok bu a2
  have "of_nat n \<le> am_tokens a1 + of_int (last (t # ts) - t) / of_int (am_refill_each a)"
    by (simp add: c(2,3))
  with c(1) have "of_nat n + (if ok then 1 else 0) \<le> am_tokens a
      + of_int (t - am_last_refill a) / of_int (am_refill_each a)
      + of_int (last (t # ts) - t) / of_int (am_refill_each a)" by linarith
  also have "\<dots> = am_tokens a + of_int (last (t # ts) - am_last_refill a) / of_int (am_refill_each a)"
    by (simp add: add_divide_distrib [symmetric] flip: of_int_add)
  finally show ?case using a1 a2 by (cases ok) (auto simp: Let_def)
qed simp

end
