(* ===== verification/Stateful.thy ===== *)
theory Stateful
  imports Prelude "HOL-Library.State_Monad"
begin

text \<open>
  Programs over a state, written in the state monad, and the triples that say what one
  leaves behind: from a state satisfying the first predicate it ends with a result and a
  state satisfying the second.
\<close>

named_theorems triple_rules "composition of triples"

definition triple :: "('s \<Rightarrow> bool) \<Rightarrow> ('s, 'a) state \<Rightarrow> ('a \<Rightarrow> 's \<Rightarrow> bool) \<Rightarrow> bool" where
  "triple P m Q \<longleftrightarrow> (\<forall>s. P s \<longrightarrow> Q (fst (run_state m s)) (snd (run_state m s)))"

lemma tripleI: "(\<And>s a s'. P s \<Longrightarrow> run_state m s = (a, s') \<Longrightarrow> Q a s') \<Longrightarrow> triple P m Q"
  by (simp add: triple_def)

lemma tripleD: "triple P m Q \<Longrightarrow> P s \<Longrightarrow> run_state m s = (a, s') \<Longrightarrow> Q a s'"
  by (auto simp: triple_def dest: spec [of _ s])

lemma run_state_bind:
  "run_state (State_Monad.bind m f) s = (case run_state m s of (a, s') \<Rightarrow> run_state (f a) s')"
  by (simp add: State_Monad.bind_def)

lemma triple_return [triple_rules]: "(\<And>s. P s \<Longrightarrow> Q a s) \<Longrightarrow> triple P (State_Monad.return a) Q"
  by (simp add: triple_def)

lemma triple_bind [triple_rules]:
  "triple P m R \<Longrightarrow> (\<And>a. triple (R a) (f a) Q) \<Longrightarrow> triple P (State_Monad.bind m f) Q"
  by (auto simp: triple_def run_state_bind split: prod.splits)

lemma triple_if [triple_rules]:
  "(b \<Longrightarrow> triple P m Q) \<Longrightarrow> (\<not> b \<Longrightarrow> triple P n Q) \<Longrightarrow> triple P (if b then m else n) Q"
  by simp

lemma triple_sum [triple_rules]:
  "(\<And>e. x = Inl e \<Longrightarrow> triple P (f e) Q) \<Longrightarrow> (\<And>y. x = Inr y \<Longrightarrow> triple P (g y) Q)
     \<Longrightarrow> triple P (case x of Inl e \<Rightarrow> f e | Inr y \<Rightarrow> g y) Q"
  by (cases x) simp_all

lemma triple_option [triple_rules]:
  "(x = None \<Longrightarrow> triple P m Q) \<Longrightarrow> (\<And>y. x = Some y \<Longrightarrow> triple P (f y) Q)
     \<Longrightarrow> triple P (case x of None \<Rightarrow> m | Some y \<Rightarrow> f y) Q"
  by (cases x) simp_all

lemma triple_prod [triple_rules]:
  "(\<And>a b. x = (a, b) \<Longrightarrow> triple P (f a b) Q) \<Longrightarrow> triple P (case x of (a, b) \<Rightarrow> f a b) Q"
  by (cases x) simp

lemma triple_weaken:
  "triple P' m Q' \<Longrightarrow> (\<And>s. P s \<Longrightarrow> P' s) \<Longrightarrow> (\<And>a s. Q' a s \<Longrightarrow> Q a s) \<Longrightarrow> triple P m Q"
  by (auto simp: triple_def)

lemma triple_post: "triple P m Q' \<Longrightarrow> (\<And>a s. Q' a s \<Longrightarrow> Q a s) \<Longrightarrow> triple P m Q"
  by (auto simp: triple_def)

lemma triple_conj: "triple P m Q \<Longrightarrow> triple P m R \<Longrightarrow> triple P m (\<lambda>a s. Q a s \<and> R a s)"
  by (auto simp: triple_def)

lemma triple_pure: "(c \<Longrightarrow> triple P m Q) \<Longrightarrow> triple (\<lambda>s. c \<and> P s) m Q"
  by (auto simp: triple_def)

lemma triple_case: "(\<And>x. triple (\<lambda>s. P s \<and> f s = x) m Q) \<Longrightarrow> triple P m Q"
  by (auto simp: triple_def)

text \<open>A program that keeps a predicate whatever it returns.\<close>

definition keeps :: "('s \<Rightarrow> bool) \<Rightarrow> ('s, 'a) state \<Rightarrow> bool" where
  "keeps P m \<longleftrightarrow> triple P m (\<lambda>_. P)"

lemma keeps_triple: "keeps P m \<Longrightarrow> triple P m (\<lambda>_. P)"
  by (simp add: keeps_def)

lemma keepsI: "(\<And>s a s'. P s \<Longrightarrow> run_state m s = (a, s') \<Longrightarrow> P s') \<Longrightarrow> keeps P m"
  by (auto simp: keeps_def intro: tripleI)

lemma keeps_rules [triple_rules]:
  "keeps P (State_Monad.return a)"
  "keeps P m \<Longrightarrow> (\<And>a. keeps P (f a)) \<Longrightarrow> keeps P (State_Monad.bind m f)"
  "(b \<Longrightarrow> keeps P m) \<Longrightarrow> (\<not> b \<Longrightarrow> keeps P n) \<Longrightarrow> keeps P (if b then m else n)"
  "(\<And>e. x = Inl e \<Longrightarrow> keeps P (h e)) \<Longrightarrow> (\<And>y. x = Inr y \<Longrightarrow> keeps P (g y))
     \<Longrightarrow> keeps P (case x of Inl e \<Rightarrow> h e | Inr y \<Rightarrow> g y)"
  "(z = None \<Longrightarrow> keeps P m) \<Longrightarrow> (\<And>y. z = Some y \<Longrightarrow> keeps P (k y))
     \<Longrightarrow> keeps P (case z of None \<Rightarrow> m | Some y \<Rightarrow> k y)"
  "(\<And>a b. w = (a, b) \<Longrightarrow> keeps P (l a b)) \<Longrightarrow> keeps P (case w of (a, b) \<Rightarrow> l a b)"
  unfolding keeps_def
  by (rule triple_return, assumption) (erule triple_bind, assumption, simp, cases x, simp, simp,
      cases z, simp, simp, cases w, simp)

text \<open>What a program may return, from any state.\<close>

named_theorems yields_rules "composition of what programs return"

definition yields :: "('a \<Rightarrow> bool) \<Rightarrow> ('s, 'a) state \<Rightarrow> bool" where
  "yields Q m \<longleftrightarrow> triple (\<lambda>_. True) m (\<lambda>r _. Q r)"

lemma yieldsI: "(\<And>s. Q (fst (run_state m s))) \<Longrightarrow> yields Q m"
  by (simp add: yields_def triple_def)

lemma yieldsD: "yields Q m \<Longrightarrow> Q (fst (run_state m s))"
  by (simp add: yields_def triple_def)

lemma yields_triple: "yields Q m \<Longrightarrow> triple P m (\<lambda>r _. Q r)"
  by (auto simp: yields_def triple_def)

lemma yields_then: "yields R m \<Longrightarrow> (\<And>a. R a \<Longrightarrow> yields Q (f a)) \<Longrightarrow> yields Q (State_Monad.bind m f)"
  by (auto simp: yields_def triple_def run_state_bind split: prod.splits) (metis fst_conv)

lemma yields_compose [yields_rules]:
  "Q a \<Longrightarrow> yields Q (State_Monad.return a)"
  "(\<And>a. yields Q (f a)) \<Longrightarrow> yields Q (State_Monad.bind p f)"
  "(b \<Longrightarrow> yields Q m) \<Longrightarrow> (\<not> b \<Longrightarrow> yields Q n) \<Longrightarrow> yields Q (if b then m else n)"
  "(\<And>e. x = Inl e \<Longrightarrow> yields Q (h e)) \<Longrightarrow> (\<And>y. x = Inr y \<Longrightarrow> yields Q (g y))
     \<Longrightarrow> yields Q (case x of Inl e \<Rightarrow> h e | Inr y \<Rightarrow> g y)"
  "(z = None \<Longrightarrow> yields Q m) \<Longrightarrow> (\<And>y. z = Some y \<Longrightarrow> yields Q (k y))
     \<Longrightarrow> yields Q (case z of None \<Rightarrow> m | Some y \<Rightarrow> k y)"
  "(\<And>a b. w = (a, b) \<Longrightarrow> yields Q (l a b)) \<Longrightarrow> yields Q (case w of (a, b) \<Rightarrow> l a b)"
  by (auto simp: yields_def triple_def run_state_bind split: prod.splits sum.splits option.splits)

end
