(* ===== verification/Service.thy ===== *)
theory Service
  imports Store Admission Resource Stateful
begin

text \<open>
  \<^verbatim>\<open>peer/service.go\<close>: resolution, the trust decision on a fetched manifest, the policy that
  decides whether a failure may become plaintext, and the admitted observation path.  A
  service is parametric in its store and its resolver, as the code is in the two
  interfaces; each of the three optional callbacks, when it is set, appends to a log.
\<close>

datatype event =
  EvError string gerr
| EvDrop string
| EvAlert string issue_code prose

text \<open>Which of the callbacks of \<^verbatim>\<open>Options\<close> are set: \<^verbatim>\<open>OnError\<close>, \<^verbatim>\<open>OnDrop\<close> and \<^verbatim>\<open>OnAlert\<close> may each be nil.\<close>

record callbacks =
  cb_error :: bool
  cb_drop :: bool
  cb_alert :: bool

fun heard :: "callbacks \<Rightarrow> event \<Rightarrow> bool" where
  "heard cb (EvError d e) = cb_error cb"
| "heard cb (EvDrop d) = cb_drop cb"
| "heard cb (EvAlert d code detail) = cb_alert cb"

text \<open>\<^verbatim>\<open>mailkey.Resolver\<close> and the optional \<^verbatim>\<open>mailkey.IdentityChainResolver\<close>.\<close>

record 'r resolver_ops =
  rv_resolve :: "string \<Rightarrow> string \<Rightarrow> 'r \<Rightarrow> (gerr + fetch_result) \<times> 'r"
  rv_chain :: "(string \<Rightarrow> string \<Rightarrow> 'r \<Rightarrow> (gerr + bytes) \<times> 'r) option"

record ('s, 'r) service =
  sv_store :: 's
  sv_net :: 'r
  sv_clock :: "nat \<Rightarrow> time"
  sv_ticks :: nat
  sv_callbacks :: callbacks
  sv_log :: "event list"
  sv_adm :: admission
  sv_queue :: "string list"
  sv_pending :: "string list"
  sv_capacity :: nat

type_synonym ('s, 'r, 'a) svc = "(('s, 'r) service, 'a) state"

section \<open>Primitive effects\<close>

definition svc_now :: "('s, 'r, time) svc" where
  "svc_now = State (\<lambda>w. (sv_clock w (sv_ticks w), w\<lparr>sv_ticks := Suc (sv_ticks w)\<rparr>))"

definition on_store :: "('s \<Rightarrow> 'a \<times> 's) \<Rightarrow> ('s, 'r, 'a) svc" where
  "on_store f = State (\<lambda>w. let (a, s) = f (sv_store w) in (a, w\<lparr>sv_store := s\<rparr>))"

definition on_net :: "('r \<Rightarrow> 'a \<times> 'r) \<Rightarrow> ('s, 'r, 'a) svc" where
  "on_net f = State (\<lambda>w. let (a, r) = f (sv_net w) in (a, w\<lparr>sv_net := r\<rparr>))"

definition on_adm :: "(admission \<Rightarrow> 'a \<times> admission) \<Rightarrow> ('s, 'r, 'a) svc" where
  "on_adm f = State (\<lambda>w. let (a, m) = f (sv_adm w) in (a, w\<lparr>sv_adm := m\<rparr>))"

text \<open>A callback is called only if it is set: \<^verbatim>\<open>if s.onError != nil\<close> and its like.\<close>

definition emit :: "event \<Rightarrow> ('s, 'r, unit) svc" where
  "emit e = State (\<lambda>w. ((), if heard (sv_callbacks w) e then w\<lparr>sv_log := sv_log w @ [e]\<rparr> else w))"

definition emit_err :: "string \<Rightarrow> gerr + 'a \<Rightarrow> ('s, 'r, unit) svc" where
  "emit_err d r = (case r of Inl e \<Rightarrow> emit (EvError d e) | Inr _ \<Rightarrow> State_Monad.return ())"

section \<open>Cached manifests\<close>

definition parseStored :: "externs \<Rightarrow> bytes \<Rightarrow> string \<Rightarrow> gerr + manifest" where
  "parseStored E raw domain =
     (if raw = [] then Inl (Msg ''cached manifest for %q has no bytes'')
      else wrap_err ''cached manifest for %q is unusable: %w'' (ParseCanonical E raw domain))"

definition resultOf :: "externs \<Rightarrow> manifest_record \<Rightarrow> string \<Rightarrow> gerr + fetch_result" where
  "resultOf E rec domain =
     try_bind (parseStored E (mr_canonical rec) domain) (\<lambda>m.
       Inr \<lparr>rs_manifest = m, rs_manifest_id = mr_manifest_id rec, rs_raw = mr_canonical rec,
            rs_fetched_at = mr_fetched_at rec, rs_expires_at = mr_expires_at rec,
            rs_tls_host = mr_authority_host rec, rs_proof = None, rs_proof_error = None\<rparr>)"

definition identityOf :: "peer option \<Rightarrow> identity_state" where
  "identityOf p = (case p of None \<Rightarrow> zero_identity | Some q \<Rightarrow> pr_identity q)"

section \<open>Which refusals are what\<close>

definition overridable :: "string \<Rightarrow> fetch_result \<Rightarrow> bool" where
  "overridable reason res \<longleftrightarrow> rs_proof res \<noteq> None \<and> \<not> starts_with ''replay/'' reason"

definition issueOf :: "string \<Rightarrow> issue_code" where
  "issueOf reason =
     (if starts_with ''replay/'' reason then IssueReplay
      else if reason = ''pinned/valid-proof-other-signer'' then IssueSignerChanged
      else if reason = ''pinned/proof-absent-or-invalid'' then IssueProofMissing
      else IssuePinWithheld)"

definition raise ::
  "'s store_ops \<Rightarrow> string \<Rightarrow> issue_code \<Rightarrow> prose \<Rightarrow> ('s, 'r, unit) svc" where
  "raise S domain code detail =
     do { r \<leftarrow> on_store (so_record_issue S domain code detail);
          case r of
            Inl e \<Rightarrow> emit (EvError domain (Wrapped ''record issue %s: %w'' e))
          | Inr first \<Rightarrow>
              if first \<and> issue_alerts code then emit (EvAlert domain code detail)
              else State_Monad.return () }"

definition persistenceHold :: "string \<Rightarrow> string \<Rightarrow> gerr \<Rightarrow> ('s, 'r, gerr + 'a) svc" where
  "persistenceHold domain what e =
     do { emit (EvError domain (Wrapped what e));
          State_Monad.return (Inl (FailRequired domain (Some (Wrapped what e)))) }"

section \<open>The route\<close>

text \<open>The freshest observation decides; the loop keeps the first of equals.\<close>

fun newest_authority :: "observation list \<Rightarrow> time \<Rightarrow> string \<Rightarrow> string" where
  "newest_authority [] newest hint = hint"
| "newest_authority (ob # obs) newest hint =
     (if ob_observed_at ob > newest then newest_authority obs (ob_observed_at ob) (ob_authority ob)
      else newest_authority obs newest hint)"

definition authorityHint :: "'s store_ops \<Rightarrow> string \<Rightarrow> ('s, 'r, string) svc" where
  "authorityHint S domain =
     do { r \<leftarrow> on_store (so_get S domain);
          State_Monad.return (case r of
              Inr (Some p) \<Rightarrow>
                if id_status (pr_identity p) \<noteq> IdentityPinned then []
                else newest_authority (pr_observations p) zero_time []
            | _ \<Rightarrow> []) }"

section \<open>Following a rotation\<close>

fun clear_issues :: "'s store_ops \<Rightarrow> string \<Rightarrow> issue_code list \<Rightarrow> ('s, 'r, unit) svc" where
  "clear_issues S d [] = State_Monad.return ()"
| "clear_issues S d (c # cs) =
     do { r \<leftarrow> on_store (so_clear_issue S d c);
          emit_err d r;
          clear_issues S d cs }"

definition rotated_identity ::
  "identity_state \<Rightarrow> chain_result \<Rightarrow> fetch_result \<Rightarrow> time \<Rightarrow> identity_state" where
  "rotated_identity st walked res now =
     (let st = st\<lparr>id_status := IdentityPinned, id_fingerprint := cr_fingerprint walked,
                  id_pinned_key := cr_public_key walked, id_pinned_at := now, id_contested := None\<rparr>
      in if mf_issued_at (rs_manifest res) \<noteq> zero_time
         then st\<lparr>id_last_issued_at := mf_issued_at (rs_manifest res),
                 id_last_manifest_id := rs_manifest_id res\<rparr>
         else st)"

definition install_successor ::
  "'s store_ops \<Rightarrow> string \<Rightarrow> identity_state \<Rightarrow> fetch_result \<Rightarrow> ('s, 'r, fetch_result option) svc" where
  "install_successor S d st res =
     do { i \<leftarrow> on_store (so_set_identity S d st);
          case i of
            Inl e \<Rightarrow> do { emit (EvError d (Wrapped ''identity state: %w'' e)); State_Monad.return None }
          | Inr _ \<Rightarrow>
              do { r \<leftarrow> on_store (so_install S d res);
                   case r of
                     Inl _ \<Rightarrow> State_Monad.return None
                   | Inr _ \<Rightarrow>
                       do { clear_issues S d [IssueSignerChanged, IssueProofMissing, IssueMailHeld];
                            emit (EvError d (Msg ''identity rotated: pin moved to %s by a signed transition''));
                            State_Monad.return (Some res) } } }"

definition follow_doc ::
  "externs \<Rightarrow> 's store_ops \<Rightarrow> string \<Rightarrow> peer \<Rightarrow> id_proof \<Rightarrow> fetch_result \<Rightarrow> doc
     \<Rightarrow> ('s, 'r, fetch_result option) svc" where
  "follow_doc E S d prev pf res dc =
     do { now \<leftarrow> svc_now;
          case WalkChain E (id_fingerprint (pr_identity prev)) (id_pinned_key (pr_identity prev))
                 (dc_chain dc) now of
            (walked, Some e) \<Rightarrow>
              do { raise S d IssueSignerChanged (Some (Wrapped ''identity chain did not verify: %s'' e));
                   State_Monad.return None }
          | (walked, None) \<Rightarrow>
              if cr_revoked walked then
                do { raise S d IssueRevoked (say ''the pinned identity was revoked: %s'');
                     State_Monad.return None }
              else if cr_applied walked = 0 \<or> cr_fingerprint walked \<noteq> pf_fingerprint pf
                then State_Monad.return None
              else
                do { t \<leftarrow> svc_now;
                     install_successor S d (rotated_identity (pr_identity prev) walked res t) res } }"

definition followRotation ::
  "externs \<Rightarrow> 's store_ops \<Rightarrow> 'r resolver_ops \<Rightarrow> string \<Rightarrow> string \<Rightarrow> peer option \<Rightarrow> fetch_result
     \<Rightarrow> ('s, 'r, fetch_result option) svc" where
  "followRotation E S R d authority prev res =
     (case (rv_chain R, prev, rs_proof res) of
        (Some chain_of, Some p, Some pf) \<Rightarrow>
          if id_pinned_key (pr_identity p) = [] then State_Monad.return None
          else
            do { r \<leftarrow> on_net (chain_of d authority);
                 case try_bind r (ParseDoc E d) of
                   Inl e \<Rightarrow>
                     do { emit (EvError d (Wrapped ''identity chain: %w'' e)); State_Monad.return None }
                 | Inr dc \<Rightarrow> follow_doc E S d p pf res dc }
      | _ \<Rightarrow> State_Monad.return None)"

section \<open>One resolution\<close>

definition decide :: "peer option \<Rightarrow> fetch_result \<Rightarrow> ('s, 'r, verdict) svc" where
  "decide p res =
     (case p of
        None \<Rightarrow> State_Monad.return (DecideIdentity None res zero32 False False)
      | Some q \<Rightarrow>
          do { now \<leftarrow> svc_now;
               State_Monad.return
                 (DecideIdentity p res (id_dns_fp (pr_identity q)) (id_has_dns_fp (pr_identity q))
                    (Usable p now \<noteq> None)) })"

definition refuse ::
  "externs \<Rightarrow> 's store_ops \<Rightarrow> string \<Rightarrow> peer option \<Rightarrow> fetch_result \<Rightarrow> verdict \<Rightarrow> bool
     \<Rightarrow> ('s, 'r, gerr + fetch_result) svc" where
  "refuse E S d prev res v acceptUnpinned =
     do { f \<leftarrow> on_store (so_record_failure S d (vd_alert v));
          emit_err d f;
          raise S d (issueOf (vd_reason v)) (vd_alert v);
          emit (EvError d (Msg ''identity refused (%s): %s''));
          if vd_encrypt v then
            do { now \<leftarrow> svc_now;
                 State_Monad.return (case Usable prev now of
                     Some rec \<Rightarrow> resultOf E rec d
                   | None \<Rightarrow> Inl (FailRequired d
                       (say ''the trusted cached manifest became unusable while refusing a fresh identity''))) }
          else if acceptUnpinned \<and> overridable (vd_reason v) res then State_Monad.return (Inr res)
          else State_Monad.return (Inl (FailRequired d (Some
                 (if overridable (vd_reason v) res
                  then Wrapped ''%w: %s'' (Sentinel ErrIdentityRefused)
                  else Msg ''%s'')))) }"

definition install_accepted ::
  "'s store_ops \<Rightarrow> string \<Rightarrow> fetch_result \<Rightarrow> ('s, 'r, gerr + fetch_result) svc" where
  "install_accepted S d res =
     do { r \<leftarrow> on_store (so_install S d res);
          case r of
            Inl e \<Rightarrow> State_Monad.return (Inl e)
          | Inr _ \<Rightarrow>
              do { clear_issues S d [IssueSignerChanged, IssueProofMissing, IssuePinWithheld,
                     IssueReplay, IssueRefreshFailed, IssueDowngradeBlocked];
                   State_Monad.return (Inr res) } }"

text \<open>After the latch: persist the identity state, then refuse, follow a rotation or install.\<close>

definition commit ::
  "externs \<Rightarrow> 's store_ops \<Rightarrow> 'r resolver_ops \<Rightarrow> string \<Rightarrow> string \<Rightarrow> bool \<Rightarrow> fetch_result
     \<Rightarrow> peer option \<Rightarrow> verdict \<Rightarrow> ('s, 'r, gerr + fetch_result) svc" where
  "commit E S R d authority acceptUnpinned res prev v =
     do { t \<leftarrow> svc_now;
          i \<leftarrow> on_store (so_set_identity S d (ApplyIdentity (identityOf prev) v res t));
          case i of
            Inl e \<Rightarrow> persistenceHold d ''identity state'' e
          | Inr _ \<Rightarrow>
              if \<not> vd_accept v then
                do { f \<leftarrow> (if vd_reason v = ''pinned/valid-proof-other-signer''
                           then followRotation E S R d authority prev res
                           else State_Monad.return None);
                     case f of
                       None \<Rightarrow> refuse E S d prev res v acceptUnpinned
                     | Some res2 \<Rightarrow> State_Monad.return (Inr res2) }
              else install_accepted S d res }"

text \<open>A failed read leaves \<^verbatim>\<open>prev\<close> nil, as the code ignores its error.\<close>

definition settle ::
  "externs \<Rightarrow> 's store_ops \<Rightarrow> 'r resolver_ops \<Rightarrow> string \<Rightarrow> string \<Rightarrow> bool \<Rightarrow> fetch_result
     \<Rightarrow> ('s, 'r, gerr + fetch_result) svc" where
  "settle E S R d authority acceptUnpinned res =
     do { g \<leftarrow> on_store (so_get S d);
          let prev = (case g of Inl _ \<Rightarrow> None | Inr p \<Rightarrow> p);
          v \<leftarrow> decide prev res;
          m \<leftarrow> on_store (so_mark_validated S d (rs_fetched_at res));
          case m of
            Inl e \<Rightarrow> persistenceHold d ''capability latch'' e
          | Inr _ \<Rightarrow> commit E S R d authority acceptUnpinned res prev v }"

text \<open>The shortcut of an unforced resolution: disabled, or a cache that needs no refresh.\<close>

definition cached_answer ::
  "externs \<Rightarrow> 's store_ops \<Rightarrow> string \<Rightarrow> ('s, 'r, (gerr + fetch_result) option) svc" where
  "cached_answer E S d =
     do { r \<leftarrow> on_store (so_get S d);
          case r of
            Inl _ \<Rightarrow> State_Monad.return None
          | Inr g \<Rightarrow>
              (case g of
                 None \<Rightarrow> State_Monad.return None
               | Some p \<Rightarrow>
                   if pr_policy p = PolicyDisabled
                   then State_Monad.return (Some (Inl (Sentinel ErrDisabled)))
                   else
                     do { t1 \<leftarrow> svc_now;
                          if fst (NeedsRefresh (Some p) t1) then State_Monad.return None
                          else
                            do { t2 \<leftarrow> svc_now;
                                 State_Monad.return
                                   (map_option (\<lambda>rec. resultOf E rec d) (Usable (Some p) t2)) } }) }"

definition resolve ::
  "externs \<Rightarrow> 's store_ops \<Rightarrow> 'r resolver_ops \<Rightarrow> string \<Rightarrow> bool \<Rightarrow> bool
     \<Rightarrow> ('s, 'r, gerr + fetch_result) svc" where
  "resolve E S R d force acceptUnpinned =
     do { cached \<leftarrow> (if force then State_Monad.return None else cached_answer E S d);
          case cached of
            Some r \<Rightarrow> State_Monad.return r
          | None \<Rightarrow>
              do { authority \<leftarrow> authorityHint S d;
                   r \<leftarrow> on_net (rv_resolve R d authority);
                   case r of
                     Inl e \<Rightarrow>
                       do { f \<leftarrow> on_store (so_record_failure S d (Some e));
                            case f of
                              Inl fe \<Rightarrow> State_Monad.return (Inl fe)
                            | Inr _ \<Rightarrow>
                                do { raise S d IssueRefreshFailed (Some e);
                                     State_Monad.return (Inl e) } }
                   | Inr res \<Rightarrow> settle E S R d authority acceptUnpinned res } }"

section \<open>The outbound path\<close>

definition policyFailure ::
  "'s store_ops \<Rightarrow> peer option \<Rightarrow> string \<Rightarrow> gerr \<Rightarrow> ('s, 'r, gerr) svc" where
  "policyFailure S p domain cause =
     (if err_is ErrDisabled cause then State_Monad.return cause
      else if (case p of Some q \<Rightarrow> pr_policy q = PolicyRequire | None \<Rightarrow> False)
        then State_Monad.return (FailRequired domain (Some cause))
      else
        do { r \<leftarrow> on_store (so_capability S domain);
             State_Monad.return (case r of
                 Inl _ \<Rightarrow> FailRequired domain (Some cause)
               | Inr cap \<Rightarrow> if cap_requires cap then FailRequired domain (Some cause) else cause) })"

definition resolveForEncryption ::
  "externs \<Rightarrow> 's store_ops \<Rightarrow> 'r resolver_ops \<Rightarrow> string \<Rightarrow> bool
     \<Rightarrow> ('s, 'r, (gerr + fetch_result) \<times> peer option) svc" where
  "resolveForEncryption E S R d acceptUnpinned =
     do { g \<leftarrow> on_store (so_get S d);
          case g of
            Inl e \<Rightarrow> State_Monad.return (Inl e, None)
          | Inr p \<Rightarrow>
              if (case p of Some q \<Rightarrow> pr_policy q = PolicyDisabled | None \<Rightarrow> False)
              then State_Monad.return (Inl (Sentinel ErrDisabled), p)
              else
                do { now \<leftarrow> svc_now;
                     case Usable p now of
                       Some rec \<Rightarrow>
                         if \<not> fst (NeedsRefresh p now)
                         then State_Monad.return (resultOf E rec (pr_domain (the p)), p)
                         else
                           do { r \<leftarrow> resolve E S R d False acceptUnpinned;
                                State_Monad.return (case r of
                                    Inr res \<Rightarrow> (Inr res, p)
                                  | Inl _ \<Rightarrow> (resultOf E rec (pr_domain (the p)), p)) }
                     | None \<Rightarrow>
                         do { r \<leftarrow> resolve E S R d False acceptUnpinned;
                              State_Monad.return (r, p) } } }"

definition resolveEncrypting ::
  "externs \<Rightarrow> 's store_ops \<Rightarrow> 'r resolver_ops \<Rightarrow> string \<Rightarrow> bool
     \<Rightarrow> ('s, 'r, gerr + fetch_result) svc" where
  "resolveEncrypting E S R domain acceptUnpinned =
     (case NormalizeDomain E domain of
        Inl e \<Rightarrow> State_Monad.return (Inl e)
      | Inr d \<Rightarrow>
          do { rp \<leftarrow> resolveForEncryption E S R d acceptUnpinned;
               case rp of (r, p) \<Rightarrow>
                 (case r of
                    Inr res \<Rightarrow> State_Monad.return (Inr res)
                  | Inl rerr \<Rightarrow>
                      do { e \<leftarrow> policyFailure S p d rerr; State_Monad.return (Inl e) }) })"

definition ResolveAcceptingUnpinned ::
  "externs \<Rightarrow> 's store_ops \<Rightarrow> 'r resolver_ops \<Rightarrow> string \<Rightarrow> ('s, 'r, gerr + fetch_result) svc" where
  "ResolveAcceptingUnpinned E S R domain = resolveEncrypting E S R domain True"

definition ResolveForEncryption ::
  "externs \<Rightarrow> 's store_ops \<Rightarrow> 'r resolver_ops \<Rightarrow> string \<Rightarrow> ('s, 'r, gerr + fetch_result) svc" where
  "ResolveForEncryption E S R domain = resolveEncrypting E S R domain False"

section \<open>Administration\<close>

definition refresh ::
  "externs \<Rightarrow> 's store_ops \<Rightarrow> 'r resolver_ops \<Rightarrow> string
     \<Rightarrow> ('s, 'r, peer option \<times> gerr option) svc" where
  "refresh E S R d =
     do { r \<leftarrow> resolve E S R d True False;
          g \<leftarrow> on_store (so_get S d);
          State_Monad.return (case g of
              Inl e \<Rightarrow> (None, Some e)
            | Inr None \<Rightarrow> (None, Some (Msg ''peer %q not found after resolution''))
            | Inr (Some p) \<Rightarrow> (Some p, (case r of Inl e \<Rightarrow> Some e | Inr _ \<Rightarrow> None))) }"

definition Refresh ::
  "externs \<Rightarrow> 's store_ops \<Rightarrow> 'r resolver_ops \<Rightarrow> string
     \<Rightarrow> ('s, 'r, peer option \<times> gerr option) svc" where
  "Refresh E S R domain =
     (case NormalizeDomain E domain of
        Inl e \<Rightarrow> State_Monad.return (None, Some e)
      | Inr d \<Rightarrow> refresh E S R d)"

definition blank_observation :: "source \<Rightarrow> time \<Rightarrow> observation_status \<Rightarrow> observation" where
  "blank_observation src t status =
     \<lparr>ob_source = src, ob_manifest_id = zero32, ob_has_id = False, ob_fingerprint = zero32,
      ob_has_fp = False, ob_authority = [], ob_observed_at = t, ob_status = status,
      ob_context = None\<rparr>"

definition AddPeer ::
  "externs \<Rightarrow> 's store_ops \<Rightarrow> 'r resolver_ops \<Rightarrow> string
     \<Rightarrow> ('s, 'r, peer option \<times> gerr option) svc" where
  "AddPeer E S R domain =
     (case NormalizeDomain E domain of
        Inl e \<Rightarrow> State_Monad.return (None, Some e)
      | Inr d \<Rightarrow>
          do { on_adm (\<lambda>a. ((), forget a d));
               now \<leftarrow> svc_now;
               r \<leftarrow> on_store (so_put_observation S d (blank_observation SourceManual now ObservationPending));
               case r of
                 Inl e \<Rightarrow> State_Monad.return (None, Some e)
               | Inr _ \<Rightarrow> refresh E S R d })"

definition Forget ::
  "externs \<Rightarrow> 's store_ops \<Rightarrow> string \<Rightarrow> ('s, 'r, gerr + unit) svc" where
  "Forget E S domain =
     (case NormalizeDomain E domain of
        Inl e \<Rightarrow> State_Monad.return (Inl e)
      | Inr d \<Rightarrow> do { on_adm (\<lambda>a. ((), forget a d)); on_store (so_forget S d) })"

section \<open>Errors that carry no sentinel\<close>

text \<open>What parsing and decoding report: prose, never one of the errors policy is decided on.\<close>

definition plain_err :: "gerr \<Rightarrow> bool" where
  "plain_err e \<longleftrightarrow> (\<forall>t. \<not> err_is t e)"

definition plain_fail :: "gerr + 'a \<Rightarrow> bool" where
  "plain_fail r \<longleftrightarrow> (\<forall>e. r = Inl e \<longrightarrow> plain_err e)"

lemma plain_err_simps [simp]: "plain_err (Msg s)" "plain_err (Wrapped s e) = plain_err e"
  by (simp_all add: plain_err_def)

lemma plain_fail_simps [simp]:
  "plain_fail (Inr x)" "plain_fail (Inl e) = plain_err e"
  "plain_fail (wrap_err s r) = plain_fail r"
  "plain_fail (opt_err e z) = (z = None \<longrightarrow> plain_err e)"
  by (auto simp: plain_fail_def wrap_err_def opt_err_def split: sum.splits option.splits)

lemma plain_fail_bind: "plain_fail m \<Longrightarrow> (\<And>x. m = Inr x \<Longrightarrow> plain_fail (f x)) \<Longrightarrow> plain_fail (try_bind m f)"
  by (cases m) simp_all

lemma plain_fail_if: "plain_fail a \<Longrightarrow> plain_fail b \<Longrightarrow> plain_fail (if c then a else b)"
  by simp

lemma plain_fail_map: "(\<And>x. plain_fail (f x)) \<Longrightarrow> plain_fail (try_map f xs)"
  by (induction xs) (auto intro!: plain_fail_bind)

lemmas plain_fail_intros = plain_fail_bind plain_fail_if plain_fail_map

lemma plain_checkSuite [simp]: "plain_fail (checkSuite a e p)"
  by (simp add: checkSuite_def)

lemma plain_KeyIDOf [simp]: "plain_fail (KeyIDOf E d a e p)"
  unfolding KeyIDOf_def by (intro plain_fail_intros) simp_all

lemma plain_check_canonical [simp]: "plain_fail (check_canonical E s d)"
  by (simp add: check_canonical_def guard_err_def)

lemma plain_Pack [simp]: "plain_fail (Pack E m)"
  unfolding Pack_def Let_def by (intro plain_fail_intros) simp_all

lemma plain_manifest_fields [simp]:
  "plain_fail (asMap v w)" "plain_fail (boundedKeys E m w req opt)" "plain_fail (exactKeys E m w want)"
  "plain_fail (utf8Field E m k)" "plain_fail (rawField E m k)" "plain_fail (longField E m k)"
  "plain_fail (authority_item E it)"
  by (auto simp: asMap_def boundedKeys_def exactKeys_def utf8Field_def rawField_def longField_def
      authority_item_def split: option.splits gvalue.splits)

lemma plain_authorityField [simp]: "plain_fail (authorityField E m)"
  by (auto simp: authorityField_def intro!: plain_fail_map split: option.splits gvalue.splits)

lemma plain_ParseCanonical [simp]: "plain_fail (ParseCanonical E raw d)"
  unfolding ParseCanonical_def Let_def by (intro plain_fail_intros) simp_all

lemma plain_resultOf [simp]: "plain_fail (resultOf E rec d)"
  unfolding resultOf_def parseStored_def by (intro plain_fail_intros) simp_all

section \<open>What a call of the store keeps\<close>

text \<open>A predicate on the state of the store that one call keeps, and what it answers under it.\<close>

definition op_triple :: "('s \<Rightarrow> bool) \<Rightarrow> ('s \<Rightarrow> 'a \<times> 's) \<Rightarrow> ('a \<Rightarrow> bool) \<Rightarrow> bool" where
  "op_triple J f Q \<longleftrightarrow> (\<forall>s. J s \<longrightarrow> Q (fst (f s)) \<and> J (snd (f s)))"

abbreviation op_keeps :: "('s \<Rightarrow> bool) \<Rightarrow> ('s \<Rightarrow> 'a \<times> 's) \<Rightarrow> bool" where
  "op_keeps J f \<equiv> op_triple J f (\<lambda>_. True)"

lemma op_tripleI: "(\<And>s r s'. J s \<Longrightarrow> f s = (r, s') \<Longrightarrow> Q r \<and> J s') \<Longrightarrow> op_triple J f Q"
  by (auto simp: op_triple_def prod_eq_iff)

lemma op_triple_mono: "op_triple J f Q \<Longrightarrow> (\<And>r. Q r \<Longrightarrow> Q' r) \<Longrightarrow> op_triple J f Q'"
  by (auto simp: op_triple_def)

lemma triple_op:
  "op_triple J f Q \<Longrightarrow> triple (\<lambda>w. J (sv_store w)) (on_store f) (\<lambda>r w. Q r \<and> J (sv_store w))"
  by (rule tripleI) (auto simp: op_triple_def on_store_def Let_def split: prod.splits dest!: spec)

lemma keeps_op: "op_triple J f Q \<Longrightarrow> keeps (\<lambda>w. J (sv_store w)) (on_store f)"
  unfolding keeps_def by (rule triple_post [OF triple_op]) auto

lemma keeps_still [triple_rules]:
  "keeps (\<lambda>w. J (sv_store w)) svc_now"
  "keeps (\<lambda>w. J (sv_store w)) (on_net f)"
  "keeps (\<lambda>w. J (sv_store w)) (on_adm g)"
  "keeps (\<lambda>w. J (sv_store w)) (emit e)"
  by (auto intro!: keepsI simp: svc_now_def on_net_def on_adm_def emit_def Let_def split: prod.splits if_splits)

lemma keeps_still_more [triple_rules]:
  "keeps (\<lambda>w. J (sv_store w)) (emit_err d r)"
  "keeps (\<lambda>w. J (sv_store w)) (persistenceHold d what e)"
  "keeps (\<lambda>w. J (sv_store w)) (decide p res)"
  unfolding emit_err_def persistenceHold_def decide_def by (intro triple_rules)+

text \<open>The calls that decide nothing, then those that move a pin or a manifest.\<close>

definition soft_ops :: "'s store_ops \<Rightarrow> string \<Rightarrow> ('s \<Rightarrow> bool) \<Rightarrow> bool" where
  "soft_ops S d J \<longleftrightarrow>
     op_keeps J (so_get S d) \<and> (\<forall>ob. op_keeps J (so_put_observation S d ob))
     \<and> (\<forall>e. op_keeps J (so_record_failure S d e)) \<and> (\<forall>c t. op_keeps J (so_record_issue S d c t))
     \<and> (\<forall>c. op_keeps J (so_clear_issue S d c)) \<and> op_keeps J (so_capability S d)
     \<and> (\<forall>t. op_keeps J (so_mark_validated S d t))"

definition hard_ops :: "'s store_ops \<Rightarrow> string \<Rightarrow> ('s \<Rightarrow> bool) \<Rightarrow> bool" where
  "hard_ops S d J \<longleftrightarrow> soft_ops S d J
     \<and> (\<forall>r. op_keeps J (so_install S d r)) \<and> (\<forall>st. op_keeps J (so_set_identity S d st))"

lemma hard_soft: "hard_ops S d J \<Longrightarrow> soft_ops S d J"
  by (simp add: hard_ops_def)

lemma soft_ops_keep:
  assumes "soft_ops S d J"
  shows "keeps (\<lambda>w. J (sv_store w)) (on_store (so_get S d))"
    and "keeps (\<lambda>w. J (sv_store w)) (on_store (so_put_observation S d ob))"
    and "keeps (\<lambda>w. J (sv_store w)) (on_store (so_record_failure S d fe))"
    and "keeps (\<lambda>w. J (sv_store w)) (on_store (so_record_issue S d code t))"
    and "keeps (\<lambda>w. J (sv_store w)) (on_store (so_clear_issue S d code))"
    and "keeps (\<lambda>w. J (sv_store w)) (on_store (so_capability S d))"
    and "keeps (\<lambda>w. J (sv_store w)) (on_store (so_mark_validated S d tm))"
  using assms unfolding soft_ops_def by (blast intro: keeps_op)+

lemma hard_ops_keep:
  assumes "hard_ops S d J"
  shows "keeps (\<lambda>w. J (sv_store w)) (on_store (so_install S d res))"
    and "keeps (\<lambda>w. J (sv_store w)) (on_store (so_set_identity S d st))"
  using assms unfolding hard_ops_def by (blast intro: keeps_op)+

lemma soft_keeps:
  assumes J: "soft_ops S d J"
  shows "keeps (\<lambda>w :: ('s, 'r) service. J (sv_store w)) (raise S d code t)"
    and "keeps (\<lambda>w :: ('s, 'r) service. J (sv_store w)) (clear_issues S d cs)"
    and "keeps (\<lambda>w :: ('s, 'r) service. J (sv_store w)) (authorityHint S d)"
    and "keeps (\<lambda>w :: ('s, 'r) service. J (sv_store w)) (refuse E S d prev res v acc)"
    and "keeps (\<lambda>w :: ('s, 'r) service. J (sv_store w)) (cached_answer E S d)"
    and "keeps (\<lambda>w :: ('s, 'r) service. J (sv_store w)) (policyFailure S p d e)"
proof -
  note ops = soft_ops_keep [OF J]
  show 1: "keeps (\<lambda>w :: ('s, 'r) service. J (sv_store w)) (raise S d code t)" for code t
    unfolding raise_def by (intro triple_rules ops)
  show "keeps (\<lambda>w :: ('s, 'r) service. J (sv_store w)) (clear_issues S d cs)"
    by (induction cs) (auto intro!: triple_rules ops)
  show "keeps (\<lambda>w :: ('s, 'r) service. J (sv_store w)) (authorityHint S d)"
    unfolding authorityHint_def by (intro triple_rules ops)
  show "keeps (\<lambda>w :: ('s, 'r) service. J (sv_store w)) (refuse E S d prev res v acc)"
    unfolding refuse_def by (intro triple_rules ops 1)
  show "keeps (\<lambda>w :: ('s, 'r) service. J (sv_store w)) (cached_answer E S d)"
    unfolding cached_answer_def by (intro triple_rules ops)
  show "keeps (\<lambda>w :: ('s, 'r) service. J (sv_store w)) (policyFailure S p d e)"
    unfolding policyFailure_def by (intro triple_rules ops)
qed

declare clear_issues.simps [simp del]

lemma hard_keeps:
  assumes J: "hard_ops S d J"
  shows "keeps (\<lambda>w :: ('s, 'r) service. J (sv_store w)) (install_successor S d st res)"
    and "keeps (\<lambda>w :: ('s, 'r) service. J (sv_store w)) (follow_doc E S d q pf res dc)"
    and "keeps (\<lambda>w :: ('s, 'r) service. J (sv_store w)) (followRotation E S R d a prev res)"
    and "keeps (\<lambda>w :: ('s, 'r) service. J (sv_store w)) (install_accepted S d res)"
    and "keeps (\<lambda>w :: ('s, 'r) service. J (sv_store w)) (commit E S R d a acc res prev v)"
    and "keeps (\<lambda>w :: ('s, 'r) service. J (sv_store w)) (settle E S R d a acc res)"
    and "keeps (\<lambda>w :: ('s, 'r) service. J (sv_store w)) (resolve E S R d force acc)"
    and "keeps (\<lambda>w :: ('s, 'r) service. J (sv_store w)) (resolveForEncryption E S R d acc)"
proof -
  note ops = soft_ops_keep [OF hard_soft [OF J]] hard_ops_keep [OF J] soft_keeps [OF hard_soft [OF J]]
  show 1: "keeps (\<lambda>w :: ('s, 'r) service. J (sv_store w)) (install_successor S d st res)" for st res
    unfolding install_successor_def by (intro triple_rules ops)
  show 2: "keeps (\<lambda>w :: ('s, 'r) service. J (sv_store w)) (follow_doc E S d q pf res dc)" for q pf res dc
    unfolding follow_doc_def by (intro triple_rules ops 1)
  show 3: "keeps (\<lambda>w :: ('s, 'r) service. J (sv_store w)) (followRotation E S R d a prev res)" for a prev res
    unfolding followRotation_def by (intro triple_rules ops 2)
  show 4: "keeps (\<lambda>w :: ('s, 'r) service. J (sv_store w)) (install_accepted S d res)" for res
    unfolding install_accepted_def by (intro triple_rules ops)
  show 5: "keeps (\<lambda>w :: ('s, 'r) service. J (sv_store w)) (commit E S R d a acc res prev v)" for a res prev v
    unfolding commit_def by (intro triple_rules ops 3 4)
  show 6: "keeps (\<lambda>w :: ('s, 'r) service. J (sv_store w)) (settle E S R d a acc res)" for a res
    unfolding settle_def Let_def by (intro triple_rules ops 5)
  show 7: "keeps (\<lambda>w :: ('s, 'r) service. J (sv_store w)) (resolve E S R d force acc)" for force
    unfolding resolve_def by (intro triple_rules ops 6)
  show "keeps (\<lambda>w :: ('s, 'r) service. J (sv_store w)) (resolveForEncryption E S R d acc)"
    unfolding resolveForEncryption_def by (intro triple_rules ops 7)
qed

section \<open>What the service may do to the book\<close>

definition book_at :: "('s \<Rightarrow> book) \<Rightarrow> ('s, 'r) service \<Rightarrow> book" where
  "book_at view w = view (sv_store w)"

text \<open>The transitions the service asks its store for; policy, forgetting and the
  administrator's disable are not among them.\<close>

inductive soft_step :: "book \<Rightarrow> book \<Rightarrow> bool" where
  step_observe: "soft_step b (book_put d (Observe (book_peer b d) ob now) b)"
| step_fail: "soft_step b (book_put d (Fail_peer (book_peer b d) e now) b)"
| step_issues: "soft_step b (book_put d ((book_peer b d)\<lparr>pr_issues := is\<rparr>) b)"
| step_mark: "soft_step b (book_put_cap d (mark_validated t (bk_caps b d)) b)"

inductive book_step :: "book \<Rightarrow> book \<Rightarrow> bool" where
  step_soft: "soft_step b b' \<Longrightarrow> book_step b b'"
| step_install: "mf_domain (rs_manifest r) = d \<Longrightarrow> \<not> peer_disabled b d
    \<Longrightarrow> book_step b (book_put d (Install (book_peer b d) r now) b)"
| step_identity: "identity_stored d st b b' \<Longrightarrow> book_step b b'"

inductive_cases soft_step_cases: "soft_step b b'"
inductive_cases book_step_cases: "book_step b b'"

definition kept_by_soft :: "(book \<Rightarrow> bool) \<Rightarrow> bool" where
  "kept_by_soft I \<longleftrightarrow> (\<forall>b b'. I b \<longrightarrow> soft_step b b' \<longrightarrow> I b')"

definition kept_by_steps :: "(book \<Rightarrow> bool) \<Rightarrow> bool" where
  "kept_by_steps I \<longleftrightarrow> (\<forall>b b'. I b \<longrightarrow> book_step b b' \<longrightarrow> I b')"

lemma kept_soft: "kept_by_steps I \<Longrightarrow> kept_by_soft I"
  by (auto simp: kept_by_steps_def kept_by_soft_def intro: step_soft)

lemma keeps_local [triple_rules]:
  "keeps (\<lambda>w. I (book_at view w)) svc_now"
  "keeps (\<lambda>w. I (book_at view w)) (on_net f)"
  "keeps (\<lambda>w. I (book_at view w)) (on_adm g)"
  "keeps (\<lambda>w. I (book_at view w)) (emit e)"
  by (auto intro!: keepsI simp: svc_now_def on_net_def on_adm_def emit_def book_at_def Let_def
      split: prod.splits if_splits)

lemma keeps_emit_err [triple_rules]: "keeps (\<lambda>w. I (book_at view w)) (emit_err d r)"
  unfolding emit_err_def by (intro triple_rules)

lemma triple_store:
  assumes "\<And>s. outcome view d s (f s) P"
    and "\<And>e b. I b \<Longrightarrow> \<not> (err_is ErrDisabled e \<and> \<not> peer_disabled b d) \<Longrightarrow> Q (Inl e) b"
    and "\<And>x b b'. I b \<Longrightarrow> P x b b' \<Longrightarrow> Q (Inr x) b'"
  shows "triple (\<lambda>w. I (book_at view w)) (on_store f) (\<lambda>r w. Q r (book_at view w))"
proof (rule tripleI)
  fix w r w'
  assume i: "I (book_at view w)" and run: "run_state (on_store f) w = (r, w')"
  obtain r' s' where f: "f (sv_store w) = (r', s')" by fastforce
  from run f have r: "r = r'" and w: "w' = w\<lparr>sv_store := s'\<rparr>"
    by (auto simp: on_store_def Let_def)
  from assms(1) [of "sv_store w"] show "Q r (book_at view w')"
    using i assms(2,3) unfolding f
    by (cases r') (auto simp: r w book_at_def outcome_def)
qed

lemma keeps_store:
  assumes "\<And>s. outcome view d s (f s) P" and "\<And>x b b'. P x b b' \<Longrightarrow> I b \<Longrightarrow> I b'"
  shows "keeps (\<lambda>w. I (book_at view w)) (on_store f)"
  unfolding keeps_def
proof (rule triple_store [OF assms(1)])
  show "I b'" if "I b" and "P x b b'" for x b b' using assms(2) that by blast
qed simp

text \<open>The same over the store alone, under an invariant of the book.\<close>

lemma op_outcome:
  assumes "\<And>s. outcome view d s (f s) P"
    and "\<And>e b. I b \<Longrightarrow> \<not> (err_is ErrDisabled e \<and> \<not> peer_disabled b d) \<Longrightarrow> Q (Inl e)"
    and "\<And>x b b'. I b \<Longrightarrow> P x b b' \<Longrightarrow> Q (Inr x) \<and> I b'"
  shows "op_triple (\<lambda>s. I (view s)) f Q"
proof (rule op_tripleI)
  fix s r s' assume "I (view s)" and f: "f s = (r, s')"
  then show "Q r \<and> I (view s')"
    using assms(1) [of s] assms(2,3) unfolding f by (cases r) (auto simp: outcome_def)
qed

lemma op_keeps_outcome:
  assumes "\<And>s. outcome view d s (f s) P" and "\<And>x b b'. I b \<Longrightarrow> P x b b' \<Longrightarrow> I b'"
  shows "op_keeps (\<lambda>s. I (view s)) f"
  by (rule op_outcome [OF assms(1)]) (use assms(2) in blast)+

context store_contract
begin

lemma soft_kept:
  assumes c: "canonical_domain E d" and k: "kept_by_soft I"
  shows "soft_ops S d (\<lambda>s. I (view s))"
proof -
  note st = k [unfolded kept_by_soft_def, rule_format]
  show ?thesis
    unfolding soft_ops_def
    by (intro conjI allI op_keeps_outcome [OF get [OF c]] op_keeps_outcome [OF put_obs [OF c]]
        op_keeps_outcome [OF record_failure [OF c]] op_keeps_outcome [OF record_issue [OF c]]
        op_keeps_outcome [OF clear_issue [OF c]] op_keeps_outcome [OF capability [OF c]]
        op_keeps_outcome [OF mark [OF c]])
      (blast intro: st step_observe step_fail step_issues step_mark)+
qed

lemma hard_kept:
  assumes c: "canonical_domain E d" and k: "kept_by_steps I"
  shows "hard_ops S d (\<lambda>s. I (view s))"
proof -
  note st = k [unfolded kept_by_steps_def, rule_format]
  show ?thesis
    unfolding hard_ops_def
    by (intro conjI allI soft_kept [OF c kept_soft [OF k]] op_keeps_outcome [OF install [OF c]]
        op_keeps_outcome [OF set_identity [OF c]])
      (blast intro: st step_install step_identity)+
qed

lemma keeps_ops [triple_rules]:
  assumes "canonical_domain E d" and "kept_by_soft I"
  shows "keeps (\<lambda>w. I (book_at view w)) (on_store (so_get S d))"
    and "keeps (\<lambda>w. I (book_at view w)) (on_store (so_put_observation S d ob))"
    and "keeps (\<lambda>w. I (book_at view w)) (on_store (so_record_failure S d fe))"
    and "keeps (\<lambda>w. I (book_at view w)) (on_store (so_record_issue S d code t))"
    and "keeps (\<lambda>w. I (book_at view w)) (on_store (so_clear_issue S d code))"
    and "keeps (\<lambda>w. I (book_at view w)) (on_store (so_capability S d))"
    and "keeps (\<lambda>w. I (book_at view w)) (on_store (so_mark_validated S d tm))"
  unfolding book_at_def by (rule soft_ops_keep [OF soft_kept [OF assms]])+

lemma keeps_soft [triple_rules]:
  assumes "canonical_domain E d" and "kept_by_soft I"
  shows keeps_raise: "keeps (\<lambda>w. I (book_at view w)) (raise S d code t)"
    and keeps_clear: "keeps (\<lambda>w. I (book_at view w)) (clear_issues S d cs)"
    and keeps_hint: "keeps (\<lambda>w. I (book_at view w)) (authorityHint S d)"
    and keeps_refuse: "keeps (\<lambda>w. I (book_at view w)) (refuse E S d prev res v acc)"
    and keeps_cached: "keeps (\<lambda>w. I (book_at view w)) (cached_answer E S d)"
    and keeps_policy: "keeps (\<lambda>w. I (book_at view w)) (policyFailure S p d e)"
  unfolding book_at_def by (rule soft_keeps [OF soft_kept [OF assms]])+

lemma keeps_hold [triple_rules]: "keeps (\<lambda>w. I (book_at view w)) (persistenceHold d what e)"
  and keeps_decide [triple_rules]: "keeps (\<lambda>w. I (book_at view w)) (decide p res)"
  unfolding book_at_def by (rule keeps_still_more)+

lemma keeps_hard [triple_rules]:
  assumes "canonical_domain E d" and "kept_by_steps I"
  shows "keeps (\<lambda>w. I (book_at view w)) (install_successor S d st res)"
    and "keeps (\<lambda>w. I (book_at view w)) (follow_doc E S d p pf res dc)"
    and "keeps (\<lambda>w. I (book_at view w)) (followRotation E S R d a prev res)"
    and "keeps (\<lambda>w. I (book_at view w)) (install_accepted S d res)"
    and "keeps (\<lambda>w. I (book_at view w)) (commit E S R d a acc res prev v)"
    and "keeps (\<lambda>w. I (book_at view w)) (settle E S R d a acc res)"
    and "keeps (\<lambda>w. I (book_at view w)) (resolve E S R d force acc)"
    and "keeps (\<lambda>w. I (book_at view w)) (resolveForEncryption E S R d acc)"
  unfolding book_at_def by (rule hard_keeps [OF hard_kept [OF assms]])+

lemmas keeps_follow = keeps_hard(1-3)
lemmas keeps_resolve = keeps_hard(4-8)

end


section \<open>No downgrade\<close>

text \<open>A domain under protection: its latch requires encryption and nobody disabled the peer.\<close>

definition guarded :: "string \<Rightarrow> book \<Rightarrow> bool" where
  "guarded d b \<longleftrightarrow> cap_requires (bk_caps b d) \<and> \<not> peer_disabled b d"

lemma identity_stored_sel:
  "identity_stored d st b b' \<Longrightarrow> bk_caps b' = bk_caps b \<and> (\<forall>d'. d' \<noteq> d \<longrightarrow> bk_peers b' d' = bk_peers b d')
     \<and> (\<exists>p. bk_peers b' d = Some p \<and> pr_identity p = st
          \<and> (case bk_peers b d of Some q \<Rightarrow> p = q\<lparr>pr_identity := st\<rparr>
             | None \<Rightarrow> pr_effective p = None \<and> pr_policy p \<noteq> PolicyDisabled))"
  by (auto simp: identity_stored_def split: option.splits)

lemma peer_disabled_put [simp]:
  "peer_disabled (book_put d p b) d' \<longleftrightarrow> (if d' = d then pr_policy p = PolicyDisabled else peer_disabled b d')"
  "peer_disabled (book_put_cap d c b) d' = peer_disabled b d'"
  by (auto simp: peer_disabled_def)

lemma book_peer_disabled: "pr_policy (book_peer b d) = PolicyDisabled \<longleftrightarrow> peer_disabled b d"
  by (auto simp: book_peer_def peer_disabled_def New_peer_def split: option.splits)

lemma Fail_frame [simp]:
  "pr_policy (Fail_peer p e now) = pr_policy p" "pr_identity (Fail_peer p e now) = pr_identity p"
  "pr_effective (Fail_peer p e now) = pr_effective p" "pr_domain (Fail_peer p e now) = pr_domain p"
  by (simp_all add: Fail_peer_def)

lemma guarded_kept: "kept_by_steps (guarded d0)"
  unfolding kept_by_steps_def
proof (intro allI impI)
  fix b b' assume g: "guarded d0 b" and st: "book_step b b'"
  from st show "guarded d0 b'"
  proof cases
    case (step_identity d st)
    from identity_stored_sel [OF this] g show ?thesis
      by (cases "d0 = d") (auto simp: guarded_def peer_disabled_def split: option.splits)
  next
    case step_soft
    then show ?thesis
      using g by cases (auto simp: guarded_def book_peer_disabled cap_requires_def)
  qed (use g in \<open>auto simp: guarded_def book_peer_disabled\<close>)
qed

lemmas guarded_soft = kept_soft [OF guarded_kept]

text \<open>The latch is one-way: no transition of the service clears it, for any domain.\<close>

lemma validated_kept: "kept_by_steps (\<lambda>b. cp_ever_validated (bk_caps b d0) \<and> cp_disabled (bk_caps b d0) = x)"
  unfolding kept_by_steps_def
  by (auto elim!: book_step.cases soft_step.cases dest!: identity_stored_sel split: if_splits)

definition calm :: "gerr + 'a \<Rightarrow> bool" where
  "calm r \<longleftrightarrow> (\<forall>e. r = Inl e \<longrightarrow> \<not> err_is ErrDisabled e)"

lemma calm_simps [simp]: "calm (Inr x)" "calm (Inl e) \<longleftrightarrow> \<not> err_is ErrDisabled e"
  by (simp_all add: calm_def)

lemma calm_plain: "plain_fail r \<Longrightarrow> calm r"
  by (auto simp: calm_def plain_fail_def plain_err_def)

lemma calm_resultOf [simp]: "calm (resultOf E rec d)"
  by (simp add: calm_plain)

lemma calm_required [simp]: "err_is ErrDisabled (FailRequired d c) \<longleftrightarrow> (\<exists>e. c = Some e \<and> err_is ErrDisabled e)"
  by (cases c) (auto simp: FailRequired_def)

definition resolver_calm :: "'r resolver_ops \<Rightarrow> bool" where
  "resolver_calm R \<longleftrightarrow> (\<forall>d a n. calm (fst (rv_resolve R d a n)))"

lemma triple_keep: "keeps P m \<Longrightarrow> (\<And>a. triple P (f a) Q) \<Longrightarrow> triple P (State_Monad.bind m f) Q"
  by (rule triple_bind [where R = "\<lambda>_. P"]) (auto simp: keeps_def)

lemma triple_net:
  "resolver_calm R \<Longrightarrow> triple (\<lambda>w. J (sv_store w)) (on_net (rv_resolve R d a))
     (\<lambda>r w. calm r \<and> J (sv_store w))"
  by (rule tripleI)
    (auto simp: on_net_def resolver_calm_def Let_def split: prod.splits dest: spec [of _ d],
     metis fst_conv)

text \<open>
  What the policy of the outbound path needs of a store: a predicate for a protected domain
  that every call keeps, under which a reader sees no disabled peer, the latch is reported and
  no call answers \<^verbatim>\<open>ErrDisabled\<close>.
\<close>

locale guarded_store =
  fixes E :: externs and S :: "'s store_ops" and G :: "string \<Rightarrow> 's \<Rightarrow> bool"
  assumes g_kept: "canonical_domain E d \<Longrightarrow> hard_ops S d (G d)"
    and g_get: "canonical_domain E d \<Longrightarrow> op_triple (G d) (so_get S d)
      (\<lambda>r. calm r \<and> (\<forall>p. r = Inr (Some p) \<longrightarrow> pr_policy p \<noteq> PolicyDisabled))"
    and g_capability: "canonical_domain E d \<Longrightarrow> op_triple (G d) (so_capability S d)
      (\<lambda>r. \<forall>cp. r = Inr cp \<longrightarrow> cap_requires cp)"
    and g_install: "canonical_domain E d \<Longrightarrow> op_triple (G d) (so_install S d res) calm"
    and g_failure: "canonical_domain E d \<Longrightarrow> op_triple (G d) (so_record_failure S d fe) calm"
    and g_identity: "canonical_domain E d \<Longrightarrow> op_triple (G d) (so_set_identity S d st) calm"
    and g_mark: "canonical_domain E d \<Longrightarrow> op_triple (G d) (so_mark_validated S d tm) calm"
begin

lemmas g_hard = hard_keeps [OF g_kept]
lemmas g_soft = soft_keeps [OF hard_soft [OF g_kept]]
lemmas g_calm = triple_op [OF g_install] triple_op [OF g_failure] triple_op [OF g_identity]
  triple_op [OF g_mark]

lemma calm_persistence:
  "\<not> err_is ErrDisabled e \<Longrightarrow>
     triple (\<lambda>w. G d (sv_store w)) (persistenceHold d what e) (\<lambda>r w. calm r)"
  unfolding persistenceHold_def
  by (rule triple_keep, rule keeps_still, rule triple_return) simp

lemma calm_refuse:
  assumes c: "canonical_domain E d"
  shows "triple (\<lambda>w. G d (sv_store w)) (refuse E S d prev res v acc) (\<lambda>r w. calm r)"
  unfolding refuse_def
  apply (rule triple_keep, rule soft_ops_keep [OF hard_soft [OF g_kept [OF c]]])
  apply (rule triple_keep, rule keeps_still_more)
  apply (rule triple_keep, rule g_soft [OF c])
  apply (rule triple_keep, rule keeps_still)
  apply (intro triple_if)
    apply (rule triple_keep, rule keeps_still, rule triple_return)
    apply (auto simp: say_def intro!: triple_return split: option.splits)
  done

lemma calm_install:
  assumes c: "canonical_domain E d"
  shows "triple (\<lambda>w. G d (sv_store w)) (install_accepted S d res) (\<lambda>r w. calm r)"
  unfolding install_accepted_def
  by (rule triple_bind [OF g_calm(1) [OF c]], rule triple_pure, rule triple_sum)
    (auto intro!: triple_return triple_keep [OF g_soft(2) [OF c]])

lemma calm_commit:
  assumes c: "canonical_domain E d"
  shows "triple (\<lambda>w. G d (sv_store w)) (commit E S R d a acc res prev v) (\<lambda>r w. calm r)"
proof -
  have f: "keeps (\<lambda>w. G d (sv_store w))
      (if vd_reason v = ''pinned/valid-proof-other-signer'' then followRotation E S R d a prev res
       else State_Monad.return None)"
    by (intro triple_rules g_hard c)
  show ?thesis
    unfolding commit_def
    by (rule triple_keep [OF keeps_still(1)], rule triple_bind [OF g_calm(3) [OF c]],
        rule triple_pure, rule triple_sum)
      (auto intro!: calm_persistence triple_if triple_keep [OF f]
         triple_keep [OF g_hard(3) [OF c]] triple_option triple_return
         calm_refuse [OF c] calm_install [OF c])
qed

lemma calm_settle:
  assumes c: "canonical_domain E d"
  shows "triple (\<lambda>w. G d (sv_store w)) (settle E S R d a acc res) (\<lambda>r w. calm r)"
  unfolding settle_def Let_def
  by (rule triple_keep [OF soft_ops_keep(1) [OF hard_soft [OF g_kept [OF c]]]],
      rule triple_keep [OF keeps_still_more(3)],
      rule triple_bind [OF g_calm(4) [OF c]], rule triple_pure, rule triple_sum)
    (auto intro!: calm_persistence calm_commit [OF c])

lemma calm_cached:
  assumes c: "canonical_domain E d"
  shows "triple (\<lambda>w. G d (sv_store w)) (cached_answer E S d)
    (\<lambda>r w. (\<forall>x. r = Some x \<longrightarrow> calm x) \<and> G d (sv_store w))"
  unfolding cached_answer_def
  by (rule triple_bind [OF triple_op [OF g_get [OF c]]], rule triple_pure,
      intro triple_sum triple_option triple_if)
    (auto intro!: triple_return triple_keep [OF keeps_still(1)] triple_if)

lemma calm_resolve:
  assumes c: "canonical_domain E d" and net: "resolver_calm R"
  shows "triple (\<lambda>w. G d (sv_store w)) (resolve E S R d force acc) (\<lambda>r w. calm r)"
proof -
  have cached: "triple (\<lambda>w. G d (sv_store w))
      (if force then State_Monad.return None else cached_answer E S d)
      (\<lambda>r w. (\<forall>x. r = Some x \<longrightarrow> calm x) \<and> G d (sv_store w))"
    by (intro triple_if triple_return calm_cached c) simp
  have failed: "triple (\<lambda>w. G d (sv_store w))
      (State_Monad.bind (on_store (so_record_failure S d (Some e)))
        (case_sum (\<lambda>fe. State_Monad.return (Inl fe))
          (\<lambda>_. State_Monad.bind (raise S d IssueRefreshFailed (Some e)) (\<lambda>_. State_Monad.return (Inl e)))))
      (\<lambda>r w. calm r)" if "\<not> err_is ErrDisabled e" for e
    by (rule triple_bind [OF g_calm(2) [OF c]], rule triple_pure, rule triple_sum)
      (use that in \<open>auto intro!: triple_return triple_keep [OF g_soft(1) [OF c]]\<close>)
  show ?thesis
    unfolding resolve_def
    by (rule triple_bind [OF cached], rule triple_pure, rule triple_option,
        rule triple_keep [OF g_soft(3) [OF c]], rule triple_bind [OF triple_net [OF net]],
        rule triple_pure, rule triple_sum)
      (auto intro!: failed calm_settle [OF c] triple_return)
qed

lemma calm_outbound:
  assumes c: "canonical_domain E d" and net: "resolver_calm R"
  shows "triple (\<lambda>w. G d (sv_store w)) (resolveForEncryption E S R d acc)
     (\<lambda>rp w. calm (fst rp) \<and> G d (sv_store w))"
proof -
  have r: "triple (\<lambda>w. G d (sv_store w)) (resolve E S R d False acc)
      (\<lambda>r w. calm r \<and> G d (sv_store w))"
    by (rule triple_conj [OF calm_resolve [OF c net] keeps_triple [OF g_hard(7) [OF c]]])
  show ?thesis
    unfolding resolveForEncryption_def
    by (rule triple_bind [OF triple_op [OF g_get [OF c]]], rule triple_pure, rule triple_sum)
      (auto intro!: triple_return triple_if triple_option triple_keep [OF keeps_still(1)]
        triple_bind [OF r] triple_pure split: option.splits sum.splits)
qed

lemma policy_required:
  assumes c: "canonical_domain E d" and e: "\<not> err_is ErrDisabled e"
  shows "triple (\<lambda>w. G d (sv_store w)) (policyFailure S p d e)
     (\<lambda>r w. is_required r \<and> G d (sv_store w))"
  unfolding policyFailure_def using e
  by (auto intro!: triple_if triple_return triple_bind [OF triple_op [OF g_capability [OF c]]]
      triple_pure split: sum.splits)

text \<open>A protected domain is sealed or held, whatever fails.\<close>

lemma no_downgrade:
  assumes c: "canonical_domain E d" and n: "NormalizeDomain E domain = Inr d" and net: "resolver_calm R"
  shows "triple (\<lambda>w. G d (sv_store w)) (resolveEncrypting E S R domain acc)
     (\<lambda>r w. (\<forall>e. r = Inl e \<longrightarrow> is_required e) \<and> G d (sv_store w))"
  unfolding resolveEncrypting_def n
  by (simp, rule triple_bind [OF calm_outbound [OF c net]])
    (auto intro!: triple_pure triple_prod triple_sum triple_return triple_bind [OF policy_required [OF c]])

end

text \<open>The contract of the store gives all of this for a domain that its book protects.\<close>

sublocale store_contract \<subseteq> steady: guarded_store E S "\<lambda>d s. guarded d (view s)"
proof
  fix d assume c: "canonical_domain E d"
  note k = guarded_kept [of d, unfolded kept_by_steps_def, rule_format]
  have still: "\<not> err_is ErrDisabled e" if "guarded d b" "\<not> (err_is ErrDisabled e \<and> \<not> peer_disabled b d)" for e b
    using that by (simp add: guarded_def)
  show "hard_ops S d (\<lambda>s. guarded d (view s))"
    by (rule hard_kept [OF c guarded_kept])
  show "op_triple (\<lambda>s. guarded d (view s)) (so_get S d)
      (\<lambda>r. calm r \<and> (\<forall>p. r = Inr (Some p) \<longrightarrow> pr_policy p \<noteq> PolicyDisabled))"
    by (rule op_outcome [OF get [OF c]]) (auto simp: guarded_def peer_disabled_def)
  show "op_triple (\<lambda>s. guarded d (view s)) (so_capability S d) (\<lambda>r. \<forall>cp. r = Inr cp \<longrightarrow> cap_requires cp)"
    by (rule op_outcome [OF capability [OF c]]) (auto simp: guarded_def)
  show "op_triple (\<lambda>s. guarded d (view s)) (so_install S d res) calm" for res
    by (rule op_outcome [OF install [OF c]]) (use still k step_install in \<open>auto\<close>)
  show "op_triple (\<lambda>s. guarded d (view s)) (so_record_failure S d fe) calm" for fe
    by (rule op_outcome [OF record_failure [OF c]]) (use still k step_soft [OF step_fail] in auto)
  show "op_triple (\<lambda>s. guarded d (view s)) (so_set_identity S d st) calm" for st
    by (rule op_outcome [OF set_identity [OF c]]) (use still k step_identity in auto)
  show "op_triple (\<lambda>s. guarded d (view s)) (so_mark_validated S d tm) calm" for tm
    by (rule op_outcome [OF mark [OF c]]) (use still k step_soft [OF step_mark] in auto)
qed

context store_contract
begin

lemma no_downgrade:
  "canonical_domain E d \<Longrightarrow> NormalizeDomain E domain = Inr d \<Longrightarrow> resolver_calm R
     \<Longrightarrow> triple (\<lambda>w. guarded d (book_at view w)) (resolveEncrypting E S R domain acc)
           (\<lambda>r w. (\<forall>e. r = Inl e \<longrightarrow> is_required e) \<and> guarded d (book_at view w))"
  unfolding book_at_def by (rule steady.no_downgrade)

end

section \<open>A pinned domain\<close>

definition pinned_as :: "book \<Rightarrow> string \<Rightarrow> bytes \<Rightarrow> bytes \<Rightarrow> bool" where
  "pinned_as b d fp key \<longleftrightarrow> (\<exists>p. bk_peers b d = Some p \<and> pr_domain p = d
     \<and> id_status (pr_identity p) = IdentityPinned
     \<and> id_fingerprint (pr_identity p) = fp \<and> id_pinned_key (pr_identity p) = key)"

definition effective_of :: "book \<Rightarrow> string \<Rightarrow> manifest_record option" where
  "effective_of b d = (case bk_peers b d of Some p \<Rightarrow> pr_effective p | None \<Rightarrow> None)"

text \<open>An identity reached from another by statements each preceding key signed.\<close>

definition succeeds :: "externs \<Rightarrow> bytes \<times> bytes \<Rightarrow> bytes \<times> bytes \<Rightarrow> bool" where
  "succeeds E x y \<longleftrightarrow> (\<exists>now chain. descends E now (set chain) x y)"

definition signed_by :: "fetch_result \<Rightarrow> bytes \<Rightarrow> bool" where
  "signed_by res fp \<longleftrightarrow> (\<exists>pf. valid_proof res = Some pf \<and> pf_fingerprint pf = fp)"

text \<open>What resolution may make of a pinned record: the pin in force descends from the old one,
  and the effective manifest is the old one or one the pin in force signed.\<close>

definition trusted ::
  "externs \<Rightarrow> string \<Rightarrow> manifest_record option \<Rightarrow> bytes \<times> bytes \<Rightarrow> book \<Rightarrow> bool" where
  "trusted E d eff x b \<longleftrightarrow> (\<exists>fp key. pinned_as b d fp key \<and> succeeds E x (fp, key)
     \<and> (effective_of b d = eff
        \<or> (\<exists>res. effective_of b d = Some (installed_record res) \<and> signed_by res fp)))"

text \<open>The manifest handed out: the cached one, or one the pin in force signed.\<close>

definition answer_ok ::
  "externs \<Rightarrow> string \<Rightarrow> manifest_record option \<Rightarrow> bytes \<times> bytes \<Rightarrow> gerr + fetch_result \<Rightarrow> bool" where
  "answer_ok E d eff x r \<longleftrightarrow> (\<forall>res. r = Inr res \<longrightarrow>
     (\<exists>fp key. succeeds E x (fp, key) \<and> signed_by res fp)
     \<or> (\<exists>rec. eff = Some rec \<and> resultOf E rec d = Inr res))"

text \<open>What following a rotation leaves: nothing moved but the pin, along signed statements, or
  the fetched manifest is in force under the pin it was signed with.\<close>

definition followed ::
  "externs \<Rightarrow> string \<Rightarrow> manifest_record option \<Rightarrow> bytes \<times> bytes \<Rightarrow> fetch_result
     \<Rightarrow> fetch_result option \<Rightarrow> book \<Rightarrow> bool" where
  "followed E d eff x res r b \<longleftrightarrow>
     (case r of
        None \<Rightarrow> \<exists>fp key. succeeds E x (fp, key) \<and> pinned_as b d fp key \<and> effective_of b d = eff
      | Some res' \<Rightarrow> res' = res \<and> answer_ok E d eff x (Inr res) \<and> trusted E d eff x b)"

lemma succeeds_refl [simp]: "succeeds E x x"
  by (auto simp: succeeds_def intro: descends_refl)

lemma answer_ok_simps [simp]: "answer_ok E d eff x (Inl e)"
  by (simp add: answer_ok_def)

lemma followed_stay:
  "pinned_as b d fp key \<Longrightarrow> effective_of b d = eff \<Longrightarrow> succeeds E x (fp, key)
     \<Longrightarrow> followed E d eff x res None b"
  by (auto simp: followed_def)

lemma followed_Some:
  "pinned_as b d fp key \<Longrightarrow> effective_of b d = Some (installed_record res) \<Longrightarrow> succeeds E x (fp, key)
     \<Longrightarrow> signed_by res fp \<Longrightarrow> followed E d eff x res (Some res) b"
  by (auto simp: followed_def answer_ok_def trusted_def)

lemma soft_step_pin:
  assumes "soft_step b b'"
  shows "pinned_as b d fp key \<Longrightarrow> pinned_as b' d fp key"
    and "pinned_as b d fp key \<Longrightarrow> effective_of b' d = effective_of b d"
  using assms Observe_keys
  by (auto elim!: soft_step.cases
      simp: pinned_as_def effective_of_def book_peer_def same_keys_def same_pin_def split: if_splits)

lemma trusted_soft: "kept_by_soft (trusted E d eff x)"
  unfolding kept_by_soft_def trusted_def by (metis soft_step_pin)

lemma pinned_soft: "kept_by_soft (\<lambda>b. pinned_as b d fp key \<and> effective_of b d = eff)"
  unfolding kept_by_soft_def using soft_step_pin by metis

lemma trusted_start:
  "pinned_as b d fp key \<Longrightarrow> effective_of b d = eff \<Longrightarrow> succeeds E x (fp, key) \<Longrightarrow> trusted E d eff x b"
  unfolding trusted_def by blast

lemma pinned_identity_stored:
  assumes "identity_stored d st b b'" and "bk_peers b d = Some p"
  shows "bk_peers b' d = Some (p\<lparr>pr_identity := st\<rparr>)"
  using assms by (simp add: identity_stored_def)

lemma Install_put:
  assumes "bk_peers b d = Some p"
  shows "pinned_as (book_put d (Install (book_peer b d) r now) b) d fp key = pinned_as b d fp key"
    and "effective_of (book_put d (Install (book_peer b d) r now) b) d = Some (installed_record r)"
  using assms by (simp_all add: pinned_as_def effective_of_def book_peer_def)

context store_contract
begin

lemma set_identity_pin:
  assumes c: "canonical_domain E d" and st: "id_status st = IdentityPinned"
  shows "triple (\<lambda>w. pinned_as (book_at view w) d fp key \<and> effective_of (book_at view w) d = eff)
     (on_store (so_set_identity S d st))
     (\<lambda>r w. effective_of (book_at view w) d = eff
        \<and> (case r of Inl e \<Rightarrow> pinned_as (book_at view w) d fp key
           | Inr _ \<Rightarrow> pinned_as (book_at view w) d (id_fingerprint st) (id_pinned_key st)))"
  by (rule triple_store [OF set_identity [OF c]])
    (use st in \<open>auto simp: pinned_as_def effective_of_def dest: pinned_identity_stored\<close>)

lemma install_pin:
  assumes c: "canonical_domain E d"
  shows "triple (\<lambda>w. pinned_as (book_at view w) d fp key \<and> effective_of (book_at view w) d = eff)
     (on_store (so_install S d res))
     (\<lambda>r w. pinned_as (book_at view w) d fp key
        \<and> effective_of (book_at view w) d
            = (case r of Inl e \<Rightarrow> eff | Inr _ \<Rightarrow> Some (installed_record res)))"
  by (rule triple_store [OF install [OF c]])
    (auto simp: pinned_as_def effective_of_def book_peer_def)

lemma install_successor_trusted:
  assumes c: "canonical_domain E d" and st: "id_status st = IdentityPinned"
    and x: "succeeds E x (fp, key)" "succeeds E x (id_fingerprint st, id_pinned_key st)"
    and sg: "signed_by res (id_fingerprint st)"
  shows "triple (\<lambda>w. pinned_as (book_at view w) d fp key \<and> effective_of (book_at view w) d = eff)
     (install_successor S d st res)
     (\<lambda>r w. followed E d eff x res r (book_at view w))"
proof -
  let ?fp = "id_fingerprint st" and ?key = "id_pinned_key st"
  have new: "triple (\<lambda>w. pinned_as (book_at view w) d ?fp ?key
        \<and> effective_of (book_at view w) d = Some (installed_record res))
      (do { clear_issues S d [IssueSignerChanged, IssueProofMissing, IssueMailHeld];
            emit (EvError d (Msg ''identity rotated: pin moved to %s by a signed transition''));
            State_Monad.return (Some res) })
      (\<lambda>r w. followed E d eff x res r (book_at view w))"
    by (rule triple_keep [OF keeps_clear [OF c pinned_soft]], rule triple_keep [OF keeps_local(4)],
        rule triple_return)
      (use x(2) sg in \<open>auto intro: followed_Some\<close>)
  show ?thesis
    unfolding install_successor_def
  proof (rule triple_bind [OF set_identity_pin [OF c st]], rule triple_sum)
    fix r :: "gerr + unit" and e assume r: "r = Inl e"
    show "triple (\<lambda>w. effective_of (book_at view w) d = eff
         \<and> (case r of Inl e \<Rightarrow> pinned_as (book_at view w) d fp key
            | Inr _ \<Rightarrow> pinned_as (book_at view w) d ?fp ?key))
       (do { emit (EvError d (Wrapped ''identity state: %w'' e)); State_Monad.return None })
       (\<lambda>r w. followed E d eff x res r (book_at view w))"
      unfolding r sum.case
      by (rule triple_keep, rule keeps_local(4)
            [where I = "\<lambda>b. effective_of b d = eff \<and> pinned_as b d fp key"], rule triple_return)
        (use x(1) in \<open>auto intro: followed_stay\<close>)
  next
    fix r :: "gerr + unit" and u assume r: "r = Inr u"
    show "triple (\<lambda>w. effective_of (book_at view w) d = eff
         \<and> (case r of Inl e \<Rightarrow> pinned_as (book_at view w) d fp key
            | Inr _ \<Rightarrow> pinned_as (book_at view w) d ?fp ?key))
       (on_store (so_install S d res) \<bind>
         (\<lambda>r. case r of Inl _ \<Rightarrow> State_Monad.return None
            | Inr _ \<Rightarrow> do { clear_issues S d [IssueSignerChanged, IssueProofMissing, IssueMailHeld];
                 emit (EvError d (Msg ''identity rotated: pin moved to %s by a signed transition''));
                 State_Monad.return (Some res) }))
       (\<lambda>r w. followed E d eff x res r (book_at view w))"
      unfolding r sum.case
      apply (subst conj_commute)
    proof (rule triple_bind [OF install_pin [OF c, where fp = ?fp and key = ?key and eff = eff]])
      fix r' :: "gerr + unit"
      show "triple (\<lambda>w. pinned_as (book_at view w) d ?fp ?key \<and> effective_of (book_at view w) d
            = (case r' of Inl e \<Rightarrow> eff | Inr _ \<Rightarrow> Some (installed_record res)))
         (case r' of Inl _ \<Rightarrow> State_Monad.return None
            | Inr _ \<Rightarrow> do { clear_issues S d [IssueSignerChanged, IssueProofMissing, IssueMailHeld];
                 emit (EvError d (Msg ''identity rotated: pin moved to %s by a signed transition''));
                 State_Monad.return (Some res) })
         (\<lambda>r w. followed E d eff x res r (book_at view w))"
        by (rule triple_sum, rule triple_return, use x(2) in \<open>auto intro: followed_stay\<close>, insert new, auto)
    qed
  qed
qed

text \<open>The record as a reader saw it, and as it still is.\<close>

lemma follow_doc_trusted:
  assumes c: "canonical_domain E d" and p: "id_fingerprint (pr_identity p) = fp"
      "id_pinned_key (pr_identity p) = key"
    and pf: "valid_proof res = Some pf"
  shows "triple (\<lambda>w. pinned_as (book_at view w) d fp key \<and> effective_of (book_at view w) d = eff)
     (follow_doc E S d p pf res dc)
     (\<lambda>r w. followed E d eff (fp, key) res r (book_at view w))"
    (is "triple ?P _ ?Q")
proof -
  have stay: "triple ?P (State_Monad.return None) ?Q"
    by (rule triple_return) (auto intro: followed_stay)
  have quiet: "triple ?P (do { raise S d code t; State_Monad.return None }) ?Q" for code t
    by (rule triple_keep [OF keeps_raise [OF c pinned_soft]]) (rule stay)
  show ?thesis
    unfolding follow_doc_def p
  proof (rule triple_keep [OF keeps_local(1) [where I = "\<lambda>b. pinned_as b d fp key \<and> effective_of b d = eff"]],
      rule triple_prod, rule triple_option)
    fix now walked e
    assume w: "WalkChain E fp key (dc_chain dc) now = (walked, e)" and e: "e = None"
    have suc: "succeeds E (fp, key) (cr_fingerprint walked, cr_public_key walked)"
      using WalkChain_descends [OF w] by (auto simp: succeeds_def)
    have inst: "triple ?P (do { t \<leftarrow> svc_now;
         install_successor S d (rotated_identity (pr_identity p) walked res t) res }) ?Q"
      if "cr_fingerprint walked = pf_fingerprint pf"
    proof (rule triple_keep [OF keeps_local(1) [where I = "\<lambda>b. pinned_as b d fp key \<and> effective_of b d = eff"]])
      fix t
      let ?st = "rotated_identity (pr_identity p) walked res t"
      have st: "id_status ?st = IdentityPinned" "id_fingerprint ?st = cr_fingerprint walked"
        "id_pinned_key ?st = cr_public_key walked"
        by (simp_all add: rotated_identity_def Let_def)
      show "triple ?P (install_successor S d ?st res) ?Q"
        by (rule install_successor_trusted [OF c st(1)])
          (use suc st pf that in \<open>auto simp: signed_by_def\<close>)
    qed
    show "triple ?P
         (if cr_revoked walked then
            do { raise S d IssueRevoked (say ''the pinned identity was revoked: %s''); State_Monad.return None }
          else if cr_applied walked = 0 \<or> cr_fingerprint walked \<noteq> pf_fingerprint pf then State_Monad.return None
          else do { t \<leftarrow> svc_now;
                    install_successor S d (rotated_identity (pr_identity p) walked res t) res }) ?Q"
      by (intro triple_if quiet stay inst) simp
  qed (rule quiet)
qed

lemma followRotation_trusted:
  assumes c: "canonical_domain E d" and p: "id_fingerprint (pr_identity p) = fp"
      "id_pinned_key (pr_identity p) = key"
    and pf: "valid_proof res = Some pf"
  shows "triple (\<lambda>w. pinned_as (book_at view w) d fp key \<and> effective_of (book_at view w) d = eff)
     (followRotation E S R d a (Some p) res)
     (\<lambda>r w. followed E d eff (fp, key) res r (book_at view w))"
    (is "triple ?P _ ?Q")
proof -
  have stay: "triple ?P (State_Monad.return None) ?Q"
    by (rule triple_return) (auto intro: followed_stay)
  have pr: "rs_proof res = Some pf" using pf by (simp add: valid_proof_def split: if_splits)
  note k = keeps_local [where I = "\<lambda>b. pinned_as b d fp key \<and> effective_of b d = eff"]
  show ?thesis
  proof (cases "rv_chain R")
    case None
    then show ?thesis using stay by (simp add: followRotation_def)
  next
    case (Some f)
    show ?thesis
      unfolding followRotation_def Some pr
      by (simp, intro triple_if conjI impI stay, rule triple_keep [OF k(2)], rule triple_sum,
          rule triple_keep [OF k(4)], rule stay, rule follow_doc_trusted [OF c p pf])
  qed
qed

lemma refuse_trusted:
  assumes c: "canonical_domain E d" and prev: "\<And>rec t. Usable prev t = Some rec \<Longrightarrow> eff = Some rec"
  shows "triple (\<lambda>w. pinned_as (book_at view w) d fp key \<and> effective_of (book_at view w) d = eff)
     (refuse E S d prev res v False)
     (\<lambda>r w. answer_ok E d eff x r)"
proof -
  note k = keeps_local [where I = "\<lambda>b. pinned_as b d fp key \<and> effective_of b d = eff"]
  have ok: "answer_ok E d eff x (resultOf E rec d)" if "Usable prev t = Some rec" for rec t
    using prev [OF that] by (auto simp: answer_ok_def)
  show ?thesis
    unfolding refuse_def
    by (rule triple_keep [OF keeps_ops(3) [OF c pinned_soft]],
        rule triple_keep [OF keeps_emit_err [where I = "\<lambda>b. pinned_as b d fp key \<and> effective_of b d = eff"]],
        rule triple_keep [OF keeps_raise [OF c pinned_soft]], rule triple_keep [OF k(4)], intro triple_if,
        rule triple_keep [OF k(1)], rule triple_return)
      (auto intro!: triple_return split: option.splits dest: ok)
qed

lemma install_accepted_trusted:
  assumes c: "canonical_domain E d" and sg: "signed_by res fp"
  shows "triple (\<lambda>w. pinned_as (book_at view w) d fp key \<and> effective_of (book_at view w) d = eff)
     (install_accepted S d res)
     (\<lambda>r w. trusted E d eff (fp, key) (book_at view w) \<and> answer_ok E d eff (fp, key) r)"
proof -
  have ok: "answer_ok E d eff (fp, key) (Inr res)"
    using sg succeeds_refl [of E "(fp, key)"] unfolding answer_ok_def by blast
  have tr: "trusted E d eff (fp, key) b" if "pinned_as b d fp key" "effective_of b d = Some (installed_record res)" for b
    using that sg succeeds_refl [of E "(fp, key)"] unfolding trusted_def by blast
  show ?thesis
    unfolding install_accepted_def
  proof (rule triple_bind [OF install_pin [OF c, where fp = fp and key = key and eff = eff]], rule triple_sum)
    fix r :: "gerr + unit" and e assume "r = Inl e"
    then show "triple (\<lambda>w. pinned_as (book_at view w) d fp key \<and> effective_of (book_at view w) d
            = (case r of Inl e \<Rightarrow> eff | Inr _ \<Rightarrow> Some (installed_record res)))
         (State_Monad.return (Inl e))
         (\<lambda>r w. trusted E d eff (fp, key) (book_at view w) \<and> answer_ok E d eff (fp, key) r)"
      by (auto intro!: triple_return trusted_start)
  next
    fix r :: "gerr + unit" and u assume r: "r = Inr u"
    show "triple (\<lambda>w. pinned_as (book_at view w) d fp key \<and> effective_of (book_at view w) d
            = (case r of Inl e \<Rightarrow> eff | Inr _ \<Rightarrow> Some (installed_record res)))
         (do { clear_issues S d [IssueSignerChanged, IssueProofMissing, IssuePinWithheld,
                     IssueReplay, IssueRefreshFailed, IssueDowngradeBlocked];
               State_Monad.return (Inr res) })
         (\<lambda>r w. trusted E d eff (fp, key) (book_at view w) \<and> answer_ok E d eff (fp, key) r)"
      unfolding r sum.case
      by (rule triple_keep [OF keeps_clear [OF c pinned_soft]], rule triple_return) (simp add: ok tr)
  qed
qed

lemma commit_trusted:
  assumes c: "canonical_domain E d" and p: "id_status (pr_identity p) = IdentityPinned"
      "id_fingerprint (pr_identity p) = fp" "id_pinned_key (pr_identity p) = key"
    and eff: "pr_effective p = eff"
    and v: "v = DecideIdentity (Some p) res f has cu"
  shows "triple (\<lambda>w. pinned_as (book_at view w) d fp key \<and> effective_of (book_at view w) d = eff)
     (commit E S R d a False res (Some p) v)
     (\<lambda>r w. trusted E d eff (fp, key) (book_at view w) \<and> answer_ok E d eff (fp, key) r)"
    (is "triple ?P _ ?Q")
proof -
  note k = keeps_local [where I = "\<lambda>b. pinned_as b d fp key \<and> effective_of b d = eff"]
  note refl = succeeds_refl [of E "(fp, key)"]
  have hold: "triple ?P (persistenceHold d what e) ?Q" for what e
    unfolding persistenceHold_def
    by (rule triple_keep [OF k(4)], rule triple_return) (auto intro: trusted_start)
  have us: "eff = Some rec" if "Usable (Some p) t = Some rec" for rec t
    using that eff by (auto simp: Usable_def split: if_splits option.splits)
  have refused: "triple (\<lambda>w. pinned_as (book_at view w) d fp' key' \<and> effective_of (book_at view w) d = eff)
      (refuse E S d (Some p) res v False) ?Q" if "succeeds E (fp, key) (fp', key')" for fp' key'
  proof -
    have "triple (\<lambda>w. pinned_as (book_at view w) d fp' key' \<and> effective_of (book_at view w) d = eff)
      (refuse E S d (Some p) res v False)
      (\<lambda>r w. (pinned_as (book_at view w) d fp' key' \<and> effective_of (book_at view w) d = eff)
         \<and> answer_ok E d eff (fp, key) r)"
      by (rule triple_conj [OF keeps_triple [OF keeps_refuse [OF c pinned_soft]] refuse_trusted [OF c us]])
    then show ?thesis by (rule triple_post) (use that in \<open>auto intro: trusted_start\<close>)
  qed
  have not_accepted: "triple ?P
      (do { f \<leftarrow> (if vd_reason v = ''pinned/valid-proof-other-signer''
                  then followRotation E S R d a (Some p) res else State_Monad.return None);
            case f of None \<Rightarrow> refuse E S d (Some p) res v False
            | Some res2 \<Rightarrow> State_Monad.return (Inr res2) }) ?Q"
  proof (cases "vd_reason v = ''pinned/valid-proof-other-signer''")
    case True
    then obtain pf where pf: "valid_proof res = Some pf"
      using DecideIdentity_other_signer [of "Some p" res f has cu] by (auto simp: v)
    show ?thesis
      unfolding True simp_thms if_True
    proof (rule triple_bind [OF followRotation_trusted [OF c p(2,3) pf]], rule triple_option)
      fix f :: "fetch_result option" and r2 assume "f = Some r2"
      then show "triple (\<lambda>w. followed E d eff (fp, key) res f (book_at view w))
           (State_Monad.return (Inr r2)) ?Q"
        by (auto intro!: triple_return simp: followed_def)
    next
      fix f :: "fetch_result option" assume "f = None"
      then show "triple (\<lambda>w. followed E d eff (fp, key) res f (book_at view w))
           (refuse E S d (Some p) res v False) ?Q"
        using refused by (auto simp: triple_def followed_def)
    qed
  next
    case False
    then show ?thesis using refused [OF refl] by simp
  qed
  have set: "triple ?P (on_store (so_set_identity S d (ApplyIdentity (pr_identity p) v res t)))
      (\<lambda>_ w. pinned_as (book_at view w) d fp key \<and> effective_of (book_at view w) d = eff)" for t
    using ApplyIdentity_pinned [OF p(1), of v res t] p
    by (intro triple_post [OF set_identity_pin [OF c, where fp = fp and key = key and eff = eff]])
      (auto simp: same_pin_def split: sum.splits)
  have acc: "vd_accept v \<Longrightarrow> signed_by res fp"
    using p by (auto simp: v DecideIdentity_accept state_of_def signed_by_def)
  show ?thesis
    unfolding commit_def identityOf_def option.case
    by (rule triple_keep [OF k(1)], rule triple_bind [OF set], rule triple_sum, rule hold,
        rule triple_if, rule not_accepted, rule install_accepted_trusted [OF c acc], simp)
qed

text \<open>The latch is set before anything else is written: a fetch that validated leaves either a
  latched domain or an error the caller must hold mail on.\<close>

lemma latched_kept: "kept_by_steps (\<lambda>b. cp_ever_validated (bk_caps b d0))"
  unfolding kept_by_steps_def
  by (auto elim!: book_step.cases soft_step.cases dest!: identity_stored_sel split: if_splits)

lemma settle_latches:
  assumes c: "canonical_domain E d"
  shows "triple (\<lambda>w. True) (settle E S R d a acc res)
     (\<lambda>r w. cp_ever_validated (bk_caps (book_at view w) d) \<or> (\<exists>e. r = Inl e \<and> is_required e))"
proof -
  let ?V = "\<lambda>w. cp_ever_validated (bk_caps (book_at view w) d)"
  have set: "triple (\<lambda>w. True) (on_store (so_mark_validated S d t)) (\<lambda>r w. case r of Inl e \<Rightarrow> True | Inr _ \<Rightarrow> ?V w)" for t
    by (rule triple_store [OF mark [OF c], where I = "\<lambda>_. True"]) auto
  show ?thesis
    unfolding settle_def Let_def
  proof (rule triple_keep, simp add: keeps_def triple_def, rule triple_keep, simp add: keeps_def triple_def,
      rule triple_bind [OF set], rule triple_sum)
    fix m :: "gerr + unit" and v e g assume "m = Inl e"
    then show "triple (\<lambda>w. case m of Inl e \<Rightarrow> True | Inr _ \<Rightarrow> ?V w) (persistenceHold d ''capability latch'' e)
       (\<lambda>r w. ?V w \<or> (\<exists>e. r = Inl e \<and> is_required e))"
      unfolding persistenceHold_def
      by (intro triple_keep triple_return) (simp_all add: keeps_def triple_def)
  next
    fix m :: "gerr + unit" and v u g assume m: "m = Inr u"
    show "triple (\<lambda>w. case m of Inl e \<Rightarrow> True | Inr _ \<Rightarrow> ?V w) (commit E S R d a acc res (case g of Inl _ \<Rightarrow> None | Inr p \<Rightarrow> p) v)
       (\<lambda>r w. ?V w \<or> (\<exists>e. r = Inl e \<and> is_required e))"
      unfolding m sum.case
      by (rule triple_post [OF keeps_triple [OF keeps_resolve(2) [OF c latched_kept]]]) simp
  qed
qed

end

section \<open>Resolving a pinned domain\<close>

text \<open>A store whose reads do not fail; \<open>settle\<close> ignores the error of one that does.\<close>

definition reads_ok :: "externs \<Rightarrow> 's store_ops \<Rightarrow> bool" where
  "reads_ok E S \<longleftrightarrow> (\<forall>d s e. canonical_domain E d \<longrightarrow> fst (so_get S d s) \<noteq> Inl e)"

text \<open>What a reliable read of a pinned record shows.\<close>

definition shows_pin :: "string \<Rightarrow> bytes \<Rightarrow> bytes \<Rightarrow> manifest_record option \<Rightarrow> gerr + peer option \<Rightarrow> bool" where
  "shows_pin d fp key eff g \<longleftrightarrow> (\<exists>p. g = Inr (Some p) \<and> pr_domain p = d \<and> pr_effective p = eff
     \<and> id_status (pr_identity p) = IdentityPinned \<and> id_fingerprint (pr_identity p) = fp
     \<and> id_pinned_key (pr_identity p) = key)"

context store_contract
begin

lemma get_pin:
  assumes c: "canonical_domain E d" and ok: "reads_ok E S"
  shows "triple (\<lambda>w. pinned_as (book_at view w) d fp key \<and> effective_of (book_at view w) d = eff)
     (on_store (so_get S d))
     (\<lambda>r w. shows_pin d fp key eff r
        \<and> (pinned_as (book_at view w) d fp key \<and> effective_of (book_at view w) d = eff))"
proof (rule tripleI)
  fix w r w'
  assume i: "pinned_as (book_at view w) d fp key \<and> effective_of (book_at view w) d = eff"
    and run: "run_state (on_store (so_get S d)) w = (r, w')"
  obtain r' s' where f: "so_get S d (sv_store w) = (r', s')" by fastforce
  from run f have r: "r = r'" and w: "w' = w\<lparr>sv_store := s'\<rparr>"
    by (auto simp: on_store_def Let_def)
  have ne: "r' \<noteq> Inl e" for e
    using ok [unfolded reads_ok_def, rule_format, OF c, of "sv_store w" e] f by simp
  from get [OF c, of "sv_store w"] i ne
  show "shows_pin d fp key eff r
        \<and> (pinned_as (book_at view w') d fp key \<and> effective_of (book_at view w') d = eff)"
    unfolding f by (cases r') (auto simp: r w book_at_def outcome_def pinned_as_def effective_of_def shows_pin_def)
qed

lemma settle_trusted:
  assumes c: "canonical_domain E d" and ok: "reads_ok E S"
  shows "triple (\<lambda>w. pinned_as (book_at view w) d fp key \<and> effective_of (book_at view w) d = eff)
     (settle E S R d a False res)
     (\<lambda>r w. trusted E d eff (fp, key) (book_at view w) \<and> answer_ok E d eff (fp, key) r)"
    (is "triple ?P _ ?Q")
proof -
  note k = keeps_local [where I = "\<lambda>b. pinned_as b d fp key \<and> effective_of b d = eff"]
  have hold: "triple ?P (persistenceHold d what e) ?Q" for what e
    unfolding persistenceHold_def
    by (rule triple_keep [OF k(4)], rule triple_return) (auto intro: trusted_start)
  show ?thesis
    unfolding settle_def Let_def
  proof (rule triple_bind [OF get_pin [OF c ok]], rule triple_pure)
    fix g assume "shows_pin d fp key eff g"
    then obtain p where g: "g = Inr (Some p)" and p: "pr_domain p = d" "pr_effective p = eff"
      "id_status (pr_identity p) = IdentityPinned" "id_fingerprint (pr_identity p) = fp"
      "id_pinned_key (pr_identity p) = key"
      by (auto simp: shows_pin_def)
    show "triple ?P
       (do { v \<leftarrow> decide (case g of Inl _ \<Rightarrow> None | Inr p \<Rightarrow> p) res;
             m \<leftarrow> on_store (so_mark_validated S d (rs_fetched_at res));
             case m of Inl e \<Rightarrow> persistenceHold d ''capability latch'' e
             | Inr _ \<Rightarrow> commit E S R d a False res (case g of Inl _ \<Rightarrow> None | Inr p \<Rightarrow> p) v }) ?Q"
      unfolding g sum.case decide_def option.case State_Monad.bind_assoc
      by (rule triple_keep [OF k(1)], simp only: State_Monad.bind_left_identity,
          rule triple_keep [OF keeps_ops(7) [OF c pinned_soft]], rule triple_sum, rule hold,
          rule commit_trusted [OF c p(3-5,2)], rule refl)
  qed
qed

text \<open>A resolver that follows one answer of the service for a pinned domain.\<close>

lemma cached_pin:
  assumes c: "canonical_domain E d" and ok: "reads_ok E S"
  shows "triple (\<lambda>w. pinned_as (book_at view w) d fp key \<and> effective_of (book_at view w) d = eff)
     (cached_answer E S d)
     (\<lambda>r w. (\<forall>x. r = Some x \<longrightarrow> answer_ok E d eff (fp, key) x)
        \<and> (pinned_as (book_at view w) d fp key \<and> effective_of (book_at view w) d = eff))"
    (is "triple ?P _ ?Q")
proof -
  note k = keeps_local [where I = "\<lambda>b. pinned_as b d fp key \<and> effective_of b d = eff"]
  show ?thesis
    unfolding cached_answer_def
  proof (rule triple_bind [OF get_pin [OF c ok]], rule triple_pure)
    fix g assume "shows_pin d fp key eff g"
    then obtain p where g: "g = Inr (Some p)" and p: "pr_effective p = eff"
      by (auto simp: shows_pin_def)
    have us: "answer_ok E d eff (fp, key) (resultOf E rec d)" if "Usable (Some p) t = Some rec" for rec t
      using that p by (auto simp: Usable_def answer_ok_def split: if_splits option.splits)
    show "triple ?P
       (case g of Inl _ \<Rightarrow> State_Monad.return None
        | Inr None \<Rightarrow> State_Monad.return None
        | Inr (Some p) \<Rightarrow>
            if pr_policy p = PolicyDisabled then State_Monad.return (Some (Inl (Sentinel ErrDisabled)))
            else do { t1 \<leftarrow> svc_now;
                      if fst (NeedsRefresh (Some p) t1) then State_Monad.return None
                      else do { t2 \<leftarrow> svc_now;
                                State_Monad.return
                                  (map_option (\<lambda>rec. resultOf E rec d) (Usable (Some p) t2)) } }) ?Q"
      unfolding g sum.case option.case
      by (rule triple_if, rule triple_return, simp, rule triple_keep [OF k(1)], rule triple_if,
          rule triple_return, simp, rule triple_keep [OF k(1)], rule triple_return)
        (use us in auto)
  qed
qed

lemma resolve_trusted:
  assumes c: "canonical_domain E d" and ok: "reads_ok E S"
  shows "triple (\<lambda>w. pinned_as (book_at view w) d fp key \<and> effective_of (book_at view w) d = eff)
     (resolve E S R d force False)
     (\<lambda>r w. trusted E d eff (fp, key) (book_at view w) \<and> answer_ok E d eff (fp, key) r)"
    (is "triple ?P _ ?Q")
proof -
  note k = keeps_local [where I = "\<lambda>b. pinned_as b d fp key \<and> effective_of b d = eff"]
  have cached: "triple ?P (if force then State_Monad.return None else cached_answer E S d)
     (\<lambda>r w. (\<forall>x. r = Some x \<longrightarrow> answer_ok E d eff (fp, key) x) \<and> ?P w)"
    by (intro triple_if triple_return cached_pin c ok) simp
  have err: "triple ?P (State_Monad.return (Inl e)) ?Q" for e
    by (rule triple_return) (auto intro: trusted_start)
  show ?thesis
    unfolding resolve_def
    by (rule triple_bind [OF cached], rule triple_pure, rule triple_option,
        rule triple_keep [OF keeps_hint [OF c pinned_soft]], rule triple_keep [OF k(2)], rule triple_sum,
        rule triple_keep [OF keeps_ops(3) [OF c pinned_soft]], rule triple_sum, rule err,
        rule triple_keep [OF keeps_raise [OF c pinned_soft]], rule err, rule settle_trusted [OF c ok],
        rule triple_return)
      (auto intro: trusted_start)
qed

lemma outbound_trusted:
  assumes c: "canonical_domain E d" and ok: "reads_ok E S"
  shows "triple (\<lambda>w. pinned_as (book_at view w) d fp key \<and> effective_of (book_at view w) d = eff)
     (resolveForEncryption E S R d False)
     (\<lambda>rp w. trusted E d eff (fp, key) (book_at view w) \<and> answer_ok E d eff (fp, key) (fst rp))"
    (is "triple ?P _ ?Q")
proof -
  note k = keeps_local [where I = "\<lambda>b. pinned_as b d fp key \<and> effective_of b d = eff"]
  show ?thesis
    unfolding resolveForEncryption_def
  proof (rule triple_bind [OF get_pin [OF c ok]], rule triple_pure)
    fix g assume "shows_pin d fp key eff g"
    then obtain p where g: "g = Inr (Some p)" and p: "pr_effective p = eff" "pr_domain p = d"
      by (auto simp: shows_pin_def)
    have us: "answer_ok E d eff (fp, key) (resultOf E rec d)" if "Usable (Some p) t = Some rec" for rec t
      using that p by (auto simp: Usable_def answer_ok_def split: if_splits option.splits)
    show "triple ?P
       (case g of Inl e \<Rightarrow> State_Monad.return (Inl e, None)
        | Inr p \<Rightarrow>
          if (case p of Some q \<Rightarrow> pr_policy q = PolicyDisabled | None \<Rightarrow> False)
          then State_Monad.return (Inl (Sentinel ErrDisabled), p)
          else
            do { now \<leftarrow> svc_now;
                 case Usable p now of
                   Some rec \<Rightarrow>
                     if \<not> fst (NeedsRefresh p now)
                     then State_Monad.return (resultOf E rec (pr_domain (the p)), p)
                     else
                       do { r \<leftarrow> resolve E S R d False False;
                            State_Monad.return (case r of
                                Inr res \<Rightarrow> (Inr res, p)
                              | Inl _ \<Rightarrow> (resultOf E rec (pr_domain (the p)), p)) }
                 | None \<Rightarrow>
                     do { r \<leftarrow> resolve E S R d False False;
                          State_Monad.return (r, p) } }) ?Q"
      unfolding g sum.case option.case option.sel p
      by (rule triple_if, rule triple_return, use trusted_start in fastforce,
          rule triple_keep [OF k(1)], rule triple_option,
          rule triple_bind [OF resolve_trusted [OF c ok]], rule triple_return, simp,
          rule triple_if, rule triple_return, use trusted_start us in fastforce,
          rule triple_bind [OF resolve_trusted [OF c ok]], rule triple_return)
        (auto split: sum.splits intro: us)
  qed
qed

lemma policy_keeps_trust:
  "canonical_domain E d \<Longrightarrow> keeps (\<lambda>w. trusted E d eff x (book_at view w)) (policyFailure S p d e)"
  by (rule keeps_policy [OF _ trusted_soft])

text \<open>A pinned domain is sealed to the cached manifest or to one whose signer descends from
  the pin; and the record left behind keeps that promise.\<close>

lemma pinned_outbound:
  assumes c: "canonical_domain E d" and ok: "reads_ok E S" and n: "NormalizeDomain E domain = Inr d"
  shows "triple (\<lambda>w. pinned_as (book_at view w) d fp key \<and> effective_of (book_at view w) d = eff)
     (ResolveForEncryption E S R domain)
     (\<lambda>r w. trusted E d eff (fp, key) (book_at view w) \<and> answer_ok E d eff (fp, key) r)"
proof -
  have pol: "triple (\<lambda>w. trusted E d eff (fp, key) (book_at view w)) (do { e \<leftarrow> policyFailure S p d r; State_Monad.return (Inl e) })
     (\<lambda>r w. trusted E d eff (fp, key) (book_at view w) \<and> answer_ok E d eff (fp, key) r)" for p r
    by (rule triple_keep [OF policy_keeps_trust [OF c]], rule triple_return) simp
  show ?thesis
    unfolding ResolveForEncryption_def resolveEncrypting_def n sum.case
    by (rule triple_bind [OF outbound_trusted [OF c ok]], rule triple_prod, rule triple_sum,
        rule triple_weaken [OF pol], simp_all, rule triple_return, simp)
qed

end

end
