(* ===== verification/Resolver.thy ===== *)
theory Resolver
  imports Http Resource Dial Service
begin

text \<open>
  \<^verbatim>\<open>resolver/resolver.go\<close>: the authority client.  Everything it asks for is derived from the
  normalized domain; what it believes of an answer is what the canonical parse, the
  validity window and the consent check leave.  The network is a record of functions the
  definitions take as a parameter: name lookup, connecting, one TLS round trip, the clock.
\<close>

section \<open>Configuration\<close>

definition authorityPort :: string where "authorityPort = ''443''"
definition DefaultTimeout :: duration where "DefaultTimeout = 8 * second"
definition DefaultDialTimeout :: duration where "DefaultDialTimeout = 4 * second"
definition DefaultConcurrency :: int where "DefaultConcurrency = 8"

record options =
  op_timeout :: duration
  op_dial_timeout :: duration
  op_max_body :: int
  op_limits :: limits
  op_allow_private :: bool
  op_port_override :: string
  op_max_concurrent :: int
  op_user_agent :: string

record resolver =
  re_opts :: options
  re_policy :: address_policy
  re_port :: string

definition sane_limits :: "limits \<Rightarrow> limits" where
  "sane_limits l =
     (if lim_max_lifetime l \<le> 0 \<or> lim_max_clock_skew l \<le> 0 then
        let d = DefaultLimits;
            l = (if lim_max_lifetime l \<le> 0 then l\<lparr>lim_max_lifetime := lim_max_lifetime d\<rparr> else l);
            l = (if lim_max_clock_skew l \<le> 0 then l\<lparr>lim_max_clock_skew := lim_max_clock_skew d\<rparr> else l)
        in l
      else l)"

definition New_resolver :: "options \<Rightarrow> resolver" where
  "New_resolver opts =
     (let opts = (if op_timeout opts \<le> 0 then opts\<lparr>op_timeout := DefaultTimeout\<rparr> else opts);
          opts = (if op_dial_timeout opts \<le> 0 \<or> op_dial_timeout opts > op_timeout opts
                  then opts\<lparr>op_dial_timeout := min DefaultDialTimeout (op_timeout opts)\<rparr> else opts);
          opts = (if op_max_body opts \<le> 0 \<or> op_max_body opts > int MaxBodyBytes
                  then opts\<lparr>op_max_body := int MaxBodyBytes\<rparr> else opts);
          opts = opts\<lparr>op_limits := sane_limits (op_limits opts)\<rparr>;
          opts = (if op_max_concurrent opts \<le> 0
                  then opts\<lparr>op_max_concurrent := DefaultConcurrency\<rparr> else opts);
          opts = (if op_user_agent opts = [] then opts\<lparr>op_user_agent := ''mailkey/1 (MKDP1)''\<rparr> else opts);
          port = (if op_allow_private opts \<and> op_port_override opts \<noteq> [] then op_port_override opts
                  else authorityPort)
      in \<lparr>re_opts = opts, re_policy = \<lparr>ap_allow_private = op_allow_private opts\<rparr>, re_port = port\<rparr>)"

section \<open>Checks on a response\<close>

text \<open>An authority that is not a domain consents to nothing.\<close>

definition checkAuthorityConsent :: "externs \<Rightarrow> manifest \<Rightarrow> string \<Rightarrow> gerr + unit" where
  "checkAuthorityConsent E m fetchedHost =
     (let allowed = (if mf_authority m = [] then [mf_domain m] else mf_authority m)
      in if list_ex (\<lambda>a. case AuthorityHost E a [] of
                           Inl _ \<Rightarrow> False
                         | Inr host \<Rightarrow> equal_fold (ex_fold E) host fetchedHost) allowed
         then Inr ()
         else Inl (Msg ''manifest served by %q, which its signed authority does not name (%v)''))"

definition checkMediaType :: "externs \<Rightarrow> string \<Rightarrow> gerr + unit" where
  "checkMediaType E ct =
     (if ct = [] then Inr ()
      else case ParseMediaType E ct of
             None \<Rightarrow> Inl (Msg ''unparsable content type %q'')
           | Some base \<Rightarrow>
               if base \<in> {MediaType, ''application/octet-stream'', ''application/x-msgpack'',
                          ''application/vnd.mailnite.mail-key+msgpack''}
               then Inr ()
               else Inl (Msg ''content type %q is not an MKDP1 manifest''))"

text \<open>\<^verbatim>\<open>time.Duration(secs) * time.Second\<close> wraps in 64 bits.\<close>

definition seconds_duration :: "int \<Rightarrow> duration" where
  "seconds_duration secs = sint (word_of_int (secs * second) :: 64 word)"

fun cache_parts :: "time \<Rightarrow> time \<Rightarrow> string list \<Rightarrow> time" where
  "cache_parts expiresAt now [] = expiresAt"
| "cache_parts expiresAt now (part # parts) =
     (case cut_on (CHR ''='') (trim_space part) of
        None \<Rightarrow> cache_parts expiresAt now parts
      | Some (k, v) \<Rightarrow>
          if trim_space k \<noteq> ''max-age'' then cache_parts expiresAt now parts
          else (case atoi (trim_space v) of
                  None \<Rightarrow> cache_parts expiresAt now parts
                | Some secs \<Rightarrow>
                    if secs < 0 then cache_parts expiresAt now parts
                    else let until = now + seconds_duration secs
                         in if until < expiresAt then until else cache_parts expiresAt now parts))"

definition cacheUntil :: "time \<Rightarrow> time \<Rightarrow> string \<Rightarrow> time" where
  "cacheUntil expiresAt now cacheControl =
     (if cacheControl = [] then expiresAt
      else cache_parts expiresAt now (split_on (CHR '','') cacheControl))"

text \<open>\<^verbatim>\<open>errors.As\<close> for the transport errors the code names.\<close>

fun transport_of :: "gerr \<Rightarrow> transport_kind option" where
  "transport_of (Transport k) = Some k"
| "transport_of (Wrapped s e) = transport_of e"
| "transport_of (Classified c d e) = transport_of e"
| "transport_of (Required d (Some e)) = transport_of e"
| "transport_of _ = None"

definition classifyTransportError :: "string \<Rightarrow> gerr \<Rightarrow> gerr" where
  "classifyTransportError domain err =
     (if ClassOf err \<noteq> None then err
      else if transport_of err \<in> {Some CertificateVerificationError, Some HostnameError,
                Some UnknownAuthorityError, Some CertificateInvalidError}
        then Fail FailureTLS domain err
      else Fail FailureNetwork domain err)"

section \<open>One request\<close>

record 'c network =
  nw_cancelled :: bool \<comment> \<open>the caller gave up before a slot was free\<close>
  nw_lookup :: "string \<Rightarrow> string + ip_addr list"
  nw_connect :: "ip_addr \<Rightarrow> string \<Rightarrow> string + 'c"
  nw_exchange :: "'c \<Rightarrow> string \<Rightarrow> request \<Rightarrow> transport_kind + response"
  nw_location_ok :: "string \<Rightarrow> bool"
  nw_now :: time

definition fail_msg :: "string + 'a \<Rightarrow> gerr + 'a" where
  "fail_msg r = (case r of Inl s \<Rightarrow> Inl (Msg s) | Inr x \<Rightarrow> Inr x)"

text \<open>The client of one resolution: its dialer, and a transport that speaks TLS to the derived
  host name wherever the connection went.\<close>

definition client_dialer :: "resolver \<Rightarrow> 'c network \<Rightarrow> string \<Rightarrow> 'c dialer" where
  "client_dialer r W domain =
     \<lparr>dl_policy = re_policy r, dl_lookup = (\<lambda>h. fail_msg (nw_lookup W h)), dl_port = re_port r,
      dl_connect = (\<lambda>a p. fail_msg (nw_connect W a p)), dl_domain = domain\<rparr>"

definition clientFor :: "resolver \<Rightarrow> 'c network \<Rightarrow> string \<Rightarrow> string \<Rightarrow> request \<Rightarrow> gerr + response" where
  "clientFor r W domain host rq =
     client_do
       (Failf FailurePolicy domain ''MKDP1 does not follow redirects (the authority pointed at %s)'')
       (nw_location_ok W)
       (case DialContext (client_dialer r W domain) (host @ '':'' @ re_port r) of
          (_, Inl e) \<Rightarrow> Inl (Wrapped ''%s %q: %v'' e)
        | (_, Inr conn) \<Rightarrow>
            (case nw_exchange W conn host rq of
               Inl k \<Rightarrow> Inl (Wrapped ''%s %q: %v'' (Transport k))
             | Inr rp \<Rightarrow> Inr rp))"

text \<open>The request of a URL; its port is the one of the resolver, and must be a number.\<close>

definition request_for :: "resolver \<Rightarrow> url \<Rightarrow> gerr + request" where
  "request_for r u =
     (if \<not> list_all is_digit (re_port r) then Inl (Msg ''parse %q: invalid port %q after host'')
      else Inr \<lparr>rq_method = ''GET'',
                rq_host = (if re_port r \<noteq> authorityPort then u_host u @ '':'' @ re_port r else u_host u),
                rq_path = u_path u, rq_query = u_query u,
                rq_header = header_set (header_set no_header ''Accept'' MediaType)
                              ''User-Agent'' (op_user_agent (re_opts r))\<rparr>)"

definition perform :: "resolver \<Rightarrow> 'c network \<Rightarrow> string \<Rightarrow> string \<Rightarrow> url \<Rightarrow> gerr + response" where
  "perform r W d host u =
     (case request_for r u of
        Inl e \<Rightarrow> Inl (Fail FailurePolicy d e)
      | Inr rq \<Rightarrow>
          (case clientFor r W d host rq of
             Inl e \<Rightarrow> Inl (classifyTransportError d e)
           | Inr rp \<Rightarrow> Inr rp))"

text \<open>The bounded body of a response: declared length, media type, then at most one byte more
  than the limit.\<close>

definition bounded_body :: "externs \<Rightarrow> string \<Rightarrow> response \<Rightarrow> int \<Rightarrow> gerr + bytes" where
  "bounded_body E d rp limit =
     (if rp_length rp > limit
        then Inl (Failf FailureHTTP d ''the response declares %d bytes, over the %d byte limit'')
      else case checkMediaType E (header_get (rp_header rp) ''Content-Type'') of
             Inl e \<Rightarrow> Inl (Fail FailureHTTP d e)
           | Inr _ \<Rightarrow>
               (case read_limited rp (nat (limit + 1)) of
                  Inl k \<Rightarrow> Inl (classifyTransportError d (Transport k))
                | Inr body \<Rightarrow>
                    if int (length body) > limit
                    then Inl (Failf FailureHTTP d ''the response body exceeds the %d byte limit'')
                    else Inr body))"

section \<open>Fetching a manifest\<close>

definition check_status :: "string \<Rightarrow> int \<Rightarrow> gerr + unit" where
  "check_status d status =
     (if status = 200 then Inr ()
      else if status = 404 \<or> status = 410
        then Inl (Failf FailureAbsent d
               ''the authority answered %d: this domain does not publish an MKDP1 manifest'')
      else if status = 401 \<or> status = 407
        then Inl (Failf FailureHTTP d
               ''the authority requested authentication (%d); the MKDP1 endpoint is public'')
      else Inl (Failf FailureHTTP d ''the authority answered %d''))"

text \<open>The detached proof of the same response; a malformed one is recorded, not fatal.\<close>

definition with_proof :: "externs \<Rightarrow> http_header \<Rightarrow> string \<Rightarrow> bytes \<Rightarrow> fetch_result \<Rightarrow> fetch_result" where
  "with_proof E h d body out =
     (case ReadProof h of
        Inl perr \<Rightarrow> out\<lparr>rs_proof_error := Some perr\<rparr>
      | Inr None \<Rightarrow> out
      | Inr (Some pf) \<Rightarrow>
          (case Check E (Some pf) d body of
             Inl cerr \<Rightarrow> out\<lparr>rs_proof_error := Some cerr\<rparr>
           | Inr _ \<Rightarrow> out\<lparr>rs_proof := Some pf\<rparr>))"

definition result_of_body ::
  "externs \<Rightarrow> resolver \<Rightarrow> time \<Rightarrow> string \<Rightarrow> string \<Rightarrow> http_header \<Rightarrow> bytes \<Rightarrow> gerr + fetch_result" where
  "result_of_body E r now d host h body =
     (case ParseCanonical E body d of
        Inl e \<Rightarrow> Inl (Fail FailureProtocol d e)
      | Inr m \<Rightarrow>
          (case Validate m now (op_limits (re_opts r)) of
             Inl e \<Rightarrow> Inl (Fail FailureProtocol d e)
           | Inr _ \<Rightarrow>
               (case checkAuthorityConsent E m host of
                  Inl e \<Rightarrow> Inl (Fail FailureProtocol d e)
                | Inr _ \<Rightarrow>
                    Inr (with_proof E h d body
                      \<lparr>rs_manifest = m, rs_manifest_id = ManifestIDOf E body, rs_raw = body,
                       rs_fetched_at = now,
                       rs_expires_at = cacheUntil (mf_expires_at m) now (header_get h ''Cache-Control''),
                       rs_tls_host = host, rs_proof = None, rs_proof_error = None\<rparr>))))"

definition fetch ::
  "externs \<Rightarrow> resolver \<Rightarrow> 'c network \<Rightarrow> string \<Rightarrow> string \<Rightarrow> gerr + fetch_result" where
  "fetch E r W d authority =
     (if nw_cancelled W then Inl (Fail FailureNetwork d (Msg ''context canceled''))
      else case DiscoveryURL E d authority of
        Inl e \<Rightarrow> Inl (Fail FailurePolicy d e)
      | Inr u \<Rightarrow>
          (case AuthorityHost E d authority of
             Inl e \<Rightarrow> Inl (Fail FailurePolicy d e)
           | Inr host \<Rightarrow>
               try_bind (perform r W d host u) (\<lambda>rp.
               try_bind (check_status d (rp_status rp)) (\<lambda>_.
               try_bind (bounded_body E d rp (op_max_body (re_opts r))) (\<lambda>body.
                 result_of_body E r (nw_now W) d host (rp_header rp) body)))))"

text \<open>The names a call resolves, and the outcome of a call that leads its flight.\<close>

definition resolve_names :: "externs \<Rightarrow> string \<Rightarrow> string \<Rightarrow> gerr + string \<times> string" where
  "resolve_names E domain authority =
     (case NormalizeDomain E domain of
        Inl e \<Rightarrow> Inl (Fail FailurePolicy domain e)
      | Inr d \<Rightarrow>
          if authority = [] then Inr (d, [])
          else (case NormalizeDomain E authority of
                  Inl e \<Rightarrow> Inl (Fail FailurePolicy domain (Wrapped ''authority: %w'' e))
                | Inr a \<Rightarrow> Inr (d, if a = d then [] else a)))"

definition flight_key :: "string \<Rightarrow> string \<Rightarrow> string" where
  "flight_key d a = (if a \<noteq> [] then d @ ''@'' @ a else d)"

definition Resolve ::
  "externs \<Rightarrow> resolver \<Rightarrow> 'c network \<Rightarrow> string \<Rightarrow> string \<Rightarrow> gerr + fetch_result" where
  "Resolve E r W domain authority =
     try_bind (resolve_names E domain authority) (\<lambda>(d, a). fetch E r W d a)"

section \<open>Fetching the identity document\<close>

definition ResolveIdentityChain ::
  "externs \<Rightarrow> resolver \<Rightarrow> 'c network \<Rightarrow> string \<Rightarrow> string \<Rightarrow> gerr + bytes" where
  "ResolveIdentityChain E r W domain authority =
     (case NormalizeDomain E domain of
        Inl e \<Rightarrow> Inl (Fail FailurePolicy domain e)
      | Inr d \<Rightarrow>
          if nw_cancelled W then Inl (Fail FailureNetwork d (Msg ''context canceled''))
          else
          (case AuthorityHost E d authority of
             Inl e \<Rightarrow> Inl (Fail FailurePolicy d e)
           | Inr host \<Rightarrow>
               try_bind (perform r W d host
                 \<lparr>u_scheme = ''https'', u_host = host, u_path = ResourcePath,
                  u_query = [(SubjectQueryParam, d)]\<rparr>) (\<lambda>rp.
               if rp_status rp \<noteq> 200
                 then Inl (Failf FailureAbsent d ''no identity resource: %d'')
               else
               try_bind (bounded_body E d rp (int MaxChainBytes)) (\<lambda>body.
                 (case ParseDoc E d body of
                    Inl e \<Rightarrow> Inl (Fail FailureProtocol d e)
                  | Inr doc \<Rightarrow>
                      (case CheckAuthority E doc host of
                         Inl e \<Rightarrow> Inl (Fail FailureProtocol d e)
                       | Inr _ \<Rightarrow> Inr body))))))"

text \<open>The interface the service uses: the state counts the calls, and each call meets the
  network as it then is.\<close>

definition net_resolver :: "externs \<Rightarrow> resolver \<Rightarrow> (nat \<Rightarrow> 'c network) \<Rightarrow> nat resolver_ops" where
  "net_resolver E r net =
     \<lparr>rv_resolve = (\<lambda>d a n. (Resolve E r (net n) d a, Suc n)),
      rv_chain = Some (\<lambda>d a n. (ResolveIdentityChain E r (net n) d a, Suc n))\<rparr>"

section \<open>The configuration is never unsafe\<close>

lemma sane_limits_pos: "0 < lim_max_lifetime (sane_limits l)" "0 < lim_max_clock_skew (sane_limits l)"
  by (simp_all add: sane_limits_def DefaultLimits_def Let_def)

lemma New_resolver_safe:
  fixes opts :: options
  defines "r \<equiv> New_resolver opts"
  shows "0 < op_timeout (re_opts r)" and "0 < op_dial_timeout (re_opts r)"
    and "op_dial_timeout (re_opts r) \<le> op_timeout (re_opts r)"
    and "0 < op_max_body (re_opts r)" and "op_max_body (re_opts r) \<le> int MaxBodyBytes"
    and "0 < lim_max_lifetime (op_limits (re_opts r))" and "0 < lim_max_clock_skew (op_limits (re_opts r))"
    and "0 < op_max_concurrent (re_opts r)"
    and "ap_allow_private (re_policy r) = op_allow_private opts"
    and "re_port r \<noteq> authorityPort \<Longrightarrow> op_allow_private opts"
  using sane_limits_pos [of "op_limits opts"]
  by (auto simp: r_def New_resolver_def Let_def DefaultTimeout_def DefaultDialTimeout_def DefaultConcurrency_def
      MaxBodyBytes_def split: if_splits)

section \<open>The cache\<close>

lemma cache_parts_le: "cache_parts e now ps \<le> e"
  by (induction e now ps rule: cache_parts.induct) (auto simp: Let_def split: option.splits prod.splits)

text \<open>The cache never outlives the manifest.\<close>

lemma cacheUntil_le: "cacheUntil e now cc \<le> e"
  by (simp add: cacheUntil_def cache_parts_le)

lemma seconds_duration_small: "0 \<le> s \<Longrightarrow> s * second < 2 ^ 63 \<Longrightarrow> seconds_duration s = s * second"
  unfolding seconds_duration_def signed_of_int by (simp add: signed_take_bit_int_eq_self)

text \<open>A maximum age the authority states is kept, when its nanoseconds fit 64 bits.\<close>

lemma cacheUntil_max_age:
  assumes "0 \<le> s" and "s * second < 2 ^ 63"
  shows "cacheUntil e now (''max-age='' @ itoa s) = min e (now + s * second)"
proof -
  have s: "0 \<le> s" "s < 2 ^ 63" using assms by auto
  have dig: "list_all is_digit (itoa s)" "itoa s \<noteq> []"
    using nat_digits_digits [of "nat s"] s by (simp_all add: itoa_def)
  have plain: "is_digit c \<Longrightarrow> plain_char c \<and> c \<noteq> CHR '',''" for c
    by (auto simp: is_digit_def plain_char_def is_ascii_char_def space1_def Let_def)
  have key: "plain_char c \<and> c \<noteq> CHR '',''" if "c \<in> set ''max-age=''" for c
    using that by (auto simp: plain_char_def is_ascii_char_def space1_def Let_def)
  have all: "c \<in> set (''max-age='' @ itoa s) \<Longrightarrow> plain_char c \<and> c \<noteq> CHR '',''" for c
    using dig plain key by (auto simp: list_all_iff)
  have sp: "split_on (CHR '','') (''max-age='' @ itoa s) = [''max-age='' @ itoa s]"
    by (rule split_on_no_sep) (use all in blast)
  have t1: "trim_space (''max-age='' @ itoa s) = ''max-age='' @ itoa s"
    and t2: "trim_space (itoa s) = itoa s" and t3: "trim_space ''max-age'' = ''max-age''"
    by (rule trim_space_plain_all, use all key in force)+
  have cut: "cut_on (CHR ''='') (''max-age='' @ itoa s) = Some (''max-age'', itoa s)"
    using cut_on_append [of "CHR ''=''" "''max-age''" "itoa s"] by simp
  show ?thesis
    unfolding cacheUntil_def sp
    using assms(1) by (simp add: t1 [simplified] cut [simplified] t2 t3 atoi_itoa [OF s] Let_def seconds_duration_small [OF assms])
qed

text \<open>A larger one wraps: an age of some 292 years puts the expiry in the past.\<close>

lemma seconds_duration_wraps: "seconds_duration 9223372037 = 9223372037 * second - 2 ^ 64"
  by (simp add: seconds_duration_def)

section \<open>Failures are classified, and carry no sentinel\<close>

lemma plain_err_Classified [simp]:
  "plain_err (Classified c d e) = plain_err e" "plain_err (Fail c d e) = plain_err e"
  "plain_err (Failf c d m)" "plain_err (Transport k)"
  by (simp_all add: plain_err_def Fail_def Failf_def)

definition classified :: "gerr + 'a \<Rightarrow> bool" where
  "classified r \<longleftrightarrow> plain_fail r \<and> (\<forall>e. r = Inl e \<longrightarrow> ClassOf e \<noteq> None)"

lemma classified_simps [simp]:
  "classified (Inr x)" "classified (Inl e) \<longleftrightarrow> plain_err e \<and> ClassOf e \<noteq> None"
  by (simp_all add: classified_def)

lemma classified_bind:
  "classified m \<Longrightarrow> (\<And>x. m = Inr x \<Longrightarrow> classified (f x)) \<Longrightarrow> classified (try_bind m f)"
  by (cases m) auto

lemma classified_case:
  "plain_fail m \<Longrightarrow> (\<And>e. plain_err e \<Longrightarrow> classified (f e)) \<Longrightarrow> (\<And>x. m = Inr x \<Longrightarrow> classified (g x))
     \<Longrightarrow> classified (case m of Inl e \<Rightarrow> f e | Inr x \<Rightarrow> g x)"
  by (cases m) simp_all

lemma classified_if: "(b \<Longrightarrow> classified m) \<Longrightarrow> (\<not> b \<Longrightarrow> classified n) \<Longrightarrow> classified (if b then m else n)"
  by simp

lemmas classified_intros = classified_bind classified_case classified_if

lemma plain_NormalizeDomain [simp]: "plain_fail (NormalizeDomain E d)"
  by (auto simp: NormalizeDomain_def Let_def split: option.splits)

lemma plain_AuthorityHost [simp]: "plain_fail (AuthorityHost E d a)"
  unfolding AuthorityHost_def by (intro plain_fail_intros) simp_all

lemma plain_DiscoveryURL [simp]: "plain_fail (DiscoveryURL E d a)"
  unfolding DiscoveryURL_def by (intro plain_fail_intros) simp_all

lemma plain_checks [simp]:
  "plain_fail (Validate m now l)" "plain_fail (checkAuthorityConsent E m h)" "plain_fail (checkMediaType E ct)"
  "plain_fail (CheckAuthority E doc h)" "plain_fail (request_for r u)" "plain_fail (fail_msg r0)"
  by (auto simp: Validate_def checkAuthorityConsent_def checkMediaType_def CheckAuthority_def request_for_def
      fail_msg_def Let_def split: option.splits sum.splits)

lemma plain_Permit [simp]: "plain_fail (Permit p a)"
  by (simp add: Permit_def Let_def)

lemma classify_plain [simp]: "plain_err (classifyTransportError d e) = plain_err e"
  by (simp add: classifyTransportError_def)

lemma classify_class [simp]: "ClassOf (classifyTransportError d e) \<noteq> None"
  by (simp add: classifyTransportError_def)

lemma dial_loop_plain:
  assumes "\<And>a p. plain_fail (dl_connect d a p)" and "ld = None \<or> (\<exists>e. ld = Some e \<and> plain_err e)"
    and "dial_loop d rf ld as = (tried, Inl (refused, Some e))"
  shows "plain_err e"
  using assms(2,3)
proof (induction as arbitrary: rf ld tried)
  case (Cons a as)
  show ?case
  proof (cases "Permit (dl_policy d) a")
    case (Inl perr)
    then show ?thesis using Cons by auto
  next
    case (Inr u)
    note p = this
    show ?thesis
    proof (cases "dl_connect d a (dl_port d)")
      case (Inl derr)
      then have "plain_err derr" using assms(1) [of a "dl_port d"] by simp
      then show ?thesis using Cons.prems Cons.IH p Inl by (auto split: prod.splits)
    qed (use Cons.prems p in auto)
  qed
qed auto

lemma DialContext_plain:
  assumes "\<And>h. plain_fail (dl_lookup d h)" and "\<And>a p. plain_fail (dl_connect d a p)"
  shows "plain_fail (snd (DialContext d addr))"
proof -
  have tail: "plain_fail (snd (case dial_loop d None None as of
        (tried, Inr c) \<Rightarrow> (tried, Inr c)
      | (tried, Inl (refused, Some e)) \<Rightarrow> (tried, Inl (Fail FailureNetwork (dl_domain d) e))
      | (tried, Inl (refused, None)) \<Rightarrow> (tried, Inl (Failf FailurePolicy (dl_domain d) m))))" for as m
    using dial_loop_plain [OF assms(2), of None None as] by (auto split: prod.splits sum.splits option.splits)
  have "plain_err e" if "dl_lookup d h = Inl e" for h e
    using assms(1) [of h] that by simp
  then show ?thesis
    unfolding DialContext_def using tail by (auto split: option.splits sum.split simp del: dial_loop.simps)
qed

lemma clientFor_plain [simp]: "plain_fail (clientFor r W d host rq)"
proof -
  have "plain_fail (snd (DialContext (client_dialer r W d) addr))" for addr
    by (rule DialContext_plain) (simp_all add: client_dialer_def)
  from this [of "host @ '':'' @ re_port r"] show ?thesis
    unfolding clientFor_def client_do_def
    by (intro plain_fail_intros; cases "DialContext (client_dialer r W d) (host @ '':'' @ re_port r)")
      (auto split: sum.splits)
qed

lemma bounded_body_classified [simp]: "classified (bounded_body E d rp limit)"
  unfolding bounded_body_def
  by (intro classified_intros) (auto split: sum.splits)

lemma check_status_classified [simp]: "classified (check_status d s)"
  by (simp add: check_status_def)

lemma perform_classified [simp]: "classified (perform r W d host u)"
  unfolding perform_def by (intro classified_intros) simp_all

lemma result_of_body_classified [simp]: "classified (result_of_body E r now d host h body)"
  unfolding result_of_body_def by (intro classified_intros) simp_all

lemma fetch_classified [simp]: "classified (fetch E r W d a)"
  unfolding fetch_def by (intro classified_intros) simp_all

lemma Resolve_classified: "classified (Resolve E r W domain authority)"
  unfolding Resolve_def resolve_names_def
  by (intro classified_intros) (auto split: prod.splits)

section \<open>What a fetch believes\<close>

text \<open>The one round trip behind an answer: a connection to a permitted address, TLS for the
  derived host, and a request made of the domain alone.\<close>

definition exchanged ::
  "resolver \<Rightarrow> 'c network \<Rightarrow> string \<Rightarrow> url \<Rightarrow> response \<Rightarrow> bool" where
  "exchanged r W host u rp \<longleftrightarrow>
     (\<exists>addr conn rq. Permit (re_policy r) addr = Inr () \<and> nw_connect W addr (re_port r) = Inr conn
        \<and> request_for r u = Inr rq \<and> nw_exchange W conn host rq = Inr rp)
     \<and> \<not> (redirect_status (rp_status rp) \<and> header_get (rp_header rp) ''Location'' \<noteq> [])"

lemma fail_msg_Inr [simp]: "fail_msg r = Inr x \<longleftrightarrow> r = Inr x"
  by (simp add: fail_msg_def split: sum.splits)

lemma perform_Inr:
  assumes "perform r W d host u = Inr rp"
  shows "exchanged r W host u rp"
proof -
  obtain rq where rq: "request_for r u = Inr rq" and c: "clientFor r W d host rq = Inr rp"
    using assms by (auto simp: perform_def split: sum.splits)
  let ?dl = "client_dialer r W d" and ?addr = "host @ '':'' @ re_port r"
  obtain tried conn where dc: "DialContext ?dl ?addr = (tried, Inr conn)"
    and x: "nw_exchange W conn host rq = Inr rp"
    and red: "\<not> (redirect_status (rp_status rp) \<and> header_get (rp_header rp) ''Location'' \<noteq> [])"
    using c by (auto simp: clientFor_def client_do_Inr split: prod.splits sum.splits)
  from DialContext_permitted(2) [OF dc refl] obtain a where "Permit (re_policy r) a = Inr ()"
      "nw_connect W a (re_port r) = Inr conn"
    by (auto simp: client_dialer_def)
  then show ?thesis using rq x red by (auto simp: exchanged_def)
qed

lemma request_for_Inr:
  "request_for r u = Inr rq \<Longrightarrow> rq_method rq = ''GET'' \<and> rq_path rq = u_path u \<and> rq_query rq = u_query u
     \<and> (re_port r = authorityPort \<longrightarrow> rq_host rq = u_host u)"
  by (auto simp: request_for_def split: if_splits)

text \<open>A fetched result, clause by clause.\<close>

definition believed ::
  "externs \<Rightarrow> resolver \<Rightarrow> time \<Rightarrow> string \<Rightarrow> string \<Rightarrow> response \<Rightarrow> fetch_result \<Rightarrow> bool" where
  "believed E r now d host rp res \<longleftrightarrow>
     rp_status rp = 200 \<and> rp_broken rp = None \<and> rs_raw res = rp_bytes rp
     \<and> int (length (rs_raw res)) \<le> op_max_body (re_opts r)
     \<and> ParseCanonical E (rs_raw res) d = Inr (rs_manifest res)
     \<and> Validate (rs_manifest res) now (op_limits (re_opts r)) = Inr ()
     \<and> checkAuthorityConsent E (rs_manifest res) host = Inr ()
     \<and> rs_manifest_id res = ManifestIDOf E (rs_raw res)
     \<and> rs_fetched_at res = now \<and> rs_expires_at res \<le> mf_expires_at (rs_manifest res)
     \<and> rs_tls_host res = host
     \<and> (\<forall>pf. rs_proof res = Some pf \<longrightarrow> ReadProof (rp_header rp) = Inr (Some pf)
          \<and> Check E (Some pf) d (rs_raw res) = Inr () \<and> rs_proof_error res = None)
     \<and> (rs_proof res = None \<and> rs_proof_error res = None \<longrightarrow> ReadProof (rp_header rp) = Inr None)"

lemma with_proof_sel [simp]:
  "rs_manifest (with_proof E h d b out) = rs_manifest out" "rs_raw (with_proof E h d b out) = rs_raw out"
  "rs_manifest_id (with_proof E h d b out) = rs_manifest_id out"
  "rs_fetched_at (with_proof E h d b out) = rs_fetched_at out"
  "rs_expires_at (with_proof E h d b out) = rs_expires_at out"
  "rs_tls_host (with_proof E h d b out) = rs_tls_host out"
  by (simp_all add: with_proof_def split: sum.splits option.splits)

lemma with_proof_proof:
  assumes "rs_proof out = None" and "rs_proof_error out = None"
  shows "rs_proof (with_proof E h d b out) = Some pf \<Longrightarrow> ReadProof h = Inr (Some pf)
      \<and> Check E (Some pf) d b = Inr () \<and> rs_proof_error (with_proof E h d b out) = None"
    and "rs_proof (with_proof E h d b out) = None \<Longrightarrow> rs_proof_error (with_proof E h d b out) = None
      \<Longrightarrow> ReadProof h = Inr None"
  using assms by (auto simp: with_proof_def split: sum.splits option.splits)

lemma bounded_body_Inr:
  assumes "bounded_body E d rp limit = Inr body" and "0 \<le> limit"
  shows "body = rp_bytes rp \<and> rp_broken rp = None \<and> int (length body) \<le> limit"
proof -
  have n: "nat (limit + 1) = Suc (nat limit)" using assms(2) by (simp add: nat_add_distrib)
  from assms(1) have "read_limited rp (Suc (nat limit)) = Inr body" "length body \<le> nat limit"
    by (auto simp: bounded_body_def n [symmetric] nat_le_eq_zle split: if_splits sum.splits)
  then show ?thesis using read_limited_short [of rp "nat limit" body] assms(2) by auto
qed

lemma fetch_Inr:
  assumes "fetch E r W d a = Inr res" and "0 \<le> op_max_body (re_opts r)"
  obtains host u rp where "AuthorityHost E d a = Inr host" and "DiscoveryURL E d a = Inr u"
    and "exchanged r W host u rp" and "believed E r (nw_now W) d host rp res"
proof -
  from assms(1) obtain u host rp body where u: "DiscoveryURL E d a = Inr u" and h: "AuthorityHost E d a = Inr host"
    and p: "perform r W d host u = Inr rp" and s: "check_status d (rp_status rp) = Inr ()"
    and b: "bounded_body E d rp (op_max_body (re_opts r)) = Inr body"
    and res: "result_of_body E r (nw_now W) d host (rp_header rp) body = Inr res"
    by (auto simp: fetch_def result_simps split: if_splits sum.splits)
  have "rp_status rp = 200" using s by (simp add: check_status_def split: if_splits)
  moreover note bounded_body_Inr [OF b assms(2)]
  ultimately have "believed E r (nw_now W) d host rp res"
    using res by (auto simp: believed_def result_of_body_def cacheUntil_le split: sum.splits
        dest: with_proof_proof [rotated 2])
  then show ?thesis by (rule that [OF h u perform_Inr [OF p]])
qed

section \<open>What a failure says\<close>

lemma DialContext_class:
  assumes "\<And>h e. dl_lookup d h = Inl e \<Longrightarrow> ClassOf e = None"
    and "snd (DialContext d addr) = Inl e"
  shows "ClassOf e \<in> {Some FailureNetwork, Some FailurePolicy}"
  using assms(2) by (auto simp: DialContext_def split: option.splits sum.splits prod.splits if_splits simp del: dial_loop.simps)

lemma perform_class:
  assumes "perform r W d host u = Inl e"
  shows "ClassOf e \<in> {Some FailureNetwork, Some FailurePolicy, Some FailureTLS}"
proof -
  have cls: "ClassOf (classifyTransportError d x) \<in> {Some FailureNetwork, Some FailurePolicy, Some FailureTLS}"
    if "ClassOf x \<in> {None, Some FailureNetwork, Some FailurePolicy}" for x
    using that by (auto simp: classifyTransportError_def)
  have "ClassOf x \<in> {None, Some FailureNetwork, Some FailurePolicy}" if "clientFor r W d host rq = Inl x" for rq x
  proof (cases "DialContext (client_dialer r W d) (host @ '':'' @ re_port r)")
    case (Pair tried c)
    have "ClassOf y \<in> {Some FailureNetwork, Some FailurePolicy}" if "c = Inl y" for y
      by (rule DialContext_class [of "client_dialer r W d" "host @ '':'' @ re_port r"])
        (use Pair that in \<open>auto simp: client_dialer_def fail_msg_def split: sum.splits\<close>)
    then show ?thesis
      using \<open>clientFor r W d host rq = Inl x\<close> Pair
      by (auto simp: clientFor_def client_do_def try_bind_def split: sum.splits if_splits)
  qed
  with cls assms show ?thesis
    by (auto simp: perform_def split: sum.splits)
qed

text \<open>An absence is the authority's own answer.\<close>

lemma fetch_absent:
  assumes "fetch E r W d a = Inl e" and "ClassOf e = Some FailureAbsent"
  shows "\<exists>host u rp. AuthorityHost E d a = Inr host \<and> DiscoveryURL E d a = Inr u
     \<and> exchanged r W host u rp \<and> rp_status rp \<in> {404, 410}"
proof -
  have nc: "\<not> nw_cancelled W" using assms by (auto simp: fetch_def)
  obtain u where u: "DiscoveryURL E d a = Inr u"
    using assms nc by (cases "DiscoveryURL E d a") (auto simp: fetch_def)
  obtain host where h: "AuthorityHost E d a = Inr host"
    using assms nc u by (cases "AuthorityHost E d a") (auto simp: fetch_def)
  obtain rp where p: "perform r W d host u = Inr rp"
    using assms nc u h perform_class [of r W d host u e]
    by (cases "perform r W d host u") (auto simp: fetch_def)
  have cls: "ClassOf y \<noteq> Some FailureAbsent" if "bounded_body E d rp l = Inl y" for y l
    using that by (auto simp: bounded_body_def classifyTransportError_def split: if_splits sum.splits)
  have res: "ClassOf y \<noteq> Some FailureAbsent" if "result_of_body E r t d host hd body = Inl y" for y t hd body
    using that by (auto simp: result_of_body_def split: sum.splits)
  have "rp_status rp \<in> {404, 410}"
  proof (cases "check_status d (rp_status rp)")
    case (Inl y)
    then show ?thesis using assms nc u h p by (auto simp: fetch_def check_status_def split: if_splits)
  next
    case (Inr v)
    then have "try_bind (bounded_body E d rp (op_max_body (re_opts r))) (\<lambda>body.
        result_of_body E r (nw_now W) d host (rp_header rp) body) = Inl e"
      using assms(1) nc u h p by (simp add: fetch_def)
    then show ?thesis using cls res assms(2) by (cases "bounded_body E d rp (op_max_body (re_opts r))") auto
  qed
  with h u perform_Inr [OF p] show ?thesis by blast
qed

section \<open>Keys of flights\<close>

lemma norm_no_at: "list_all norm_char d \<Longrightarrow> CHR ''@'' \<notin> set d"
  by (auto simp: list_all_iff norm_char_def is_digit_def is_lower_def)

text \<open>Two calls share a flight only when they ask the same authority about the same domain.\<close>

lemma flight_key_inject:
  assumes "idna_ldh E" and "resolve_names E x y = Inr (d, a)" and "resolve_names E x' y' = Inr (d', a')"
    and "flight_key d a = flight_key d' a'"
  shows "d = d' \<and> a = a'"
proof -
  have n: "CHR ''@'' \<notin> set d \<and> CHR ''@'' \<notin> set a" if "resolve_names E x y = Inr (d, a)" for x y d a
    using that normalized_shape(1) [OF assms(1)] norm_no_at
    by (auto simp: resolve_names_def split: sum.splits if_splits)
  note nn = n [OF assms(2)] n [OF assms(3)]
  show ?thesis
  proof (cases "a = []"; cases "a' = []")
    assume "a \<noteq> []" "a' \<noteq> []"
    then have "cut_on (CHR ''@'') (d @ CHR ''@'' # a) = cut_on (CHR ''@'') (d' @ CHR ''@'' # a')"
      using assms(4) by (simp add: flight_key_def)
    then show ?thesis using nn by (simp add: cut_on_append)
  next
    assume "a = []" "a' \<noteq> []"
    then have "d = d' @ CHR ''@'' # a'" using assms(4) by (simp add: flight_key_def)
    then show ?thesis using nn by auto
  next
    assume "a \<noteq> []" "a' = []"
    then have "d' = d @ CHR ''@'' # a" using assms(4) by (simp add: flight_key_def)
    then show ?thesis using nn by auto
  qed (use assms(4) in \<open>simp add: flight_key_def\<close>)
qed
end
