(* ===== verification/MemStore.thy ===== *)
theory MemStore
  imports Store "HOL-Library.AList"
begin

text \<open>
  \<^verbatim>\<open>peer/memstore.go\<close>: the in-memory store.  The two maps are association lists with
  distinct keys, the latches in a map of their own; the clock is a sequence of readings,
  each call of \<^verbatim>\<open>s.now()\<close> taking the next one.  The mutex makes every operation one step.
\<close>

record memstore =
  ms_peers :: "(string \<times> peer) list"
  ms_caps :: "(string \<times> capability) list"
  ms_clock :: "nat \<Rightarrow> time"
  ms_ticks :: nat

definition NewMemStore :: "(nat \<Rightarrow> time) \<Rightarrow> memstore" where
  "NewMemStore clock = \<lparr>ms_peers = [], ms_caps = [], ms_clock = clock, ms_ticks = 0\<rparr>"

definition ms_now :: "memstore \<Rightarrow> time \<times> memstore" where
  "ms_now s = (ms_clock s (ms_ticks s), s\<lparr>ms_ticks := Suc (ms_ticks s)\<rparr>)"

definition upsertLocked :: "memstore \<Rightarrow> string \<Rightarrow> peer" where
  "upsertLocked s d = (case map_of (ms_peers s) d of Some p \<Rightarrow> p | None \<Rightarrow> New_peer d)"

definition put_peer :: "string \<Rightarrow> peer \<Rightarrow> memstore \<Rightarrow> memstore" where
  "put_peer d p s = s\<lparr>ms_peers := AList.update d p (ms_peers s)\<rparr>"

definition put_cap :: "string \<Rightarrow> capability \<Rightarrow> memstore \<Rightarrow> memstore" where
  "put_cap d c s = s\<lparr>ms_caps := AList.update d c (ms_caps s)\<rparr>"

definition caps_of :: "memstore \<Rightarrow> string \<Rightarrow> capability" where
  "caps_of s d = (case map_of (ms_caps s) d of Some c \<Rightarrow> c | None \<Rightarrow> zero_capability)"

text \<open>Every operation first normalizes the domain it is given.\<close>

definition with_domain ::
  "externs \<Rightarrow> string \<Rightarrow> memstore \<Rightarrow> (string \<Rightarrow> (gerr + 'a) \<times> memstore) \<Rightarrow> (gerr + 'a) \<times> memstore" where
  "with_domain E domain s f =
     (case NormalizeDomain E domain of Inl e \<Rightarrow> (Inl e, s) | Inr d \<Rightarrow> f d)"

section \<open>Peers\<close>

text \<open>Values do not alias, so the deep copy is the record itself.\<close>

definition clonePeer :: "peer \<Rightarrow> peer" where
  "clonePeer p = p"

definition GetPeer :: "externs \<Rightarrow> string \<Rightarrow> memstore \<Rightarrow> (gerr + peer option) \<times> memstore" where
  "GetPeer E domain s =
     with_domain E domain s (\<lambda>d.
       case map_of (ms_peers s) d of
         None \<Rightarrow> (Inr None, s)
       | Some p \<Rightarrow> let (now, s) = ms_now s in (Inr (Some (Reconcile (clonePeer p) now)), s))"

definition ListPeers :: "memstore \<Rightarrow> (gerr + peer list) \<times> memstore" where
  "ListPeers s =
     (let (now, s) = ms_now s in
      (Inr (sort_key pr_domain (map (\<lambda>(d, p). Reconcile (clonePeer p) now) (ms_peers s))), s))"

definition PutObservation ::
  "externs \<Rightarrow> string \<Rightarrow> observation \<Rightarrow> memstore \<Rightarrow> (gerr + unit) \<times> memstore" where
  "PutObservation E domain ob s =
     with_domain E domain s (\<lambda>d.
       let p = upsertLocked s d; (now, s) = ms_now s
       in (Inr (), put_peer d (Observe p ob now) s))"

definition InstallManifest ::
  "externs \<Rightarrow> string \<Rightarrow> fetch_result \<Rightarrow> memstore \<Rightarrow> (gerr + unit) \<times> memstore" where
  "InstallManifest E domain r s =
     with_domain E domain s (\<lambda>d.
       if mf_domain (rs_manifest r) \<noteq> d
         then (Inl (Msg ''install: result describes %q, peer is %q''), s)
       else
         let p = upsertLocked s d in
         if pr_policy p = PolicyDisabled then (Inl (Sentinel ErrDisabled), s)
         else let (now, s) = ms_now s in (Inr (), put_peer d (Install p r now) s))"

definition RecordFailure ::
  "externs \<Rightarrow> string \<Rightarrow> gerr option \<Rightarrow> memstore \<Rightarrow> (gerr + unit) \<times> memstore" where
  "RecordFailure E domain ferr s =
     with_domain E domain s (\<lambda>d.
       let p = upsertLocked s d; (now, s) = ms_now s
       in (Inr (), put_peer d (Fail_peer p ferr now) s))"

definition RecordIssue ::
  "externs \<Rightarrow> string \<Rightarrow> issue_code \<Rightarrow> prose \<Rightarrow> memstore \<Rightarrow> (gerr + bool) \<times> memstore" where
  "RecordIssue E domain code detail s =
     with_domain E domain s (\<lambda>d.
       let p = upsertLocked s d; (now, s) = ms_now s;
           (issues, first) = CoalesceIssue (pr_issues p) code detail now
       in (Inr first, put_peer d (p\<lparr>pr_issues := issues\<rparr>) s))"

definition ClearIssue_store ::
  "externs \<Rightarrow> string \<Rightarrow> issue_code \<Rightarrow> memstore \<Rightarrow> (gerr + unit) \<times> memstore" where
  "ClearIssue_store E domain code s =
     with_domain E domain s (\<lambda>d.
       let p = upsertLocked s d
       in (Inr (), put_peer d (p\<lparr>pr_issues := ClearIssue (pr_issues p) code\<rparr>) s))"

definition SetPolicy :: "externs \<Rightarrow> string \<Rightarrow> policy \<Rightarrow> memstore \<Rightarrow> (gerr + unit) \<times> memstore" where
  "SetPolicy E domain pol s =
     with_domain E domain s (\<lambda>d.
       if pol \<notin> {PolicyAuto, PolicyRequire, PolicyDisabled}
         then (Inl (Msg ''unknown policy %q''), s)
       else
         let p = upsertLocked s d; (now, s) = ms_now s
         in (Inr (), put_peer d (Reconcile (p\<lparr>pr_policy := pol\<rparr>) now) s))"

definition ForgetPeer :: "externs \<Rightarrow> string \<Rightarrow> memstore \<Rightarrow> (gerr + unit) \<times> memstore" where
  "ForgetPeer E domain s =
     with_domain E domain s (\<lambda>d.
       case map_of (ms_peers s) d of
         None \<Rightarrow> (Inr (), s)
       | Some p \<Rightarrow>
           if pr_policy p = PolicyAuto
           then (Inr (), s\<lparr>ms_peers := AList.delete d (ms_peers s)\<rparr>)
           else (Inr (), put_peer d (Forget_peer p) s))"

definition SetIdentity ::
  "externs \<Rightarrow> string \<Rightarrow> identity_state \<Rightarrow> memstore \<Rightarrow> (gerr + unit) \<times> memstore" where
  "SetIdentity E domain st s =
     with_domain E domain s (\<lambda>d.
       let p = (case map_of (ms_peers s) d of
                  Some p \<Rightarrow> p
                | None \<Rightarrow> zero_peer\<lparr>pr_domain := d, pr_state := StateDiscovered\<rparr>)
       in (Inr (), put_peer d (p\<lparr>pr_identity := st\<rparr>) s))"

text \<open>Replaces a record wholesale: the states only a test arranges.\<close>

definition PutPeerForTest :: "externs \<Rightarrow> peer \<Rightarrow> memstore \<Rightarrow> (gerr + unit) \<times> memstore" where
  "PutPeerForTest E p s =
     with_domain E (pr_domain p) s (\<lambda>d. (Inr (), put_peer d (clonePeer p) s))"

section \<open>Latches\<close>

definition Capability :: "externs \<Rightarrow> string \<Rightarrow> memstore \<Rightarrow> (gerr + capability) \<times> memstore" where
  "Capability E domain s = with_domain E domain s (\<lambda>d. (Inr (caps_of s d), s))"

definition MarkValidated :: "externs \<Rightarrow> string \<Rightarrow> time \<Rightarrow> memstore \<Rightarrow> (gerr + unit) \<times> memstore" where
  "MarkValidated E domain at s =
     with_domain E domain s (\<lambda>d. (Inr (), put_cap d (mark_validated at (caps_of s d)) s))"

definition SetMKDP1Disabled ::
  "externs \<Rightarrow> string \<Rightarrow> bool \<Rightarrow> string \<Rightarrow> time \<Rightarrow> memstore \<Rightarrow> (gerr + unit) \<times> memstore" where
  "SetMKDP1Disabled E domain disabled reason at s =
     with_domain E domain s (\<lambda>d.
       (Inr (), put_cap d (set_disabled disabled reason at (caps_of s d)) s))"

definition ListCapabilities :: "memstore \<Rightarrow> (gerr + (string \<times> capability) list) \<times> memstore" where
  "ListCapabilities s = (Inr (ms_caps s), s)"

definition mem_store :: "externs \<Rightarrow> memstore store_ops" where
  "mem_store E =
     \<lparr>so_get = GetPeer E, so_list = ListPeers, so_put_observation = PutObservation E,
      so_install = InstallManifest E, so_record_failure = RecordFailure E,
      so_record_issue = RecordIssue E, so_clear_issue = ClearIssue_store E,
      so_set_policy = SetPolicy E, so_forget = ForgetPeer E, so_set_identity = SetIdentity E,
      so_capability = Capability E, so_list_capabilities = ListCapabilities,
      so_mark_validated = MarkValidated E, so_set_disabled = SetMKDP1Disabled E\<rparr>"

section \<open>The memory store keeps the contract\<close>

definition book_of :: "memstore \<Rightarrow> book" where
  "book_of s = \<lparr>bk_peers = map_of (ms_peers s), bk_caps = caps_of s\<rparr>"

lemma with_domain_canonical: "canonical_domain E d \<Longrightarrow> with_domain E d s f = f d"
  by (simp add: with_domain_def canonical_domain_def)

lemma book_of_ticks [simp]: "book_of (s\<lparr>ms_ticks := n\<rparr>) = book_of s"
  by (simp add: book_of_def caps_of_def fun_eq_iff)

lemma book_of_now: "ms_now s = (now, s') \<Longrightarrow> book_of s' = book_of s"
  by (auto simp: ms_now_def)

lemma book_of_put_peer [simp]: "book_of (put_peer d p s) = book_put d p (book_of s)"
  by (simp add: book_of_def put_peer_def book_put_def update_conv' caps_of_def fun_eq_iff)

lemma book_of_put_cap [simp]: "book_of (put_cap d c s) = book_put_cap d c (book_of s)"
  by (simp add: book_of_def put_cap_def book_put_cap_def update_conv' caps_of_def fun_eq_iff)

lemma upsert_book: "upsertLocked s d = book_peer (book_of s) d"
  by (simp add: upsertLocked_def book_peer_def book_of_def)

lemma caps_book: "caps_of s d = bk_caps (book_of s) d"
  by (simp add: book_of_def)

lemma peers_book: "map_of (ms_peers s) d = bk_peers (book_of s) d"
  by (simp add: book_of_def)

lemma book_of_delete:
  "bk_caps (book_of (s\<lparr>ms_peers := AList.delete d (ms_peers s)\<rparr>)) = bk_caps (book_of s)"
  "bk_peers (book_of (s\<lparr>ms_peers := AList.delete d (ms_peers s)\<rparr>)) = (bk_peers (book_of s))(d := None)"
  by (auto simp: book_of_def caps_of_def delete_conv' fun_eq_iff)

lemmas mem_op_defs =
  GetPeer_def PutObservation_def InstallManifest_def RecordFailure_def RecordIssue_def
  ClearIssue_store_def SetPolicy_def ForgetPeer_def SetIdentity_def Capability_def
  MarkValidated_def SetMKDP1Disabled_def

lemma mem_get: "canonical_domain E d \<Longrightarrow> outcome book_of d s (GetPeer E d s) (\<lambda>x b b'.
    b' = b \<and> (\<exists>now. x = map_option (\<lambda>p. Reconcile p now) (bk_peers b d)))"
  by (auto simp: mem_op_defs with_domain_canonical outcome_def peers_book clonePeer_def ms_now_def
      split: option.splits)

lemma mem_forget: "canonical_domain E d \<Longrightarrow> outcome book_of d s (ForgetPeer E d s) (\<lambda>x b b'.
    bk_caps b' = bk_caps b \<and> (\<forall>d'. d' \<noteq> d \<longrightarrow> bk_peers b' d' = bk_peers b d')
    \<and> (bk_peers b' d = None \<or> bk_peers b' d = map_option Forget_peer (bk_peers b d)))"
  by (auto simp: mem_op_defs with_domain_canonical outcome_def peers_book book_of_delete
      split: option.splits)

lemma mem_set_identity: "canonical_domain E d \<Longrightarrow> outcome book_of d s (SetIdentity E d st s) (\<lambda>x b b'.
    identity_stored d st b b')"
  by (auto simp: mem_op_defs with_domain_canonical outcome_def peers_book identity_stored_def Let_def
      zero_peer_def split: option.splits)

lemma mem_install: "canonical_domain E d \<Longrightarrow> outcome book_of d s (InstallManifest E d r s) (\<lambda>x b b'.
    mf_domain (rs_manifest r) = d \<and> \<not> peer_disabled b d
    \<and> (\<exists>now. b' = book_put d (Install (book_peer b d) r now) b))"
  by (auto simp: mem_op_defs with_domain_canonical outcome_def upsert_book ms_now_def Let_def
      peer_disabled_def book_peer_def New_peer_def split: option.splits)

lemma mem_record_issue: "canonical_domain E d \<Longrightarrow> outcome book_of d s (RecordIssue E d c t s) (\<lambda>first b b'.
    \<exists>now. b' = book_put d ((book_peer b d)\<lparr>pr_issues := fst (CoalesceIssue (pr_issues (book_peer b d)) c t now)\<rparr>) b
      \<and> (first \<longleftrightarrow> c \<notin> pi_code ` set (pr_issues (book_peer b d))))"
  by (auto simp: mem_op_defs with_domain_canonical outcome_def upsert_book ms_now_def Let_def
      case_prod_beta coalesce_first)

interpretation mem: store_contract E "mem_store E" book_of
proof unfold_locales
  fix d assume c: "canonical_domain E d"
  note defs = mem_store_def store_ops.select_convs
  show "outcome book_of d s (so_get (mem_store E) d s) (\<lambda>x b b'.
      b' = b \<and> (\<exists>now. x = map_option (\<lambda>p. Reconcile p now) (bk_peers b d)))" for s
    unfolding defs using c by (rule mem_get)
  show "outcome book_of d s (so_install (mem_store E) d r s) (\<lambda>x b b'.
      mf_domain (rs_manifest r) = d \<and> \<not> peer_disabled b d
      \<and> (\<exists>now. b' = book_put d (Install (book_peer b d) r now) b))" for s r
    unfolding defs using c by (rule mem_install)
  show "outcome book_of d s (so_forget (mem_store E) d s) (\<lambda>x b b'.
      bk_caps b' = bk_caps b \<and> (\<forall>d'. d' \<noteq> d \<longrightarrow> bk_peers b' d' = bk_peers b d')
      \<and> (bk_peers b' d = None \<or> bk_peers b' d = map_option Forget_peer (bk_peers b d)))" for s
    unfolding defs using c by (rule mem_forget)
  show "outcome book_of d s (so_set_identity (mem_store E) d st s) (\<lambda>x b b'.
      identity_stored d st b b')" for s st
    unfolding defs using c by (rule mem_set_identity)
  show "outcome book_of d s (so_record_issue (mem_store E) d c t s) (\<lambda>first b b'.
      \<exists>now. b' = book_put d ((book_peer b d)\<lparr>pr_issues := fst (CoalesceIssue (pr_issues (book_peer b d)) c t now)\<rparr>) b
        \<and> (first \<longleftrightarrow> c \<notin> pi_code ` set (pr_issues (book_peer b d))))" for s c t
    unfolding defs using c by (rule mem_record_issue)
qed (auto simp: mem_store_def mem_op_defs with_domain_canonical outcome_def upsert_book caps_book
    ms_now_def Let_def split: prod.splits)

section \<open>The store's own invariant\<close>

definition memstore_wf :: "externs \<Rightarrow> memstore \<Rightarrow> bool" where
  "memstore_wf E s \<longleftrightarrow> distinct (map fst (ms_peers s)) \<and> distinct (map fst (ms_caps s))
     \<and> (\<forall>(d, p) \<in> set (ms_peers s). canonical_domain E d \<and> pr_domain p = d \<and> peer_wf p)"

lemma set_update_assoc: "set (AList.update k v xs) \<subseteq> insert (k, v) (set xs)"
  by (induction xs) auto

lemma memstore_wf_ticks [simp]: "memstore_wf E (s\<lparr>ms_ticks := n\<rparr>) = memstore_wf E s"
  by (simp add: memstore_wf_def)

lemma memstore_wf_put:
  assumes "memstore_wf E s" and "canonical_domain E d" and "pr_domain p = d" and "peer_wf p"
  shows "memstore_wf E (put_peer d p s)"
  using assms set_update_assoc [of d p "ms_peers s"]
  by (fastforce simp: memstore_wf_def put_peer_def distinct_update)

lemma memstore_wf_put_cap: "memstore_wf E s \<Longrightarrow> memstore_wf E (put_cap d c s)"
  by (simp add: memstore_wf_def put_cap_def distinct_update)

lemma memstore_wf_upsert:
  "memstore_wf E s \<Longrightarrow> pr_domain (upsertLocked s d) = d \<and> peer_wf (upsertLocked s d)"
  using peer_wf_New [of d]
  by (auto simp: upsertLocked_def memstore_wf_def New_peer_def dest!: map_of_SomeD split: option.splits)

lemma Forget_domain [simp]: "pr_domain (Forget_peer p) = pr_domain p"
  by (simp add: Forget_peer_def Let_def)

lemma Fail_domain [simp]: "pr_domain (Fail_peer p e now) = pr_domain p"
  by (simp add: Fail_peer_def)

lemma peer_wf_update:
  "peer_wf p \<Longrightarrow> peer_wf (p\<lparr>pr_identity := st\<rparr>)"
  "peer_wf p \<Longrightarrow> peer_wf (p\<lparr>pr_policy := pol\<rparr>)"
  "peer_wf p \<Longrightarrow> issues_wf is \<Longrightarrow> peer_wf (p\<lparr>pr_issues := is\<rparr>)"
  by (simp_all add: peer_wf_def)

lemma peer_wf_issues: "peer_wf p \<Longrightarrow> issues_wf (pr_issues p)"
  by (simp add: peer_wf_def)

text \<open>What one call of the store may do.\<close>

inductive mem_step :: "externs \<Rightarrow> memstore \<Rightarrow> memstore \<Rightarrow> bool" for E s where
  "mem_step E s (snd (GetPeer E d s))"
| "mem_step E s (snd (ListPeers s))"
| "mem_step E s (snd (PutObservation E d ob s))"
| "mem_step E s (snd (InstallManifest E d r s))"
| "mem_step E s (snd (RecordFailure E d e s))"
| "mem_step E s (snd (RecordIssue E d c t s))"
| "mem_step E s (snd (ClearIssue_store E d c s))"
| "mem_step E s (snd (SetPolicy E d pol s))"
| "mem_step E s (snd (ForgetPeer E d s))"
| "mem_step E s (snd (SetIdentity E d st s))"
| "mem_step E s (snd (Capability E d s))"
| "mem_step E s (snd (MarkValidated E d at s))"
| "mem_step E s (snd (SetMKDP1Disabled E d dis why at s))"
| "mem_step E s (snd (ListCapabilities s))"

lemma with_domain_wf:
  assumes "idna_ldh E" and "memstore_wf E s"
    and "\<And>d. canonical_domain E d \<Longrightarrow> memstore_wf E (snd (f d))"
  shows "memstore_wf E (snd (with_domain E domain s f))"
proof (cases "NormalizeDomain E domain")
  case (Inr d)
  then show ?thesis using assms canonical_normalized [OF assms(1) Inr] by (simp add: with_domain_def)
qed (simp add: with_domain_def assms(2))

lemma mem_step_wf:
  assumes idna: "idna_ldh E" and wf: "memstore_wf E s" and step: "mem_step E s s'"
  shows "memstore_wf E s'"
proof -
  note up = memstore_wf_upsert [OF wf]
  note put = memstore_wf_put [of E "s\<lparr>ms_ticks := Suc (ms_ticks s)\<rparr>"] memstore_wf_put [OF wf]
  note wfs = peer_wf_Observe peer_wf_Install peer_wf_Fail peer_wf_Forget peer_wf_update
    issues_wf_coalesce issues_wf_clear peer_wf_issues
  have map_wf: "map_of (ms_peers s) d = Some p \<Longrightarrow> pr_domain p = d \<and> peer_wf p" for d p
    using wf by (auto simp: memstore_wf_def dest: map_of_SomeD)
  have del: "memstore_wf E (s\<lparr>ms_peers := AList.delete d (ms_peers s)\<rparr>)" for d
  proof -
    have "distinct (map fst (AList.delete d (ms_peers s)))"
      using wf by (auto simp: memstore_wf_def intro: AList.distinct_delete)
    moreover have "set (AList.delete d (ms_peers s)) \<subseteq> set (ms_peers s)" by (auto simp: AList.delete_eq)
    ultimately show ?thesis using wf by (auto simp: memstore_wf_def)
  qed
  have zero: "peer_wf (zero_peer\<lparr>pr_domain := d, pr_state := StateDiscovered\<rparr>)" for d
    by (simp add: peer_wf_def zero_peer_def issues_wf_def)
  show ?thesis
    using step
  proof cases
    case (6 d c t)
    then show ?thesis unfolding 6 mem_op_defs
      by (intro with_domain_wf [OF idna wf])
        (use wf up issues_wf_coalesce in \<open>auto simp: ms_now_def Let_def case_prod_beta intro!: put wfs\<close>)
  qed (unfold mem_op_defs ListPeers_def ListCapabilities_def,
      ((rule with_domain_wf [OF idna wf])?,
       use wf up in \<open>auto simp: ms_now_def Let_def memstore_wf_put_cap del zero
        dest: map_wf intro!: put wfs split: option.splits\<close>)+)
qed

end
