(* ===== verification/Outbound.thy ===== *)
theory Outbound
  imports Resolver MemStore
begin

text \<open>
  Composition: the service over a store and a resolver that keep their contracts.  The
  resolver's contract says that its failures never look like a disabled peer, and that
  what it answers parses for the domain that was asked.  From it the service gets the
  protection of mail without further hypotheses, and the availability of a cached
  manifest: what is in force can always be read back, and what is handed out can be sealed to.
\<close>

section \<open>The contract of a resolver\<close>

text \<open>An answer whose bytes are its manifest, under the identifier of those bytes.\<close>

definition faithful :: "externs \<Rightarrow> string \<Rightarrow> fetch_result \<Rightarrow> bool" where
  "faithful E d res \<longleftrightarrow> ParseCanonical E (rs_raw res) d = Inr (rs_manifest res)
     \<and> rs_manifest_id res = ManifestIDOf E (rs_raw res)"

text \<open>A record that gives such an answer.\<close>

definition reads_back :: "externs \<Rightarrow> manifest_record \<Rightarrow> string \<Rightarrow> bool" where
  "reads_back E rec d \<longleftrightarrow> (\<exists>res. resultOf E rec d = Inr res \<and> faithful E d res)"

lemma faithful_reads_back:
  assumes "faithful E d res"
  shows "reads_back E (installed_record res) d"
proof -
  have f: "ParseCanonical E (rs_raw res) d = Inr (rs_manifest res)" "rs_manifest_id res = ManifestIDOf E (rs_raw res)"
    using assms by (auto simp: faithful_def)
  with ParseCanonical_facts(3) [OF f(1)] show ?thesis
    by (auto simp: reads_back_def faithful_def resultOf_def parseStored_def installed_record_def)
qed

text \<open>A failure, or such an answer.\<close>

definition honest :: "externs \<Rightarrow> string \<Rightarrow> gerr + fetch_result \<Rightarrow> bool" where
  "honest E d r \<longleftrightarrow> (\<forall>res. r = Inr res \<longrightarrow> faithful E d res)"

lemma honest_simps [simp]: "honest E d (Inl e)" "honest E d (Inr res) \<longleftrightarrow> faithful E d res"
  by (simp_all add: honest_def)

locale resolver_contract =
  fixes E :: externs and R :: "'r resolver_ops"
  assumes calm: "calm (fst (rv_resolve R d a n))"
    and answer: "canonical_domain E d \<Longrightarrow> fst (rv_resolve R d a n) = Inr res \<Longrightarrow>
      faithful E d res"
begin

lemma resolver_is_calm: "resolver_calm R"
  by (simp add: resolver_calm_def calm)

text \<open>A record made of an answer reads back.\<close>

lemma answer_readable:
  assumes "canonical_domain E d" and "fst (rv_resolve R d a n) = Inr res"
  shows "reads_back E (installed_record res) d"
  by (rule faithful_reads_back) (rule answer [OF assms])

end

text \<open>The authority client keeps it, whatever the network does.\<close>

interpretation client: resolver_contract E "net_resolver E (New_resolver opts) net"
proof
  show "calm (fst (rv_resolve (net_resolver E (New_resolver opts) net) d a n))" for d a n
    using Resolve_classified [of E "New_resolver opts" "net n" d a]
    by (auto simp: net_resolver_def classified_def intro: calm_plain)
  fix d a n res
  assume c: "canonical_domain E d" and r: "fst (rv_resolve (net_resolver E (New_resolver opts) net) d a n) = Inr res"
  then obtain a' where f: "fetch E (New_resolver opts) (net n) d a' = Inr res"
    by (auto simp: net_resolver_def Resolve_def resolve_names_def canonical_domain_def result_simps
        split: sum.splits if_splits)
  have "0 \<le> op_max_body (re_opts (New_resolver opts))" using New_resolver_safe(4) [of opts] by simp
  from fetch_Inr [OF f this] show "faithful E d res"
    by (auto simp: believed_def faithful_def)
qed

section \<open>Everything in force can be read back\<close>

definition readable :: "externs \<Rightarrow> book \<Rightarrow> bool" where
  "readable E b \<longleftrightarrow> (\<forall>d p. bk_peers b d = Some p \<longrightarrow> pr_domain p = d
     \<and> (\<forall>e. pr_effective p = Some e \<longrightarrow> reads_back E e d))"

lemma readable_peer:
  "readable E b \<Longrightarrow> pr_domain (book_peer b d) = d
     \<and> (\<forall>e. pr_effective (book_peer b d) = Some e \<longrightarrow> reads_back E e d)"
  by (auto simp: readable_def book_peer_def New_peer_def zero_peer_def split: option.splits)

lemma readable_put:
  "readable E b \<Longrightarrow> pr_domain p = d \<Longrightarrow> (\<And>e. pr_effective p = Some e \<Longrightarrow> reads_back E e d)
     \<Longrightarrow> readable E (book_put d p b)"
  by (auto simp: readable_def)

lemma Fail_sel [simp]: "pr_domain (Fail_peer p e now) = pr_domain p" "pr_effective (Fail_peer p e now) = pr_effective p"
  by (simp_all add: Fail_peer_def)

lemma readable_soft: "kept_by_soft (readable E)"
  unfolding kept_by_soft_def
  by (auto elim!: soft_step.cases intro!: readable_put simp: readable_peer) (auto simp: readable_def)

lemma readable_identity: "readable E b \<Longrightarrow> identity_stored d st b b' \<Longrightarrow> readable E b'"
  by (auto simp: identity_stored_def split: option.splits intro!: readable_put)
    (auto simp: readable_def)

text \<open>A peer as the book gave it, whose record in force reads back.\<close>

definition peer_reads :: "externs \<Rightarrow> string \<Rightarrow> peer option \<Rightarrow> bool" where
  "peer_reads E d p \<longleftrightarrow> (case p of None \<Rightarrow> True | Some q \<Rightarrow> pr_domain q = d
     \<and> (\<forall>rec. pr_effective q = Some rec \<longrightarrow> reads_back E rec d))"

lemma peer_reads_None [simp]: "peer_reads E d None"
  by (simp add: peer_reads_def)

lemma usable_faithful:
  assumes "peer_reads E d p" and "Usable p t = Some rec"
  shows "honest E d (resultOf E rec d)"
proof -
  have "reads_back E rec d"
    using assms by (auto simp: Usable_def peer_reads_def split: if_splits option.splits)
  then show ?thesis by (auto simp: reads_back_def honest_def)
qed

locale protected_service = store_contract E S view + resolver_contract E R
  for E :: externs and S :: "'s store_ops" and view :: "'s \<Rightarrow> book" and R :: "'r resolver_ops"
begin

lemma keeps_identity_readable:
  "canonical_domain E d \<Longrightarrow> keeps (\<lambda>w. readable E (book_at view w)) (on_store (so_set_identity S d st))"
  by (rule keeps_store [OF set_identity]) (auto intro: readable_identity)

lemma keeps_install_readable:
  assumes "canonical_domain E d" and "reads_back E (installed_record res) d"
  shows "keeps (\<lambda>w. readable E (book_at view w)) (on_store (so_install S d res))"
  by (rule keeps_store [OF install [OF assms(1)]])
    (use assms(2) readable_peer in \<open>auto intro!: readable_put\<close>)

lemmas readable_ops = keeps_ops [OF _ readable_soft] keeps_clear [OF _ readable_soft]
  keeps_raise [OF _ readable_soft] keeps_hint [OF _ readable_soft] keeps_refuse [OF _ readable_soft]
  keeps_cached [OF _ readable_soft] keeps_policy [OF _ readable_soft]
  keeps_local keeps_emit_err keeps_hold keeps_decide keeps_identity_readable keeps_install_readable keeps_rules

lemma commit_readable:
  assumes "canonical_domain E d" and "reads_back E (installed_record res) d"
  shows "keeps (\<lambda>w. readable E (book_at view w)) (commit E S R d a acc res prev v)"
  unfolding commit_def followRotation_def follow_doc_def install_successor_def install_accepted_def
  using assms by (intro readable_ops)

lemma resolve_readable:
  assumes "canonical_domain E d"
  shows "keeps (\<lambda>w. readable E (book_at view w)) (resolve E S R d force acc)"
proof -
  let ?I = "\<lambda>w. readable E (book_at view w)"
  have net: "triple ?I (on_net (rv_resolve R d a))
     (\<lambda>r w. (\<forall>res. r = Inr res \<longrightarrow> reads_back E (installed_record res) d) \<and> ?I w)" for a
  proof (rule tripleI)
    fix w r w' assume i: "?I w" and run: "run_state (on_net (rv_resolve R d a)) w = (r, w')"
    then have r: "r = fst (rv_resolve R d a (sv_net w))" and w: "book_at view w' = book_at view w"
      by (auto simp: on_net_def book_at_def Let_def split: prod.splits)
    show "(\<forall>res. r = Inr res \<longrightarrow> reads_back E (installed_record res) d) \<and> ?I w'"
      using answer_readable [OF assms] r i w by simp
  qed
  have settle: "keeps ?I (settle E S R d a acc res)" if "reads_back E (installed_record res) d" for a res
    unfolding settle_def Let_def using that assms by (intro readable_ops commit_readable)
  show ?thesis
    unfolding resolve_def
    by (rule keeps_rules(2), (intro readable_ops assms)[1], rule keeps_rules(5),
        rule keeps_rules(2), (intro readable_ops assms)[1], unfold keeps_def,
        rule triple_bind [OF net], rule triple_pure, rule triple_sum; rule keeps_triple)
      (auto intro!: readable_ops settle assms)
qed

lemma outbound_readable:
  assumes "canonical_domain E d"
  shows "keeps (\<lambda>w. readable E (book_at view w)) (resolveForEncryption E S R d acc)"
  unfolding resolveForEncryption_def by (intro readable_ops resolve_readable assms)

text \<open>Whatever is handed out is a faithful answer: cached, fetched, or accepted by the sender.\<close>

lemma follow_yields: "yields (\<lambda>r. \<forall>r2. r = Some r2 \<longrightarrow> r2 = res) (followRotation E S R d a prev res)"
  unfolding followRotation_def follow_doc_def install_successor_def by (intro yields_rules) simp_all

lemma commit_honest:
  assumes prev: "peer_reads E d prev" and res: "faithful E d res"
  shows "yields (honest E d) (commit E S R d a acc res prev v)"
proof -
  have refuse: "yields (honest E d) (refuse E S d prev res v acc)"
  proof -
    have "honest E d (case Usable prev t of Some rec \<Rightarrow> resultOf E rec d | None \<Rightarrow> Inl e)" for t e
      using usable_faithful [OF prev] by (cases "Usable prev t") simp_all
    then show ?thesis
      unfolding refuse_def by (intro yields_rules) (simp_all add: res)
  qed
  have follow: "yields (\<lambda>r. \<forall>r2. r = Some r2 \<longrightarrow> r2 = res)
      (if vd_reason v = ''pinned/valid-proof-other-signer'' then followRotation E S R d a prev res
       else State_Monad.return None)"
    by (intro yields_rules follow_yields) simp
  have refused: "yields (honest E d)
      (State_Monad.bind (if vd_reason v = ''pinned/valid-proof-other-signer'' then followRotation E S R d a prev res
         else State_Monad.return None)
       (case_option (refuse E S d prev res v acc) (\<lambda>res2. State_Monad.return (Inr res2))))"
  proof (rule yields_then [OF follow])
    fix f :: "fetch_result option" assume "\<forall>r2. f = Some r2 \<longrightarrow> r2 = res"
    then show "yields (honest E d)
        (case f of None \<Rightarrow> refuse E S d prev res v acc | Some res2 \<Rightarrow> State_Monad.return (Inr res2))"
      by (cases f) (simp_all add: refuse yields_compose(1) res)
  qed
  show ?thesis
    unfolding commit_def install_accepted_def persistenceHold_def
    by (rule yields_compose(2), rule yields_compose(2), rule yields_compose(4), (intro yields_rules)[1], simp,
        rule yields_compose(3), rule refused, intro yields_rules) (simp_all add: res)
qed

text \<open>Reading a peer of a readable book.\<close>

lemma get_readable:
  assumes c: "canonical_domain E d"
  shows "triple (\<lambda>w. readable E (book_at view w)) (on_store (so_get S d))
     (\<lambda>r w. (\<forall>p. r = Inr p \<longrightarrow> peer_reads E d p) \<and> readable E (book_at view w))"
  by (rule triple_store [OF get [OF c]]) (auto simp: readable_def peer_reads_def split: option.splits)

lemma cached_honest:
  assumes c: "canonical_domain E d"
  shows "triple (\<lambda>w. readable E (book_at view w)) (cached_answer E S d)
     (\<lambda>r w. (\<forall>x. r = Some x \<longrightarrow> honest E d x) \<and> readable E (book_at view w))"
proof (rule triple_conj [OF _ keeps_triple [OF keeps_cached [OF c readable_soft]]])
  show "triple (\<lambda>w. readable E (book_at view w)) (cached_answer E S d) (\<lambda>r w. \<forall>x. r = Some x \<longrightarrow> honest E d x)"
    unfolding cached_answer_def
    by (rule triple_bind [OF get_readable [OF c]], rule triple_pure, rule yields_triple)
      (intro yields_rules, auto dest: usable_faithful)
qed

lemma resolve_honest:
  assumes c: "canonical_domain E d"
  shows "triple (\<lambda>w. readable E (book_at view w)) (resolve E S R d force acc) (\<lambda>r w. honest E d r)"
proof -
  let ?I = "\<lambda>w. readable E (book_at view w)"
  have net: "triple ?I (on_net (rv_resolve R d a)) (\<lambda>r w. honest E d r \<and> ?I w)" for a
    by (rule tripleI)
      (use answer [OF c] in \<open>auto simp: on_net_def book_at_def Let_def honest_def split: prod.splits, metis fst_conv\<close>)
  have settle: "triple ?I (settle E S R d a acc res) (\<lambda>r w. honest E d r)" if "faithful E d res" for a res
    unfolding settle_def Let_def
    by (rule triple_bind [OF get_readable [OF c]], rule triple_pure, rule yields_triple)
      (intro yields_rules commit_honest that, auto simp: persistenceHold_def intro!: yields_rules split: sum.splits)
  have cached: "triple ?I (if force then State_Monad.return None else cached_answer E S d)
     (\<lambda>r w. (\<forall>x. r = Some x \<longrightarrow> honest E d x) \<and> ?I w)"
    by (intro triple_if triple_return cached_honest c) simp
  show ?thesis
    unfolding resolve_def
    by (rule triple_bind [OF cached], rule triple_pure, rule triple_option,
        rule triple_keep [OF keeps_hint [OF c readable_soft]], rule triple_bind [OF net],
        rule triple_pure, rule triple_sum)
      (auto intro!: yields_triple yields_rules settle)
qed

lemma outbound_honest:
  assumes c: "canonical_domain E d"
  shows "triple (\<lambda>w. readable E (book_at view w)) (resolveForEncryption E S R d acc)
     (\<lambda>rp w. honest E d (fst rp))"
  unfolding resolveForEncryption_def
proof (rule triple_bind [OF get_readable [OF c]], rule triple_pure)
  fix g :: "gerr + peer option"
  assume g: "\<forall>p. g = Inr p \<longrightarrow> peer_reads E d p"
  have us: "honest E d (resultOf E rec (pr_domain (the p)))" if "g = Inr p" and "Usable p t = Some rec" for p rec t
    using g usable_faithful [OF _ that(2)] that
    by (cases p) (auto simp: peer_reads_def Usable_def)
  show "triple (\<lambda>w. readable E (book_at view w))
     (case g of Inl e \<Rightarrow> State_Monad.return (Inl e, None)
      | Inr p \<Rightarrow>
        if (case p of Some q \<Rightarrow> pr_policy q = PolicyDisabled | None \<Rightarrow> False)
        then State_Monad.return (Inl (Sentinel ErrDisabled), p)
        else
          do { now \<leftarrow> svc_now;
               case Usable p now of
                 Some rec \<Rightarrow>
                   if \<not> fst (NeedsRefresh p now)
                   then State_Monad.return (resultOf E rec (pr_domain (the p)), p)
                   else
                     do { r \<leftarrow> resolve E S R d False acc;
                          State_Monad.return (case r of
                              Inr res \<Rightarrow> (Inr res, p)
                            | Inl _ \<Rightarrow> (resultOf E rec (pr_domain (the p)), p)) }
               | None \<Rightarrow>
                   do { r \<leftarrow> resolve E S R d False acc;
                        State_Monad.return (r, p) } }) (\<lambda>rp w. honest E d (fst rp))"
    by (intro triple_sum triple_if triple_return triple_keep [OF keeps_local(1)] triple_option
        triple_bind [OF resolve_honest [OF c]])
      (auto split: sum.splits intro: us)
qed

lemma encrypting_honest:
  assumes c: "canonical_domain E d" and n: "NormalizeDomain E domain = Inr d"
  shows "triple (\<lambda>w. readable E (book_at view w)) (resolveEncrypting E S R domain acc)
     (\<lambda>r w. honest E d r)"
  unfolding resolveEncrypting_def n sum.case
  by (rule triple_bind [OF outbound_honest [OF c]])
    (auto simp: triple_def run_state_bind split: prod.splits sum.splits)

text \<open>Protection, with nothing left to ask of the resolver.\<close>

lemma protected:
  "canonical_domain E d \<Longrightarrow> NormalizeDomain E domain = Inr d \<Longrightarrow>
     triple (\<lambda>w. guarded d (book_at view w)) (resolveEncrypting E S R domain acc)
       (\<lambda>r w. (\<forall>e. r = Inl e \<longrightarrow> is_required e) \<and> guarded d (book_at view w))"
  by (rule no_downgrade [OF _ _ resolver_is_calm])

text \<open>Availability: a manifest in force is handed out whatever the authority does.\<close>

lemma usable_answers:
  assumes c: "canonical_domain E d" and ok: "reads_ok E S" and rd: "readable E (book_at view w)"
    and p: "bk_peers (book_at view w) d = Some p"
    and u: "Usable (Some p) (sv_clock w (sv_ticks w)) \<noteq> None"
  shows "is_ok (fst (fst (run_state (resolveForEncryption E S R d acc) w)))"
proof -
  obtain rec where u: "Usable (Some p) (sv_clock w (sv_ticks w)) = Some rec" using u by blast
  then have eff: "pr_effective p = Some rec" and pol: "pr_policy p \<noteq> PolicyDisabled"
    by (auto simp: Usable_def split: if_splits option.splits)
  have res: "is_ok (resultOf E rec d)" and dom: "pr_domain p = d"
    using rd p eff unfolding readable_def reads_back_def is_ok_iff by blast+
  obtain g s where gs: "so_get S d (sv_store w) = (g, s)" by fastforce
  obtain now where g: "g = Inr (Some (Reconcile p now))"
    using get [OF c, of "sv_store w"] ok [unfolded reads_ok_def, rule_format, OF c, of "sv_store w"] p gs
    by (cases g) (auto simp: outcome_def book_at_def)
  have "Usable (Some (Reconcile p now)) t = Usable (Some p) t" for t
    by (rule Usable_keys) simp
  then show ?thesis
    using res pol u dom
    by (auto simp: resolveForEncryption_def on_store_def svc_now_def run_state_bind gs g is_ok_iff
        split: prod.splits sum.splits)
qed

end

text \<open>The repository's own composition.\<close>

interpretation live: protected_service E "mem_store E" book_of "net_resolver E (New_resolver opts) net"
  by unfold_locales

section \<open>No outcome is ErrNoKey\<close>

text \<open>The sentinel the documentation of \<^verbatim>\<open>ResolveForEncryption\<close> names: nothing makes it.\<close>

definition never :: "sentinel \<Rightarrow> gerr + 'a \<Rightarrow> bool" where
  "never k r \<longleftrightarrow> (\<forall>e. r = Inl e \<longrightarrow> \<not> err_is k e)"

lemma never_simps [simp]: "never k (Inr x)" "never k (Inl e) \<longleftrightarrow> \<not> err_is k e"
  by (simp_all add: never_def)

lemma never_plain: "plain_fail r \<Longrightarrow> never k r"
  by (auto simp: never_def plain_fail_def plain_err_def)

lemma never_resultOf [simp]: "never k (resultOf E rec d)"
  by (simp add: never_plain)

definition never_store :: "sentinel \<Rightarrow> 's store_ops \<Rightarrow> bool" where
  "never_store k S \<longleftrightarrow> (\<forall>d s r e t st. never k (fst (so_get S d s)) \<and> never k (fst (so_install S d r s))
     \<and> never k (fst (so_record_failure S d e s)) \<and> never k (fst (so_mark_validated S d t s))
     \<and> never k (fst (so_set_identity S d st s)))"

lemma mem_never: "k \<noteq> ErrDisabled \<Longrightarrow> never_store k (mem_store E)"
  using plain_NormalizeDomain [of E]
  by (auto simp: never_store_def mem_store_def mem_op_defs with_domain_def never_def plain_fail_def plain_err_def
      Let_def split: sum.splits option.splits prod.splits if_splits)

definition never_resolver :: "sentinel \<Rightarrow> 'r resolver_ops \<Rightarrow> bool" where
  "never_resolver k R \<longleftrightarrow> (\<forall>d a n. never k (fst (rv_resolve R d a n)))"

lemma client_never: "never_resolver k (net_resolver E (New_resolver opts) net)"
  using Resolve_classified
  by (fastforce simp: never_resolver_def net_resolver_def classified_def never_def plain_fail_def plain_err_def)

lemma yields_on_store: "(\<And>s. Q (fst (f s))) \<Longrightarrow> yields Q (on_store f)"
  by (rule yieldsI) (auto simp: on_store_def Let_def split: prod.splits, metis fst_conv)

lemma yields_on_net: "(\<And>s. Q (fst (f s))) \<Longrightarrow> yields Q (on_net f)"
  by (rule yieldsI) (auto simp: on_net_def Let_def split: prod.splits, metis fst_conv)

lemma outbound_never_no_key:
  fixes S :: "'s store_ops" and R :: "'r resolver_ops"
  assumes S: "never_store ErrNoKey S" and R: "never_resolver ErrNoKey R"
  shows "yields (never ErrNoKey) (resolveEncrypting E S R domain acc)"
proof -
  let ?N = "\<lambda>e. \<not> err_is ErrNoKey e"
  have calls: "yields (never ErrNoKey) (on_store (so_get S d) :: ('s, 'r, gerr + peer option) svc)"
      "yields (never ErrNoKey) (on_store (so_install S d r) :: ('s, 'r, gerr + unit) svc)"
      "yields (never ErrNoKey) (on_store (so_record_failure S d e) :: ('s, 'r, gerr + unit) svc)"
      "yields (never ErrNoKey) (on_store (so_mark_validated S d t) :: ('s, 'r, gerr + unit) svc)"
      "yields (never ErrNoKey) (on_store (so_set_identity S d st) :: ('s, 'r, gerr + unit) svc)" for d r e t st
    by (rule yields_on_store, use S in \<open>simp add: never_store_def\<close>)+
  have req: "?N (FailRequired d c)" if "\<forall>e. c = Some e \<longrightarrow> ?N e" for d c
    using that by (cases c) (auto simp: FailRequired_def)
  have hold: "yields (never ErrNoKey) (persistenceHold d what e :: ('s, 'r, gerr + fetch_result) svc)" if "?N e" for d what e
    unfolding persistenceHold_def by (intro yields_rules) (use that req in auto)
  have refuse: "yields (never ErrNoKey) (refuse E S d prev res v acc :: ('s, 'r, gerr + fetch_result) svc)" for d prev res v
    unfolding refuse_def say_def
    by (intro yields_rules) (auto simp: req split: option.splits)
  have accepted: "yields (never ErrNoKey) (install_accepted S d res :: ('s, 'r, gerr + fetch_result) svc)" for d res
    unfolding install_accepted_def
    by (rule yields_then [OF calls(2)])
      (auto intro!: yields_rules split: sum.splits)
  have commit: "yields (never ErrNoKey) (commit E S R d a acc res prev v)" for d a res prev v
    unfolding commit_def
    by (rule yields_compose(2), rule yields_then [OF calls(5)])
      (auto intro!: yields_rules hold refuse accepted split: sum.splits)
  have settle: "yields (never ErrNoKey) (settle E S R d a acc res)" for d a res
    unfolding settle_def Let_def
    by (rule yields_compose(2), rule yields_compose(2), rule yields_then [OF calls(4)])
      (auto intro!: hold commit split: sum.splits)
  have cached: "yields (\<lambda>r. \<forall>x. r = Some x \<longrightarrow> never ErrNoKey x)
      (if force then State_Monad.return None else cached_answer E S d :: ('s, 'r, (gerr + fetch_result) option) svc)" for force d
    unfolding cached_answer_def by (intro yields_rules) auto
  have net: "yields (never ErrNoKey) (on_net (rv_resolve R d a) :: ('s, 'r, gerr + fetch_result) svc)" for d a
    by (rule yields_on_net) (use R in \<open>simp add: never_resolver_def\<close>)
  have resolve: "yields (never ErrNoKey) (resolve E S R d force acc)" for d force
    unfolding resolve_def
    by (rule yields_then [OF cached], rule yields_compose(5), rule yields_compose(2),
        rule yields_then [OF net])
      (auto intro!: settle yields_compose(1) yields_compose(2) yields_then [OF calls(3)] split: sum.splits)
  have outbound: "yields (\<lambda>rp. never ErrNoKey (fst rp)) (resolveForEncryption E S R d acc)" for d
    unfolding resolveForEncryption_def
    by (rule yields_then [OF calls(1)])
      (auto intro!: yields_compose(1,3,5) yields_compose(2) [where p = svc_now] yields_then [OF resolve]
        split: sum.splits option.splits)
  have policy: "yields ?N (policyFailure S p d e :: ('s, 'r, gerr) svc)" if "?N e" for p d e
    unfolding policyFailure_def
    by (intro yields_rules) (use that req in \<open>auto split: sum.splits\<close>)
  show ?thesis
  proof (cases "NormalizeDomain E domain")
    case (Inl e)
    then have "?N e" using plain_NormalizeDomain [of E domain] by (auto simp: plain_fail_def plain_err_def)
    then show ?thesis by (simp add: resolveEncrypting_def Inl yields_compose(1))
  next
    case (Inr d)
    show ?thesis
      unfolding resolveEncrypting_def Inr sum.case
      by (rule yields_then [OF outbound])
        (auto intro!: yields_then [OF policy] yields_compose(1) split: sum.splits prod.splits)
  qed
qed

lemma live_never_no_key:
  "yields (never ErrNoKey) (resolveEncrypting E (mem_store E) (net_resolver E (New_resolver opts) net) domain acc)"
  by (rule outbound_never_no_key [OF mem_never client_never]) simp

end
