(* ===== verification/Observing.thy ===== *)
theory Observing
  imports Service "HOL-Library.Multiset"
begin

text \<open>
  The asynchronous half of \<^verbatim>\<open>peer/service.go\<close>: what one DNS answer or one inbound header
  may write, when a domain is queued for resolution, and the queue with its workers.  The
  operations are first the sequential ones of one caller; the last part models their
  interleaving as a step relation over the shared queue and pending set.
\<close>

section \<open>What a set of advertisements agrees on\<close>

fun single_step :: "('a \<Rightarrow> bool) \<Rightarrow> ('a \<Rightarrow> 'b) \<Rightarrow> 'b option \<Rightarrow> 'a list \<Rightarrow> 'b option option" where
  "single_step has sel got [] = Some got"
| "single_step has sel got (ad # ads) =
     (if \<not> has ad then single_step has sel got ads
      else case got of
             None \<Rightarrow> single_step has sel (Some (sel ad)) ads
           | Some x \<Rightarrow> if sel ad \<noteq> x then None else single_step has sel got ads)"

text \<open>The value, whether any record carried one, whether all that did agree.\<close>

definition singleAuthority :: "advertisement list \<Rightarrow> string \<times> bool" where
  "singleAuthority ads =
     (case single_step (\<lambda>_. True) ad_authority None ads of
        None \<Rightarrow> ([], False)
      | Some None \<Rightarrow> ([], True)
      | Some (Some a) \<Rightarrow> (a, True))"

definition singleID :: "advertisement list \<Rightarrow> bytes \<times> bool \<times> bool" where
  "singleID ads =
     (case single_step ad_has_id ad_manifest_id None ads of
        None \<Rightarrow> (zero32, False, False)
      | Some None \<Rightarrow> (zero32, False, True)
      | Some (Some i) \<Rightarrow> (i, True, True))"

definition singleFingerprint :: "advertisement list \<Rightarrow> bytes \<times> bool \<times> bool" where
  "singleFingerprint ads =
     (case single_step ad_has_fp ad_fingerprint None ads of
        None \<Rightarrow> (zero32, False, False)
      | Some None \<Rightarrow> (zero32, False, True)
      | Some (Some f) \<Rightarrow> (f, True, True))"

section \<open>Observing\<close>

definition schedule :: "string \<Rightarrow> ('s, 'r, unit) svc" where
  "schedule domain = State (\<lambda>w.
     if domain \<in> set (sv_pending w) then ((), w)
     else if length (sv_queue w) < sv_capacity w
       then ((), w\<lparr>sv_queue := sv_queue w @ [domain], sv_pending := domain # sv_pending w\<rparr>)
     else if heard (sv_callbacks w) (EvDrop domain) then ((), w\<lparr>sv_log := sv_log w @ [EvDrop domain]\<rparr>)
     else ((), w))"

definition scheduleIfBehind :: "'s store_ops \<Rightarrow> string \<Rightarrow> ('s, 'r, gerr option) svc" where
  "scheduleIfBehind S domain =
     do { g \<leftarrow> on_store (so_get S domain);
          case g of
            Inl e \<Rightarrow> State_Monad.return (Some e)
          | Inr p \<Rightarrow>
              do { now \<leftarrow> svc_now;
                   (if fst (NeedsRefresh p now) then schedule domain else State_Monad.return ());
                   State_Monad.return None } }"

definition observe ::
  "'s store_ops \<Rightarrow> string \<Rightarrow> observation \<Rightarrow> ('s, 'r, gerr option) svc" where
  "observe S domain ob =
     do { now \<leftarrow> svc_now;
          fresh \<leftarrow> on_adm (\<lambda>a. allowObservation a domain ob now);
          if \<not> fresh then State_Monad.return None
          else
            do { g \<leftarrow> on_store (so_get S domain);
                 case g of
                   Inl e \<Rightarrow> State_Monad.return (Some e)
                 | Inr p \<Rightarrow>
                     do { ok \<leftarrow> (if p = None then on_adm (\<lambda>a. allowNewPeer a now)
                                 else State_Monad.return True);
                          if \<not> ok then
                            do { emit (EvDrop domain); State_Monad.return None }
                          else
                            do { r \<leftarrow> on_store (so_put_observation S domain ob);
                                 case r of
                                   Inl e \<Rightarrow> State_Monad.return (Some e)
                                 | Inr _ \<Rightarrow> scheduleIfBehind S domain } } } }"

text \<open>The observation \<^verbatim>\<open>ObserveDNS\<close> builds from the records that parsed.\<close>

definition conflict_text :: "bool \<Rightarrow> bool \<Rightarrow> string" where
  "conflict_text ids fps =
     (if \<not> ids then ''several different manifest ids advertised'' else [])
     @ (if \<not> ids \<and> \<not> fps then ''; '' else [])
     @ (if \<not> fps then ''several different identity fingerprints advertised'' else [])"

definition dns_observation :: "advertisement list \<Rightarrow> time \<Rightarrow> observation" where
  "dns_observation ads now =
     (let o0 = blank_observation SourceDNS now ObservationUnset;
          o1 = (case singleAuthority ads of (a, agreed) \<Rightarrow> if agreed then o0\<lparr>ob_authority := a\<rparr> else o0);
          (i, has_id, ids) = singleID ads;
          o2 = (if ids \<and> has_id then o1\<lparr>ob_manifest_id := i, ob_has_id := True\<rparr> else o1);
          (f, has_fp, fps) = singleFingerprint ads;
          o3 = (if fps \<and> has_fp then o2\<lparr>ob_fingerprint := f, ob_has_fp := True\<rparr> else o2)
      in if \<not> ids \<or> \<not> fps
         then o3\<lparr>ob_status := ObservationInconsistent, ob_context := Some (Msg (conflict_text ids fps))\<rparr>
         else o3)"

definition ObserveDNS ::
  "externs \<Rightarrow> 's store_ops \<Rightarrow> string \<Rightarrow> string list \<Rightarrow> ('s, 'r, gerr option) svc" where
  "ObserveDNS E S domain txt =
     (case NormalizeDomain E domain of
        Inl e \<Rightarrow> State_Monad.return (Some e)
      | Inr d \<Rightarrow>
          (case ParseDNS E d txt of
             Inl e \<Rightarrow> State_Monad.return (Some e)
           | Inr (ads, skipped) \<Rightarrow>
               do { now \<leftarrow> svc_now;
                    (case ads of
                       [] \<Rightarrow>
                         (case skipped of
                            [] \<Rightarrow> State_Monad.return None
                          | e # _ \<Rightarrow>
                              do { r \<leftarrow> on_store (so_put_observation S d
                                     ((blank_observation SourceDNS now ObservationMalformed)
                                        \<lparr>ob_context := Some e\<rparr>));
                                   State_Monad.return (case r of Inl x \<Rightarrow> Some x | Inr _ \<Rightarrow> None) })
                     | _ \<Rightarrow> observe S d (dns_observation ads now)) }))"

definition header_observation :: "advertisement \<Rightarrow> prose \<Rightarrow> time \<Rightarrow> observation" where
  "header_observation ad msgContext now =
     (let o0 = (blank_observation SourceHeader now ObservationUnset)\<lparr>ob_context := msgContext\<rparr>;
          o1 = (if ad_has_id ad then o0\<lparr>ob_manifest_id := ad_manifest_id ad, ob_has_id := True\<rparr> else o0)
      in o1\<lparr>ob_authority := ad_authority ad\<rparr>)"

definition ObserveHeader ::
  "externs \<Rightarrow> 's store_ops \<Rightarrow> string \<Rightarrow> prose \<Rightarrow> ('s, 'r, gerr option) svc" where
  "ObserveHeader E S headerValue msgContext =
     (case ParseHeader E headerValue of
        Inl _ \<Rightarrow> State_Monad.return None
      | Inr ad \<Rightarrow>
          do { now \<leftarrow> svc_now;
               observe S (ad_domain ad) (header_observation ad msgContext now) })"

text \<open>One turn of a worker that found a domain in the queue.\<close>

definition worker_turn :: "externs \<Rightarrow> 's store_ops \<Rightarrow> 'r resolver_ops \<Rightarrow> ('s, 'r, unit) svc" where
  "worker_turn E S R =
     do { next \<leftarrow> State (\<lambda>w. case sv_queue w of
              [] \<Rightarrow> (None, w)
            | d # q \<Rightarrow> (Some d, w\<lparr>sv_queue := q, sv_pending := remove1 d (sv_pending w)\<rparr>));
          case next of
            None \<Rightarrow> State_Monad.return ()
          | Some d \<Rightarrow>
              do { r \<leftarrow> resolve E S R d False False;
                   emit_err d r } }"

text \<open>\<^verbatim>\<open>NewService\<close>: the defaults, and nothing queued.\<close>

definition new_service ::
  "callbacks \<Rightarrow> 's \<Rightarrow> 'r \<Rightarrow> (nat \<Rightarrow> time) \<Rightarrow> int \<Rightarrow> duration \<Rightarrow> int \<Rightarrow> duration \<Rightarrow> ('s, 'r) service" where
  "new_service cb s r clock queue_size interval burst every =
     \<lparr>sv_store = s, sv_net = r, sv_clock = clock, sv_ticks = 1,
      sv_callbacks = cb, sv_log = [],
      sv_adm = newAdmission interval burst every (clock 0), sv_queue = [], sv_pending = [],
      sv_capacity = (if queue_size \<le> 0 then 256 else nat queue_size)\<rparr>"

section \<open>Agreement\<close>

lemma single_step_spec:
  "single_step has sel got ads =
     (let vs = (case got of None \<Rightarrow> [] | Some x \<Rightarrow> [x]) @ map sel (filter has ads) in
      case vs of [] \<Rightarrow> Some None | v # _ \<Rightarrow> if set vs = {v} then Some (Some v) else None)"
  by (induction ads arbitrary: got) (auto simp: Let_def split: option.splits list.splits)

lemma single_step_cases:
  defines "V \<equiv> \<lambda>(has :: 'a \<Rightarrow> bool) (sel :: 'a \<Rightarrow> 'b) ads. sel ` {ad \<in> set ads. has ad}"
  shows "single_step has sel None ads = Some (Some v) \<longleftrightarrow> V has sel ads = {v}"
    and "single_step has sel None ads = Some None \<longleftrightarrow> V has sel ads = {}"
proof -
  obtain vs where vs: "vs = map sel (filter has ads)" by blast
  then have V: "V has sel ads = set vs" by (simp add: V_def)
  have s: "single_step has sel None ads =
      (case vs of [] \<Rightarrow> Some None | v # _ \<Rightarrow> if set vs = {v} then Some (Some v) else None)"
    by (simp add: single_step_spec Let_def vs [symmetric])
  show "single_step has sel None ads = Some (Some v) \<longleftrightarrow> V has sel ads = {v}"
    unfolding s V by (cases vs) (simp, auto simp: insert_eq_iff)
  show "single_step has sel None ads = Some None \<longleftrightarrow> V has sel ads = {}"
    unfolding s V by (cases vs) simp_all
qed

lemma agree_sets:
  "sel ` {ad \<in> set ads. has ad} = {v} \<longleftrightarrow> (\<exists>ad \<in> set ads. has ad) \<and> (\<forall>ad \<in> set ads. has ad \<longrightarrow> sel ad = v)"
  "sel ` {ad \<in> set ads. has ad} = {} \<longleftrightarrow> (\<forall>ad \<in> set ads. \<not> has ad)"
  by auto

lemma single_result:
  "(\<exists>v. single_step has sel None ads = Some (Some v)) \<longleftrightarrow>
     (\<exists>ad \<in> set ads. has ad \<and> (\<forall>ad' \<in> set ads. has ad' \<longrightarrow> sel ad' = sel ad))"
  unfolding single_step_cases agree_sets by blast

text \<open>What a DNS answer may say: a fingerprint or an id only if every record that names one names it.\<close>

lemma dns_observation_source [simp]:
  "ob_source (dns_observation ads now) = SourceDNS"
  "ob_observed_at (dns_observation ads now) = now"
  by (simp_all add: dns_observation_def Let_def blank_observation_def split: prod.splits)

lemma dns_observation_sel:
  "ob_has_fp (dns_observation ads now) = (case single_step ad_has_fp ad_fingerprint None ads of
      Some (Some v) \<Rightarrow> True | _ \<Rightarrow> False)"
  "ob_fingerprint (dns_observation ads now) = (case single_step ad_has_fp ad_fingerprint None ads of
      Some (Some v) \<Rightarrow> v | _ \<Rightarrow> zero32)"
  "ob_has_id (dns_observation ads now) = (case single_step ad_has_id ad_manifest_id None ads of
      Some (Some v) \<Rightarrow> True | _ \<Rightarrow> False)"
  "ob_manifest_id (dns_observation ads now) = (case single_step ad_has_id ad_manifest_id None ads of
      Some (Some v) \<Rightarrow> v | _ \<Rightarrow> zero32)"
  "ob_authority (dns_observation ads now) = (case single_step (\<lambda>_. True) ad_authority None ads of
      Some (Some v) \<Rightarrow> v | _ \<Rightarrow> [])"
  by (cases "single_step ad_has_fp ad_fingerprint None ads";
      cases "single_step ad_has_id ad_manifest_id None ads";
      cases "the (single_step ad_has_fp ad_fingerprint None ads)";
      cases "the (single_step ad_has_id ad_manifest_id None ads)";
      simp add: dns_observation_def Let_def blank_observation_def singleFingerprint_def singleID_def
        singleAuthority_def split: option.splits prod.splits)+

lemma dns_observation_fp:
  "ob_has_fp (dns_observation ads now) \<and> ob_fingerprint (dns_observation ads now) = v \<longleftrightarrow>
     (\<exists>ad \<in> set ads. ad_has_fp ad) \<and> (\<forall>ad \<in> set ads. ad_has_fp ad \<longrightarrow> ad_fingerprint ad = v)"
  unfolding dns_observation_sel agree_sets [symmetric] single_step_cases [symmetric]
  by (auto split: option.splits)

lemma dns_observation_id:
  "ob_has_id (dns_observation ads now) \<and> ob_manifest_id (dns_observation ads now) = v \<longleftrightarrow>
     (\<exists>ad \<in> set ads. ad_has_id ad) \<and> (\<forall>ad \<in> set ads. ad_has_id ad \<longrightarrow> ad_manifest_id ad = v)"
  unfolding dns_observation_sel agree_sets [symmetric] single_step_cases [symmetric]
  by (auto split: option.splits)

lemma header_observation_facts [simp]:
  "\<not> ob_has_fp (header_observation ad c now)" "ob_source (header_observation ad c now) = SourceHeader"
  by (simp_all add: header_observation_def Let_def blank_observation_def)

section \<open>Observing decides nothing\<close>

text \<open>The book before and after agree on every key, pin, policy and latch.\<close>

definition same_trust :: "book \<Rightarrow> book \<Rightarrow> bool" where
  "same_trust b0 b \<longleftrightarrow> bk_caps b = bk_caps b0
     \<and> (\<forall>d. case bk_peers b0 d of
             Some p \<Rightarrow> (\<exists>q. bk_peers b d = Some q \<and> same_keys q p)
           | None \<Rightarrow> (\<forall>q. bk_peers b d = Some q \<longrightarrow> same_keys q (New_peer d)))"

lemma same_trust_refl [simp]: "same_trust b b"
  by (auto simp: same_trust_def split: option.splits)

lemma same_trust_observe:
  assumes "same_trust b0 b"
  shows "same_trust b0 (book_put d (Observe (book_peer b d) ob now) b)"
proof -
  have "case bk_peers b0 d of Some p \<Rightarrow> same_keys (Observe (book_peer b d) ob now) p
      | None \<Rightarrow> same_keys (Observe (book_peer b d) ob now) (New_peer d)"
    using assms Observe_keys [of "book_peer b d" ob now]
    by (auto simp: same_trust_def book_peer_def dest!: spec [of _ d] split: option.splits
        intro: same_keys_trans)
  then show ?thesis
    using assms unfolding same_trust_def
    by (intro conjI allI; simp split: option.splits; metis option.distinct(1) option.inject)
qed

lemma keeps_schedule [triple_rules]: "keeps (\<lambda>w. I (book_at view w)) (schedule d)"
  by (auto intro!: keepsI simp: schedule_def book_at_def split: if_splits)

context store_contract
begin

lemma keeps_observation:
  assumes "canonical_domain E d"
  shows "keeps (\<lambda>w. same_trust b0 (book_at view w)) (on_store (so_put_observation S d ob))"
  by (rule keeps_store [OF put_obs [OF assms]]) (auto intro: same_trust_observe)

lemma keeps_read:
  assumes "canonical_domain E d"
  shows "keeps (\<lambda>w. same_trust b0 (book_at view w)) (on_store (so_get S d))"
  by (rule keeps_store [OF get [OF assms]]) auto

lemma observe_trust:
  assumes c: "canonical_domain E d"
  shows "keeps (\<lambda>w. same_trust b0 (book_at view w)) (observe S d ob)"
  unfolding observe_def scheduleIfBehind_def
  by (intro triple_rules keeps_observation keeps_read c)

lemma ObserveDNS_trust:
  assumes "idna_ldh E"
  shows "keeps (\<lambda>w. same_trust b0 (book_at view w)) (ObserveDNS E S domain txt)"
proof (cases "NormalizeDomain E domain")
  case (Inr d)
  then have c: "canonical_domain E d" using assms by (rule canonical_normalized [rotated])
  show ?thesis
    unfolding ObserveDNS_def Inr sum.case
    by (auto intro!: triple_rules keeps_observation observe_trust c split: list.splits)
qed (simp add: ObserveDNS_def keeps_rules)

lemma ObserveHeader_trust:
  assumes "idna_ldh E"
  shows "keeps (\<lambda>w. same_trust b0 (book_at view w)) (ObserveHeader E S h c)"
  unfolding ObserveHeader_def
  by (intro triple_rules observe_trust) (use ParseHeader_ok [OF assms] in \<open>simp add: advertisement_ok_def\<close>)

end

section \<open>A flood costs nothing\<close>

lemma observe_repeated:
  assumes "allowObservation (sv_adm w) d ob (sv_clock w (sv_ticks w)) = (False, a)"
  shows "run_state (observe S d ob) w = (None, w\<lparr>sv_ticks := Suc (sv_ticks w), sv_adm := a\<rparr>)"
  using assms by (simp add: observe_def svc_now_def on_adm_def Let_def)

section \<open>The queue of one caller\<close>

definition queue_wf :: "('s, 'r) service \<Rightarrow> bool" where
  "queue_wf w \<longleftrightarrow> distinct (sv_queue w) \<and> distinct (sv_pending w)
     \<and> set (sv_pending w) = set (sv_queue w) \<and> length (sv_queue w) \<le> sv_capacity w"

lemma queue_wf_new: "queue_wf (new_service cb s r clock q i b e)"
  by (simp add: queue_wf_def new_service_def)

lemma queue_wf_schedule: "queue_wf w \<Longrightarrow> queue_wf (snd (run_state (schedule d) w))"
  by (auto simp: queue_wf_def schedule_def)

text \<open>A trigger is queued, already queued, or dropped by a full queue and reported to who listens.\<close>

lemma schedule_cases:
  assumes "queue_wf w" and "run_state (schedule d) w = (u, w')"
  shows "d \<in> set (sv_queue w')
     \<or> (length (sv_queue w) = sv_capacity w
          \<and> w' = (if cb_drop (sv_callbacks w) then w\<lparr>sv_log := sv_log w @ [EvDrop d]\<rparr> else w))"
  using assms by (auto simp: queue_wf_def schedule_def split: if_splits)

section \<open>The shared queue\<close>

text \<open>
  Callers of \<^verbatim>\<open>schedule\<close> and the workers interleave.  A caller passes through: reserved
  (in \<^verbatim>\<open>pending\<close>, before the send), shedding (the send found the queue full, the reservation
  is still there).  A worker passes through: taken (received, still in \<^verbatim>\<open>pending\<close>) and
  resolving.  Between these points every other thread may run.
\<close>

record shared =
  sh_pending :: "string set"
  sh_queue :: "string list"
  sh_reserved :: "string list"
  sh_shedding :: "string list"
  sh_taken :: "string list"
  sh_resolving :: "string list"
  sh_capacity :: nat
  sh_workers :: nat

datatype label =
  LDup string | LReserve string | LSend string | LFull string | LShed string
| LTake string | LStart string | LDone string

inductive async_step :: "shared \<Rightarrow> label \<Rightarrow> shared \<Rightarrow> bool" where
  async_dup: "d \<in> sh_pending w \<Longrightarrow> async_step w (LDup d) w"
| async_reserve: "d \<notin> sh_pending w \<Longrightarrow>
    async_step w (LReserve d) (w\<lparr>sh_pending := insert d (sh_pending w), sh_reserved := d # sh_reserved w\<rparr>)"
| async_send: "d \<in> set (sh_reserved w) \<Longrightarrow> length (sh_queue w) < sh_capacity w \<Longrightarrow>
    async_step w (LSend d) (w\<lparr>sh_reserved := remove1 d (sh_reserved w), sh_queue := sh_queue w @ [d]\<rparr>)"
| async_full: "d \<in> set (sh_reserved w) \<Longrightarrow> \<not> length (sh_queue w) < sh_capacity w \<Longrightarrow>
    async_step w (LFull d) (w\<lparr>sh_reserved := remove1 d (sh_reserved w), sh_shedding := d # sh_shedding w\<rparr>)"
| async_shed: "d \<in> set (sh_shedding w) \<Longrightarrow>
    async_step w (LShed d) (w\<lparr>sh_pending := sh_pending w - {d}, sh_shedding := remove1 d (sh_shedding w)\<rparr>)"
| async_take: "sh_queue w = d # q \<Longrightarrow> length (sh_taken w) + length (sh_resolving w) < sh_workers w \<Longrightarrow>
    async_step w (LTake d) (w\<lparr>sh_queue := q, sh_taken := d # sh_taken w\<rparr>)"
| async_start: "d \<in> set (sh_taken w) \<Longrightarrow>
    async_step w (LStart d) (w\<lparr>sh_pending := sh_pending w - {d}, sh_taken := remove1 d (sh_taken w),
      sh_resolving := d # sh_resolving w\<rparr>)"
| async_done: "d \<in> set (sh_resolving w) \<Longrightarrow>
    async_step w (LDone d) (w\<lparr>sh_resolving := remove1 d (sh_resolving w)\<rparr>)"

inductive_cases async_stepE: "async_step w l w'"

definition async_init :: "nat \<Rightarrow> nat \<Rightarrow> shared" where
  "async_init capacity workers =
     \<lparr>sh_pending = {}, sh_queue = [], sh_reserved = [], sh_shedding = [], sh_taken = [],
      sh_resolving = [], sh_capacity = capacity, sh_workers = workers\<rparr>"

inductive async_run :: "shared \<Rightarrow> label list \<Rightarrow> shared \<Rightarrow> bool" where
  async_nil: "async_run w [] w"
| async_cons: "async_step w l w1 \<Longrightarrow> async_run w1 ls w2 \<Longrightarrow> async_run w (l # ls) w2"

text \<open>A pending domain is at exactly one point of one thread.\<close>

definition holders :: "shared \<Rightarrow> string list" where
  "holders w = sh_queue w @ sh_reserved w @ sh_shedding w @ sh_taken w"

definition async_wf :: "shared \<Rightarrow> bool" where
  "async_wf w \<longleftrightarrow> distinct (holders w) \<and> sh_pending w = set (holders w)
     \<and> length (sh_queue w) \<le> sh_capacity w
     \<and> length (sh_taken w) + length (sh_resolving w) \<le> sh_workers w"

lemma async_wf_init: "async_wf (async_init c n)"
  by (simp add: async_wf_def async_init_def holders_def)

lemma length_remove1_mem: "x \<in> set xs \<Longrightarrow> Suc (length (remove1 x xs)) = length xs"
  by (induction xs) auto

lemma holders_moved:
  assumes "mset (holders w') = mset (holders w)"
  shows "distinct (holders w') = distinct (holders w)" and "set (holders w') = set (holders w)"
  using assms by (metis mset_eq_imp_distinct_iff, metis set_mset_mset)

lemma holders_left:
  assumes "add_mset d (mset (holders w')) = mset (holders w)" and "distinct (holders w)"
  shows "distinct (holders w')" and "set (holders w') = set (holders w) - {d}"
proof -
  have m: "mset (d # holders w') = mset (holders w)" using assms(1) by simp
  then have "distinct (d # holders w')" "set (d # holders w') = set (holders w)"
    using assms(2) by (metis mset_eq_imp_distinct_iff, metis set_mset_mset)
  then show "distinct (holders w')" and "set (holders w') = set (holders w) - {d}" by auto
qed

lemma async_wf_step:
  assumes wf: "async_wf w" and step: "async_step w l w'"
  shows "async_wf w'"
  using step
proof cases
  case (async_reserve d)
  then show ?thesis using wf by (auto simp: async_wf_def holders_def)
next
  case (async_send d)
  then have "mset (holders w') = mset (holders w)" by (simp add: holders_def)
  from holders_moved [OF this] show ?thesis using wf async_send by (simp add: async_wf_def)
next
  case (async_full d)
  then have "mset (holders w') = mset (holders w)" by (simp add: holders_def)
  from holders_moved [OF this] show ?thesis using wf async_full by (simp add: async_wf_def)
next
  case (async_shed d)
  then have "add_mset d (mset (holders w')) = mset (holders w)" by (simp add: holders_def)
  from holders_left [OF this] show ?thesis using wf async_shed by (simp add: async_wf_def)
next
  case (async_take d q)
  then have "mset (holders w') = mset (holders w)" by (simp add: holders_def)
  from holders_moved [OF this] show ?thesis using wf async_take by (simp add: async_wf_def)
next
  case (async_start d)
  then have "add_mset d (mset (holders w')) = mset (holders w)" by (simp add: holders_def)
  from holders_left [OF this] show ?thesis using wf async_start length_remove1_mem [of d "sh_taken w"]
    by (simp add: async_wf_def)
next
  case (async_done d)
  then show ?thesis using wf length_remove1_mem [of d "sh_resolving w"]
    by (simp add: async_wf_def holders_def)
qed (use wf in simp)

lemma async_wf_run: "async_run w ls w' \<Longrightarrow> async_wf w \<Longrightarrow> async_wf w'"
  by (induction rule: async_run.induct) (auto intro: async_wf_step)

lemma async_sizes: "async_run w ls w' \<Longrightarrow> sh_capacity w' = sh_capacity w \<and> sh_workers w' = sh_workers w"
  by (induction rule: async_run.induct) (auto elim!: async_stepE)

text \<open>At most the queue, the workers and the callers in transit hold domains.\<close>

lemma async_pending_bound:
  assumes "async_wf w"
  shows "card (sh_pending w) \<le> sh_capacity w + sh_workers w
     + length (sh_reserved w) + length (sh_shedding w)"
  using assms by (auto simp: async_wf_def holders_def distinct_card [symmetric] card_Un_disjoint)

text \<open>A coalesced trigger is never lost: the reservation that absorbed it ends in a resolution
  that starts later, or in a drop, which is told to \<^verbatim>\<open>OnDrop\<close> when that is set.\<close>

lemma async_leave:
  assumes "async_step w l w'" and "d \<in> sh_pending w" and "d \<notin> sh_pending w'"
  shows "l = LStart d \<or> l = LShed d"
  using assms by cases auto

lemma async_not_lost:
  assumes "async_run w ls w'" and "d \<in> sh_pending w"
  shows "d \<in> sh_pending w' \<or> LStart d \<in> set ls \<or> LShed d \<in> set ls"
  using assms
proof (induction rule: async_run.induct)
  case (async_cons w l w1 ls w2)
  then show ?case using async_leave [of w l w1 d] by (cases "d \<in> sh_pending w1") auto
qed simp

text \<open>Progress: while a domain is pending some thread can move, unless every worker is busy
  resolving; the measure that bounds the internal steps is the work left.\<close>

lemma async_progress:
  assumes "async_wf w" and "sh_pending w \<noteq> {}" and "0 < sh_workers w"
  shows "\<exists>l w'. async_step w l w' \<and> (\<forall>d. l \<noteq> LDup d \<and> l \<noteq> LReserve d)"
proof -
  have "holders w \<noteq> []" using assms by (auto simp: async_wf_def)
  then consider "sh_reserved w \<noteq> []" | "sh_shedding w \<noteq> []" | "sh_taken w \<noteq> []" | "sh_resolving w \<noteq> []"
    | "sh_queue w \<noteq> []" "sh_taken w = []" "sh_resolving w = []"
    by (auto simp: holders_def)
  then show ?thesis
  proof cases
    case 1
    then obtain d where "d \<in> set (sh_reserved w)" by (cases "sh_reserved w") auto
    then show ?thesis using async_send [of d w] async_full [of d w] by (cases "length (sh_queue w) < sh_capacity w") blast+
  next
    case 2
    then obtain d where "d \<in> set (sh_shedding w)" by (cases "sh_shedding w") auto
    then show ?thesis using async_shed by blast
  next
    case 3
    then obtain d where "d \<in> set (sh_taken w)" by (cases "sh_taken w") auto
    then show ?thesis using async_start by blast
  next
    case 4
    then obtain d where "d \<in> set (sh_resolving w)" by (cases "sh_resolving w") auto
    then show ?thesis using async_done by blast
  next
    case 5
    then obtain d q where "sh_queue w = d # q" by (cases "sh_queue w") auto
    then show ?thesis using async_take [of w d q] 5 assms(3) by auto
  qed
qed

definition work_left :: "shared \<Rightarrow> nat" where
  "work_left w = 5 * length (sh_reserved w) + 4 * length (sh_queue w) + 3 * length (sh_taken w)
     + 2 * length (sh_resolving w) + 2 * length (sh_shedding w)"

lemma async_work:
  assumes "async_step w l w'" and "\<forall>d. l \<noteq> LDup d \<and> l \<noteq> LReserve d"
  shows "work_left w' < work_left w"
  using assms(1)
  by cases (use assms(2) in \<open>auto simp: work_left_def dest!: length_remove1_mem [symmetric]\<close>)

end
