(* ===== verification/Lifecycle.thy ===== *)
theory Lifecycle
  imports Observing
begin

text \<open>
  The life of a service's workers (\<^verbatim>\<open>NewService\<close>, \<^verbatim>\<open>worker\<close> and \<^verbatim>\<open>Close\<close> of
  \<^verbatim>\<open>peer/service.go\<close>).  \<^verbatim>\<open>Close\<close> closes a channel every worker watches at the head of its loop
  and waits for all of them; the callers of \<^verbatim>\<open>schedule\<close> are not stopped.
\<close>

text \<open>\<^verbatim>\<open>close(s.stopped)\<close>, the workers whose loop returned, and whether \<^verbatim>\<open>wg.Wait\<close> has.\<close>

record lifecycle =
  lf_shared :: shared
  lf_stopped :: bool
  lf_exited :: nat
  lf_closed :: bool

datatype life_label = LQueue label | LStop | LExit | LClosed

definition busy :: "shared \<Rightarrow> nat" where
  "busy s = length (sh_taken s) + length (sh_resolving s)"

fun takes :: "label \<Rightarrow> bool" where
  "takes (LTake d) = True"
| "takes _ = False"

text \<open>A worker at the head of its loop may take a domain while there is one and may return once
  the channel is closed; with both ready \<^verbatim>\<open>select\<close> takes either.\<close>

inductive life_step :: "lifecycle \<Rightarrow> life_label \<Rightarrow> lifecycle \<Rightarrow> bool" where
  life_queue: "async_step (lf_shared w) l s
    \<Longrightarrow> takes l \<longrightarrow> busy (lf_shared w) + lf_exited w < sh_workers (lf_shared w)
    \<Longrightarrow> life_step w (LQueue l) (w\<lparr>lf_shared := s\<rparr>)"
| life_stop: "\<not> lf_stopped w \<Longrightarrow> life_step w LStop (w\<lparr>lf_stopped := True\<rparr>)"
| life_exit: "lf_stopped w \<Longrightarrow> busy (lf_shared w) + lf_exited w < sh_workers (lf_shared w)
    \<Longrightarrow> life_step w LExit (w\<lparr>lf_exited := Suc (lf_exited w)\<rparr>)"
| life_closed: "lf_stopped w \<Longrightarrow> lf_exited w = sh_workers (lf_shared w) \<Longrightarrow> \<not> lf_closed w
    \<Longrightarrow> life_step w LClosed (w\<lparr>lf_closed := True\<rparr>)"

inductive_cases life_stepE: "life_step w l w'"

inductive life_run :: "lifecycle \<Rightarrow> life_label list \<Rightarrow> lifecycle \<Rightarrow> bool" where
  life_nil: "life_run w [] w"
| life_cons: "life_step w l w1 \<Longrightarrow> life_run w1 ls w2 \<Longrightarrow> life_run w (l # ls) w2"

definition life_init :: "nat \<Rightarrow> nat \<Rightarrow> lifecycle" where
  "life_init capacity workers =
     \<lparr>lf_shared = async_init capacity workers, lf_stopped = False, lf_exited = 0, lf_closed = False\<rparr>"

section \<open>The workers that are left\<close>

definition life_wf :: "lifecycle \<Rightarrow> bool" where
  "life_wf w \<longleftrightarrow> async_wf (lf_shared w) \<and> busy (lf_shared w) + lf_exited w \<le> sh_workers (lf_shared w)
     \<and> (0 < lf_exited w \<longrightarrow> lf_stopped w)
     \<and> (lf_closed w \<longrightarrow> lf_stopped w \<and> lf_exited w = sh_workers (lf_shared w))"

lemma life_wf_init: "life_wf (life_init c n)"
  by (simp add: life_wf_def life_init_def async_wf_init) (simp add: async_init_def busy_def)

lemma async_busy:
  assumes "async_step s l s'"
  shows "busy s' = (if takes l then Suc (busy s) else if \<exists>d. l = LDone d then busy s - 1 else busy s)"
    and "sh_workers s' = sh_workers s"
  using assms by (cases; force simp: busy_def dest!: length_remove1_mem [symmetric])+

lemma life_wf_step: "life_step w l w' \<Longrightarrow> life_wf w \<Longrightarrow> life_wf w'"
proof (induction rule: life_step.induct)
  case (life_queue w l s)
  from async_busy [OF life_queue(1)] async_wf_step [OF _ life_queue(1)] life_queue(2,3)
  show ?case by (auto simp: life_wf_def split: if_splits)
qed (auto simp: life_wf_def)

lemma life_wf_run: "life_run w ls w' \<Longrightarrow> life_wf w \<Longrightarrow> life_wf w'"
  by (induction rule: life_run.induct) (auto intro: life_wf_step)

text \<open>What only a worker does.\<close>

fun resolves :: "life_label \<Rightarrow> bool" where
  "resolves (LQueue (LTake d)) = True"
| "resolves (LQueue (LStart d)) = True"
| "resolves (LQueue (LDone d)) = True"
| "resolves _ = False"

lemma closed_step:
  assumes "life_step w l w'" and "life_wf w" and "lf_closed w"
  shows "\<not> resolves l \<and> lf_closed w' \<and> busy (lf_shared w') = 0"
  using assms
proof cases
  case (life_queue a s)
  have b: "busy (lf_shared w) = 0" and e: "lf_exited w = sh_workers (lf_shared w)"
    using assms(2,3) by (auto simp: life_wf_def)
  with life_queue have "\<not> takes a" by auto
  moreover have "\<not> resolves (LQueue a)"
    using life_queue(3) b \<open>\<not> takes a\<close> by cases (auto simp: busy_def)
  ultimately show ?thesis
    using assms(3) life_queue async_busy(1) [OF life_queue(3)] b by (auto split: if_splits)
qed (auto simp: life_wf_def)

text \<open>Once \<^verbatim>\<open>Close\<close> has returned nothing resolves any more, whatever is still triggered.\<close>

lemma closed_is_quiet:
  assumes "life_run w ls w'" and "life_wf w" and "lf_closed w"
  shows "list_all (\<lambda>l. \<not> resolves l) ls \<and> lf_closed w' \<and> busy (lf_shared w') = 0"
  using assms
proof (induction rule: life_run.induct)
  case (life_nil w)
  then show ?case by (auto simp: life_wf_def)
next
  case (life_cons w l w1 ls w2)
  then show ?case using closed_step [OF life_cons(1)] life_wf_step [OF life_cons(1)] by auto
qed

section \<open>Close comes to an end\<close>

text \<open>The steps that are not a caller's new trigger.\<close>

fun inner :: "life_label \<Rightarrow> bool" where
  "inner (LQueue (LDup d)) = False"
| "inner (LQueue (LReserve d)) = False"
| "inner _ = True"

definition life_left :: "lifecycle \<Rightarrow> nat" where
  "life_left w = work_left (lf_shared w) + (sh_workers (lf_shared w) - lf_exited w)
     + (if lf_stopped w then 0 else 1) + (if lf_closed w then 0 else 1)"

lemma life_decreases:
  assumes "life_step w l w'" and "life_wf w" and "inner l"
  shows "life_left w' < life_left w"
  using assms
proof cases
  case (life_queue a s)
  have "\<forall>d. a \<noteq> LDup d \<and> a \<noteq> LReserve d" using assms(3) life_queue by auto
  from async_work [OF life_queue(3) this] async_busy(2) [OF life_queue(3)] life_queue
  show ?thesis by (simp add: life_left_def)
qed (auto simp: life_left_def life_wf_def)

lemma inner_run_bounded:
  assumes "life_run w ls w'" and "life_wf w" and "list_all inner ls"
  shows "length ls + life_left w' \<le> life_left w"
  using assms
proof (induction rule: life_run.induct)
  case (life_cons w l w1 ls w2)
  then show ?case using life_decreases [OF life_cons(1)] life_wf_step [OF life_cons(1)] by fastforce
qed simp

text \<open>Until then some thread can move.\<close>

lemma close_progress:
  assumes wf: "life_wf w" and st: "lf_stopped w" and op: "\<not> lf_closed w"
  shows "\<exists>l w'. life_step w l w' \<and> inner l"
proof -
  let ?s = "lf_shared w"
  consider "busy ?s + lf_exited w < sh_workers ?s" | "lf_exited w = sh_workers ?s" | "busy ?s \<noteq> 0"
    using wf by (fastforce simp: life_wf_def)
  then show ?thesis
  proof cases
    case 1
    from life_exit [OF st 1] show ?thesis by force
  next
    case 2
    from life_closed [OF st 2 op] show ?thesis by force
  next
    case 3
    then consider d where "d \<in> set (sh_taken ?s)" | d where "d \<in> set (sh_resolving ?s)"
      by (cases "sh_taken ?s"; cases "sh_resolving ?s") (auto simp: busy_def)
    then show ?thesis
    proof cases
      case 1
      from life_queue [OF async_start [OF 1]] show ?thesis by force
    next
      case 2
      from life_queue [OF async_done [OF 2]] show ?thesis by force
    qed
  qed
qed

text \<open>A domain queued when the last worker is gone stays there: it is neither resolved nor
  reported as dropped.\<close>

lemma closed_keeps_queue:
  assumes "life_run w ls w'" and "life_wf w" and "lf_closed w" and "d \<in> set (sh_queue (lf_shared w))"
  shows "d \<in> set (sh_queue (lf_shared w'))"
  using assms
proof (induction rule: life_run.induct)
  case (life_cons w l w1 ls w2)
  have "d \<in> set (sh_queue (lf_shared w1))"
    using life_cons(1)
  proof cases
    case (life_queue a s)
    have "\<not> takes a" using life_queue life_cons(4,5) by (auto simp: life_wf_def)
    with life_queue(3) life_cons(6) show ?thesis
      unfolding life_queue by cases auto
  qed (use life_cons(6) in auto)
  then show ?case
    using life_cons closed_step [OF life_cons(1)] life_wf_step [OF life_cons(1)] by auto
qed simp

text \<open>A service with one worker, stopped while idle.\<close>

definition closed_life :: lifecycle where
  "closed_life = (life_init 4 1)\<lparr>lf_stopped := True, lf_exited := 1, lf_closed := True\<rparr>"

lemma closed_life_reached: "life_run (life_init 4 1) [LStop, LExit, LClosed] closed_life"
proof -
  let ?w = "life_init 4 1"
  have 1: "life_step ?w LStop (?w\<lparr>lf_stopped := True\<rparr>)"
    by (rule life_stop) (simp add: life_init_def)
  have 2: "life_step (?w\<lparr>lf_stopped := True\<rparr>) LExit (?w\<lparr>lf_stopped := True, lf_exited := 1\<rparr>)"
    using life_exit [of "?w\<lparr>lf_stopped := True\<rparr>"] by (simp add: life_init_def async_init_def busy_def)
  have 3: "life_step (?w\<lparr>lf_stopped := True, lf_exited := 1\<rparr>) LClosed closed_life"
    using life_closed [of "?w\<lparr>lf_stopped := True, lf_exited := 1\<rparr>"]
    by (simp add: life_init_def async_init_def closed_life_def)
  show ?thesis by (rule life_cons [OF 1 life_cons [OF 2 life_cons [OF 3 life_nil]]])
qed

end
