(* ===== verification/Instance.thy ===== *)
theory Instance
  imports Identity
begin

text \<open>
  One concrete instance of the code the repository does not hold, on which the laws the
  theorems ask for all hold together: a codec with self-delimiting strings, a digest of 32
  bytes, a signature a verifier recomputes from the public key, a key agreement that is
  symmetric, and an encryption that checks its inputs.  It is not secure; it shows that
  the hypotheses are satisfiable and it is what the witnesses evaluate.
\<close>

section \<open>Names\<close>

definition inst_idna :: "string \<Rightarrow> string option" where
  "inst_idna d =
     (if list_all norm_char d \<and> length d \<le> 254 \<and> rev (take 2 (rev d)) \<noteq> ''..'' then Some d else None)"

lemma inst_idna_ldh: "inst_idna d = Some a \<Longrightarrow> ldh_name a"
  by (auto simp: inst_idna_def ldh_name_def ldh_dot_def norm_char_def list_all_iff split: if_splits)

section \<open>The codec\<close>

text \<open>A string is its bytes, each preceded by \<open>x\<close>, up to a full stop.\<close>

fun enc_str :: "string \<Rightarrow> bytes" where
  "enc_str [] = ''.''"
| "enc_str (c # s) = CHR ''x'' # c # enc_str s"

fun dec_str :: "bytes \<Rightarrow> (string \<times> bytes) option" where
  "dec_str (m # c # b) =
     (if m = CHR ''x'' then map_option (\<lambda>(s, r). (c # s, r)) (dec_str b)
      else if m = CHR ''.'' then Some ([], c # b) else None)"
| "dec_str [m] = (if m = CHR ''.'' then Some ([], []) else None)"
| "dec_str [] = None"

lemma dec_enc_str: "dec_str (enc_str s @ r) = Some (s, r)"
proof (induction s)
  case Nil
  then show ?case by (cases r) simp_all
qed simp

text \<open>The tag of a map is a byte that is not ASCII, as in MessagePack.\<close>

fun enc :: "gvalue \<Rightarrow> bytes" where
  "enc VNull = ''n''"
| "enc (VOther b) = CHR ''o'' # enc_str b"
| "enc (VLong n) = CHR ''l'' # enc_str (nat_digits (unat n))"
| "enc (VUtf8 s) = CHR ''u'' # enc_str s"
| "enc (VRaw b) = CHR ''r'' # enc_str b"
| "enc (VList vs) = CHR ''['' # concat (map (\<lambda>v. CHR ''i'' # enc v) vs) @ '']''"
| "enc (VMap m) = CHR 0x80 # concat (map (\<lambda>(k, v). CHR ''k'' # enc_str k @ enc v) m) @ '']''"

fun dec :: "nat \<Rightarrow> bytes \<Rightarrow> (gvalue \<times> bytes) option"
and dec_list :: "nat \<Rightarrow> bytes \<Rightarrow> (gvalue list \<times> bytes) option"
and dec_map :: "nat \<Rightarrow> bytes \<Rightarrow> ((string \<times> gvalue) list \<times> bytes) option" where
  "dec (Suc n) (t # b) =
     (if t = CHR ''n'' then Some (VNull, b)
      else if t = CHR ''o'' then map_option (\<lambda>(s, r). (VOther s, r)) (dec_str b)
      else if t = CHR ''l'' then map_option (\<lambda>(s, r). (VLong (word_of_nat (digits_val 0 s)), r)) (dec_str b)
      else if t = CHR ''u'' then map_option (\<lambda>(s, r). (VUtf8 s, r)) (dec_str b)
      else if t = CHR ''r'' then map_option (\<lambda>(s, r). (VRaw s, r)) (dec_str b)
      else if t = CHR ''['' then map_option (\<lambda>(vs, r). (VList vs, r)) (dec_list n b)
      else if t = CHR 0x80 then map_option (\<lambda>(m, r). (VMap m, r)) (dec_map n b)
      else None)"
| "dec _ _ = None"
| "dec_list (Suc n) (t # b) =
     (if t = CHR '']'' then Some ([], b)
      else if t = CHR ''i'' then
        (case dec n b of
           None \<Rightarrow> None
         | Some (v, r) \<Rightarrow> map_option (\<lambda>(vs, r). (v # vs, r)) (dec_list n r))
      else None)"
| "dec_list _ _ = None"
| "dec_map (Suc n) (t # b) =
     (if t = CHR '']'' then Some ([], b)
      else if t = CHR ''k'' then
        (case dec_str b of
           None \<Rightarrow> None
         | Some (k, r) \<Rightarrow>
             (case dec n r of
                None \<Rightarrow> None
              | Some (v, r) \<Rightarrow> map_option (\<lambda>(m, r). ((k, v) # m, r)) (dec_map n r)))
      else None)"
| "dec_map _ _ = None"

text \<open>As much fuel as there are bytes is enough.\<close>

lemma dec_list_enc:
  assumes "\<And>v n r. v \<in> set vs \<Longrightarrow> length (enc v) \<le> n \<Longrightarrow> dec n (enc v @ r) = Some (v, r)"
  shows "length (concat (map (\<lambda>v. CHR ''i'' # enc v) vs)) < n \<Longrightarrow>
    dec_list n (concat (map (\<lambda>v. CHR ''i'' # enc v) vs) @ CHR '']'' # r) = Some (vs, r)"
  using assms
proof (induction vs arbitrary: n)
  case Nil
  then show ?case by (cases n) simp_all
next
  case (Cons v vs)
  then obtain k where n: "n = Suc k" by (cases n) simp_all
  have "dec k (enc v @ s) = Some (v, s)" for s using Cons.prems n by simp
  moreover have "dec_list k (concat (map (\<lambda>v. CHR ''i'' # enc v) vs) @ CHR '']'' # r) = Some (vs, r)"
    by (rule Cons.IH) (use Cons.prems n in simp_all)
  ultimately show ?case by (simp add: n)
qed

lemma dec_map_enc:
  assumes "\<And>k v n r. (k, v) \<in> set m \<Longrightarrow> length (enc v) \<le> n \<Longrightarrow> dec n (enc v @ r) = Some (v, r)"
  shows "length (concat (map (\<lambda>(k, v). CHR ''k'' # enc_str k @ enc v) m)) < n \<Longrightarrow>
    dec_map n (concat (map (\<lambda>(k, v). CHR ''k'' # enc_str k @ enc v) m) @ CHR '']'' # r) = Some (m, r)"
  using assms
proof (induction m arbitrary: n)
  case Nil
  then show ?case by (cases n) simp_all
next
  case (Cons x m)
  obtain key v where x: "x = (key, v)" by (cases x)
  from Cons.prems obtain k where n: "n = Suc k" by (cases n) simp_all
  have "dec k (enc v @ s) = Some (v, s)" for s
    by (rule Cons.prems(2) [of key]) (use Cons.prems(1) n x in simp_all)
  moreover have "dec_map k (concat (map (\<lambda>(k, v). CHR ''k'' # enc_str k @ enc v) m) @ CHR '']'' # r) = Some (m, r)"
  proof (rule Cons.IH)
    show "length (concat (map (\<lambda>(k, v). CHR ''k'' # enc_str k @ enc v) m)) < k"
      using Cons.prems(1) n x by simp
    show "dec n (enc v @ r) = Some (v, r)" if "(k, v) \<in> set m" "length (enc v) \<le> n" for k v n r
      by (rule Cons.prems(2)) (use that in auto)
  qed
  ultimately show ?case by (simp add: n x dec_enc_str)
qed

lemma dec_enc: "length (enc v) \<le> n \<Longrightarrow> dec n (enc v @ r) = Some (v, r)"
proof (induction v arbitrary: n r rule: enc.induct)
  case (6 vs)
  then obtain k where n: "n = Suc k" by (cases n) simp_all
  have "dec_list k (concat (map (\<lambda>v. CHR ''i'' # enc v) vs) @ CHR '']'' # r) = Some (vs, r)"
    by (rule dec_list_enc) (use 6 n in simp_all)
  then show ?case by (simp add: n)
next
  case (7 m)
  then obtain k where n: "n = Suc k" by (cases n) simp_all
  have "dec_map k (concat (map (\<lambda>(k, v). CHR ''k'' # enc_str k @ enc v) m) @ CHR '']'' # r) = Some (m, r)"
    by (rule dec_map_enc) (use 7 n in \<open>auto simp: less_Suc_eq_le\<close>)
  then show ?case by (simp add: n)
next
  case 1
  then show ?case by (cases n) simp_all
next
  case (2 b)
  then show ?case by (cases n) (simp_all add: dec_enc_str)
next
  case (3 w)
  then show ?case by (cases n) (simp_all add: dec_enc_str nat_digits_val)
next
  case (4 s)
  then show ?case by (cases n) (simp_all add: dec_enc_str)
next
  case (5 b)
  then show ?case by (cases n) (simp_all add: dec_enc_str)
qed

definition inst_unpack :: "bytes \<Rightarrow> gvalue option" where
  "inst_unpack b = (case dec (length b) b of Some (v, []) \<Rightarrow> Some v | _ \<Rightarrow> None)"

lemma inst_codec: "inst_unpack (enc v) = Some v"
  using dec_enc [of v "length (enc v)" "[]"] by (simp add: inst_unpack_def)

section \<open>Cryptography\<close>

text \<open>A digest of the last bytes and of one in the middle.\<close>

definition inst_sha256 :: "bytes \<Rightarrow> bytes" where
  "inst_sha256 b = take 31 (rev b @ zero32) @ [case drop 81 b of [] \<Rightarrow> CHR 0x00 | c # _ \<Rightarrow> c]"

definition inst_sign :: "bytes \<Rightarrow> bytes \<Rightarrow> bytes" where
  "inst_sign priv msg = ed_public priv @ inst_sha256 msg"

definition inst_verify :: "bytes \<Rightarrow> bytes \<Rightarrow> bytes \<Rightarrow> bool" where
  "inst_verify pk msg sig \<longleftrightarrow> sig = pk @ inst_sha256 msg"

definition inst_public :: "bytes \<Rightarrow> bytes option" where
  "inst_public priv = (if length priv = 32 then Some priv else None)"

definition inst_ecdh :: "bytes \<Rightarrow> bytes \<Rightarrow> bytes option" where
  "inst_ecdh priv pk =
     (if length priv = 32 \<and> length pk = 32
      then Some (map2 (\<lambda>x y. nat_char ((char_nat x + char_nat y) mod 256)) priv pk) else None)"

definition inst_hkdf :: "bytes \<Rightarrow> bytes \<Rightarrow> bytes \<Rightarrow> nat \<Rightarrow> bytes option" where
  "inst_hkdf secret salt info n = Some (take n (secret @ salt @ info @ replicate n (CHR 0x00)))"

definition inst_seal :: "bytes \<Rightarrow> bytes \<Rightarrow> bytes \<Rightarrow> bytes \<Rightarrow> bytes" where
  "inst_seal key nonce plain aad = enc_str key @ enc_str nonce @ enc_str aad @ plain"

definition inst_open :: "bytes \<Rightarrow> bytes \<Rightarrow> bytes \<Rightarrow> bytes \<Rightarrow> bytes option" where
  "inst_open key nonce sealed aad =
     (let p = enc_str key @ enc_str nonce @ enc_str aad
      in if starts_with p sealed then Some (drop (length p) sealed) else None)"

definition inst :: externs where
  "inst =
     \<lparr>ex_idna = inst_idna, ex_lower = map lower_char, ex_fold = (=), ex_pack = Some \<circ> enc,
      ex_unpack = inst_unpack, ex_absent = None, ex_sha256 = inst_sha256, ex_ed_sign = inst_sign,
      ex_ed_verify = inst_verify, ex_x_public = inst_public, ex_x_valid = (\<lambda>pk. length pk = 32),
      ex_ecdh = inst_ecdh, ex_hkdf = inst_hkdf, ex_aead_seal = inst_seal, ex_aead_open = inst_open\<rparr>"

lemma inst_laws [simp]:
  "idna_ldh inst" "codec_law inst v" "sha256_len inst" "absent_law inst" "ed_law inst"
  by (auto simp: inst_def idna_ldh_def codec_law_def inst_codec sha256_len_def inst_sha256_def
      absent_law_def ed_law_def inst_sign_def inst_verify_def ed_public_length SignatureSize_def
      PublicKeySize_def intro: inst_idna_ldh)

section \<open>A name to evaluate on\<close>

abbreviation example_com :: string where "example_com \<equiv> ''example.com''"

lemma normalize_example: "NormalizeDomain inst example_com = Inr example_com"
  by code_simp

end
