(* ===== verification/Examples.thy ===== *)
theory Examples
  imports Observing MemStore Instance Dial
begin

text \<open>
  A small world on the concrete instance, for the witnesses: a store whose one domain has
  published before and is pinned, a resolver that is down, and keys to sign with.
\<close>

lemma mem_reads_ok: "reads_ok E (mem_store E)"
  by (auto simp: reads_ok_def mem_store_def mem_op_defs with_domain_canonical ms_now_def split: option.splits)

section \<open>A world\<close>

definition demo_resolver :: "unit resolver_ops" where
  "demo_resolver = \<lparr>rv_resolve = (\<lambda>d a r. (Inl (Failf FailureNetwork d ''down''), r)), rv_chain = None\<rparr>"

definition demo_pin :: identity_state where
  "demo_pin = zero_identity\<lparr>id_status := IdentityPinned, id_fingerprint := zero32, id_pinned_key := zero32\<rparr>"

definition demo_mem :: memstore where
  "demo_mem = snd (SetIdentity inst example_com demo_pin
     (snd (MarkValidated inst example_com 5 (NewMemStore (\<lambda>n. 7)))))"

text \<open>A host that listens to everything.\<close>

definition every_callback :: callbacks where
  "every_callback = \<lparr>cb_error = True, cb_drop = True, cb_alert = True\<rparr>"

lemma every_callback_hears [simp]: "heard every_callback e"
  by (cases e) (simp_all add: every_callback_def)

definition demo_world :: "(memstore, unit) service" where
  "demo_world = new_service every_callback demo_mem () (\<lambda>n. 7) 4 second 8 second"

abbreviation demo_store :: "memstore store_ops" where "demo_store \<equiv> mem_store inst"

lemma demo_contract: "store_contract inst demo_store book_of"
  by (rule mem.store_contract_axioms)

lemma demo_canonical [simp]: "canonical_domain inst example_com"
  by (rule canonical_normalized [OF inst_laws(1) normalize_example])

lemma demo_resolver_calm: "resolver_calm demo_resolver"
  by (simp add: resolver_calm_def demo_resolver_def Failf_def)

lemma demo_mem_eq: "demo_mem = \<lparr>ms_peers = [(example_com, zero_peer\<lparr>pr_domain := example_com,
    pr_state := StateDiscovered, pr_identity := demo_pin\<rparr>)],
    ms_caps = [(example_com, mark_validated 5 zero_capability)], ms_clock = (\<lambda>n. 7), ms_ticks = 0\<rparr>"
  by (simp add: demo_mem_def SetIdentity_def MarkValidated_def with_domain_def normalize_example
      NewMemStore_def put_cap_def put_peer_def caps_of_def)

lemma demo_guarded: "guarded example_com (book_at book_of demo_world)"
  by (simp add: guarded_def demo_world_def new_service_def book_at_def book_of_def demo_mem_eq caps_of_def
      zero_capability_def peer_disabled_def zero_peer_def)

lemma demo_pinned: "pinned_as (book_at book_of demo_world) example_com zero32 zero32"
  and demo_effective: "effective_of (book_at book_of demo_world) example_com = None"
  by (simp_all add: pinned_as_def effective_of_def demo_world_def new_service_def book_at_def book_of_def
      demo_mem_eq zero_peer_def demo_pin_def)

section \<open>Keys\<close>

definition demo_key :: bytes where
  "demo_key = replicate 32 (CHR ''s'') @ replicate 32 (CHR ''p'')"

definition next_key :: bytes where
  "next_key = replicate 32 (CHR ''t'') @ replicate 32 (CHR ''q'')"

lemma demo_key_lengths [simp]: "length demo_key = PrivateKeySize" "length next_key = PrivateKeySize"
  by (simp_all add: demo_key_def next_key_def PrivateKeySize_def)

section \<open>A publication\<close>

text \<open>A manifest issued five seconds into the Unix epoch, for four seconds.\<close>

definition issued :: time where "issued = 62135596805 * second"

definition demo_manifest :: manifest where
  "demo_manifest =
     (case New inst example_com issued (issued + 4 * second) AlgX25519 EncAES256GCM (replicate 32 (CHR ''k'')) of
        Inr m \<Rightarrow> m | Inl _ \<Rightarrow> undefined)"

definition demo_raw :: bytes where
  "demo_raw = (case Pack inst demo_manifest of Inr raw \<Rightarrow> raw | Inl _ \<Rightarrow> [])"

lemma demo_packs:
  "case Pack inst demo_manifest of Inr raw \<Rightarrow> raw \<noteq> [] \<and> length raw \<le> MaxBodyBytes | Inl _ \<Rightarrow> False"
  by code_simp

lemma demo_pack: "Pack inst demo_manifest = Inr demo_raw"
  and demo_raw_size: "demo_raw \<noteq> []" "length demo_raw \<le> MaxBodyBytes"
  using demo_packs by (auto simp: demo_raw_def split: sum.splits)

lemma demo_manifest_sel [simp]:
  "mf_issued_at demo_manifest = issued" "mf_expires_at demo_manifest = issued + 4 * second"
  "mf_domain demo_manifest = example_com"
  by code_simp+

lemma inst_sel [simp]:
  "ex_pack inst v = Some (enc v)" "ex_sha256 inst b = inst_sha256 b"
  "ex_ed_sign inst priv msg = inst_sign priv msg" "ex_ed_verify inst pk msg sig = inst_verify pk msg sig"
  "ex_absent inst = None"
  by (simp_all add: inst_def)

definition demo_fp :: bytes where
  "demo_fp = inst_sha256 (enc (fingerprint_preimage example_com (ed_public demo_key)))"

lemma demo_fingerprint: "FingerprintOf inst example_com (ed_public demo_key) = Inr demo_fp"
  by (simp add: FingerprintOf_Inr normalize_example ed_public_length demo_fp_def)

definition demo_sig :: bytes where
  "demo_sig = inst_sign demo_key (ManifestContext @ example_com @ demo_raw)"

lemma demo_sign: "SignManifest inst demo_key example_com demo_raw = Inr demo_sig"
  by (simp add: SignManifest_Inr transcript_Inr normalize_example demo_raw_size demo_sig_def)

definition demo_proof :: id_proof where
  "demo_proof = \<lparr>pf_public_key = ed_public demo_key, pf_fingerprint = demo_fp, pf_signature = demo_sig\<rparr>"

definition demo_result :: fetch_result where
  "demo_result = \<lparr>rs_manifest = demo_manifest, rs_manifest_id = ManifestIDOf inst demo_raw, rs_raw = demo_raw,
     rs_fetched_at = issued, rs_expires_at = zero_time, rs_tls_host = ''mail.example.com'',
     rs_proof = Some demo_proof, rs_proof_error = None\<rparr>"

section \<open>A rotation and a document\<close>

lemma example_fingerprint:
  "length pk = PublicKeySize \<Longrightarrow> FingerprintOf inst example_com pk
     = Inr (inst_sha256 (enc (fingerprint_preimage example_com pk)))"
  by (simp add: FingerprintOf_Inr normalize_example)

lemma example_signing:
  "st_domain s = example_com \<Longrightarrow>
     signingBytes inst s = Inr (StatementContext @ enc (sorted_map_of (statement_fields example_com s)))"
  by (simp add: signingBytes_Inr normalize_example)

definition demo_rotation :: statement where
  "demo_rotation =
     (case SignRotation inst example_com demo_key next_key issued issued zero_time of
        Inr s \<Rightarrow> s | Inl _ \<Rightarrow> undefined)"

lemma demo_rotated: "SignRotation inst example_com demo_key next_key issued issued zero_time = Inr demo_rotation"
proof -
  have "is_ok (SignRotation inst example_com demo_key next_key issued issued zero_time)"
    by (simp add: SignRotation_def example_fingerprint ed_public_length example_signing Let_def)
  then show ?thesis by (auto simp: demo_rotation_def is_ok_iff)
qed

lemma demo_rotation_sel [simp]:
  "st_type demo_rotation = RotationType" "st_domain demo_rotation = example_com"
  "st_old_fp demo_rotation = demo_fp" "st_not_before demo_rotation = issued"
  "st_created_at demo_rotation = issued" "st_expires_at demo_rotation = zero_time"
  "st_new_fp demo_rotation = inst_sha256 (enc (fingerprint_preimage example_com (ed_public next_key)))"
  by (simp_all add: demo_rotation_def SignRotation_def example_fingerprint ed_public_length example_signing
      Let_def demo_fp_def)

lemma issued_whole [simp]: "whole_seconds issued" "whole_seconds zero_time" "zero_time < issued"
  "whole_seconds (issued + 4 * second)"
  by (simp_all add: whole_seconds_def issued_def)

lemma inst_sha256_length [simp]: "length (inst_sha256 b) = 32"
  by (simp add: inst_sha256_def zero32_def)

lemma demo_storable: "storable demo_rotation"
  by (simp add: storable_def demo_fp_def)

definition demo_doc :: doc where
  "demo_doc = \<lparr>dc_type = DocType, dc_version = Version, dc_domain = example_com, dc_active_fp = demo_fp,
     dc_active_pk = ed_public demo_key, dc_alg = Alg, dc_status = StatusActive, dc_updated_at = issued,
     dc_authority = [], dc_chain = []\<rparr>"

lemma demo_doc_ok: "doc_ok inst demo_doc"
  by (simp add: doc_ok_def demo_doc_def demo_fingerprint)

definition demo_doc_raw :: bytes where
  "demo_doc_raw = enc (sorted_map_of (doc_fields example_com demo_doc))"

lemma demo_doc_packed: "PackDoc inst demo_doc = Inr demo_doc_raw"
  by (simp add: PackDoc_Inr demo_doc_def normalize_example demo_doc_raw_def)

lemma demo_doc_short: "length demo_doc_raw < 1000"
  by code_simp

lemma demo_doc_size: "length demo_doc_raw \<le> MaxChainBytes"
  using demo_doc_short by (simp add: MaxChainBytes_def)

definition demo_peer :: peer where
  "demo_peer = (New_peer example_com)\<lparr>pr_identity := demo_pin\<lparr>id_fingerprint := demo_fp, id_pinned_key := ed_public demo_key\<rparr>\<rparr>"

lemma demo_times: "whole_seconds (mf_issued_at demo_manifest)" "whole_seconds (mf_expires_at demo_manifest)"
  using issued_whole(1,4) by (simp_all only: demo_manifest_sel)

lemma demo_fp_not_zero: "demo_fp \<noteq> zero32"
  by code_simp

lemma demo_proof_sized: "proof_sized demo_proof"
  by (simp add: proof_sized_def demo_proof_def ed_public_length demo_fp_def demo_sig_def inst_sign_def
      PublicKeySize_def SignatureSize_def)

section \<open>A dialer\<close>

definition demo_dialer :: "string dialer" where
  "demo_dialer = \<lparr>dl_policy = \<lparr>ap_allow_private = False\<rparr>,
     dl_lookup = (\<lambda>h. Inr [IPv4 (word_of_octets [10, 0, 0, 1]), IPv4 (word_of_octets [8, 8, 8, 8])]),
     dl_port = ''443'', dl_connect = (\<lambda>a p. Inr ''connected''), dl_domain = example_com\<rparr>"

lemma demo_dial_address:
  "split_host_port ''mail.example.com:443'' = Some (''mail.example.com'', ''443'')"
  "parse_addr ''mail.example.com'' = None"
  by code_simp+

lemma demo_dial:
  "DialContext demo_dialer ''mail.example.com:443'' = ([IPv4 (word_of_octets [8, 8, 8, 8])], Inr ''connected'')"
proof -
  let ?p = "\<lparr>ap_allow_private = False\<rparr>"
  have "Permit ?p (IPv4 (word_of_octets [8, 8, 8, 8])) = Inr ()"
    "Permit ?p (IPv4 (word_of_octets [10, 0, 0, 1])) \<noteq> Inr ()"
    by (subst Permit_v4, simp_all add: reserved4_def private4_def)+
  then show ?thesis
    by (cases "Permit ?p (IPv4 (word_of_octets [10, 0, 0, 1]))")
      (simp_all add: DialContext_def demo_dialer_def demo_dial_address)
qed

end
