(* ===== verification/Component.thy ===== *)
theory Component
  imports Outbound Lifecycle Examples
begin

text \<open>
  \<^verbatim>\<open>component/component.go\<close>: the wiring.  Injected properties become the options of a
  resolver and of a service; the container that injects them is a record of lookups.  The
  service bean is started, restarted and stopped, and passes every call to its service.
\<close>

section \<open>Settings\<close>

record properties =
  pp_bool :: "string \<Rightarrow> bool option"
  pp_int :: "string \<Rightarrow> int option"
  pp_string :: "string \<Rightarrow> string option"

definition GetBool :: "properties \<Rightarrow> string \<Rightarrow> bool \<Rightarrow> bool" where
  "GetBool p key d = (case pp_bool p key of Some b \<Rightarrow> b | None \<Rightarrow> d)"

definition GetInt :: "properties \<Rightarrow> string \<Rightarrow> int \<Rightarrow> int" where
  "GetInt p key d = (case pp_int p key of Some n \<Rightarrow> n | None \<Rightarrow> d)"

definition GetString :: "properties \<Rightarrow> string \<Rightarrow> string \<Rightarrow> string" where
  "GetString p key d = (case pp_string p key of Some s \<Rightarrow> s | None \<Rightarrow> d)"

text \<open>\<^verbatim>\<open>time.Duration(n) * time.Hour\<close> wraps in 64 bits.\<close>

definition hours_duration :: "int \<Rightarrow> duration" where
  "hours_duration n = sint (word_of_int (n * hour) :: 64 word)"

section \<open>The resolver bean\<close>

record resolver_bean =
  rb_enabled :: bool
  rb_resolver :: resolver

definition bean_options :: "properties \<Rightarrow> options" where
  "bean_options p =
     \<lparr>op_timeout = seconds_duration (GetInt p ''mkdp.resolver.timeout-seconds'' 8),
      op_dial_timeout = 0,
      op_max_body = GetInt p ''mkdp.resolver.max-body-bytes'' (int MaxBodyBytes),
      op_limits = \<lparr>lim_max_lifetime = hours_duration (GetInt p ''mkdp.resolver.max-manifest-lifetime-hours'' 720),
                   lim_max_clock_skew = seconds_duration (GetInt p ''mkdp.resolver.max-clock-skew-seconds'' 300)\<rparr>,
      op_allow_private = GetBool p ''mkdp.security.allow-private-targets'' False,
      op_port_override = [],
      op_max_concurrent = GetInt p ''mkdp.resolver.max-concurrent'' 8,
      op_user_agent = GetString p ''mkdp.resolver.user-agent'' []\<rparr>"

definition ResolverBean_PostConstruct :: "properties \<Rightarrow> resolver_bean" where
  "ResolverBean_PostConstruct p =
     \<lparr>rb_enabled = GetBool p ''mkdp.enabled'' True, rb_resolver = New_resolver (bean_options p)\<rparr>"

definition ResolverBean_Resolve ::
  "externs \<Rightarrow> resolver_bean \<Rightarrow> 'c network \<Rightarrow> string \<Rightarrow> string \<Rightarrow> gerr + fetch_result" where
  "ResolverBean_Resolve E b W domain authority =
     (if \<not> rb_enabled b then Inl (Sentinel ErrDisabled)
      else Resolve E (rb_resolver b) W domain authority)"

text \<open>The bean implements \<^verbatim>\<open>mailkey.Resolver\<close> and not the optional chain interface.\<close>

definition bean_net :: "externs \<Rightarrow> resolver_bean \<Rightarrow> (nat \<Rightarrow> 'c network) \<Rightarrow> nat resolver_ops" where
  "bean_net E b net =
     \<lparr>rv_resolve = (\<lambda>d a n. (ResolverBean_Resolve E b (net n) d a, if rb_enabled b then Suc n else n)),
      rv_chain = None\<rparr>"

section \<open>The service bean\<close>

text \<open>The bean logs failures and drops; it passes no \<^verbatim>\<open>OnAlert\<close>.\<close>

definition bean_callbacks :: callbacks where
  "bean_callbacks = \<lparr>cb_error = True, cb_drop = True, cb_alert = False\<rparr>"

lemma bean_hears_no_alert: "\<not> heard bean_callbacks (EvAlert d code detail)"
  by (simp add: bean_callbacks_def)

text \<open>Without a registered store the memory store is used.\<close>

definition bean_service ::
  "properties \<Rightarrow> 's option \<Rightarrow> 'r \<Rightarrow> (nat \<Rightarrow> time) \<Rightarrow> ('s, 'r) service + (memstore, 'r) service" where
  "bean_service p store net clock =
     (let size = GetInt p ''mkdp.discovery.queue-size'' 256 in
      case store of
        Some s \<Rightarrow> Inl (new_service bean_callbacks s net clock size 0 0 0)
      | None \<Rightarrow> Inr (new_service bean_callbacks (NewMemStore clock) net clock size 0 0 0))"

definition bean_workers :: "properties \<Rightarrow> nat" where
  "bean_workers p = (let n = GetInt p ''mkdp.discovery.workers'' 2 in if n \<le> 0 then 2 else nat n)"

section \<open>Settings are never unsafe\<close>

lemma GetBool_False: "GetBool p key False \<longleftrightarrow> pp_bool p key = Some True"
  by (simp add: GetBool_def split: option.splits)

lemma port_without_override: "op_port_override opts = [] \<Longrightarrow> re_port (New_resolver opts) = authorityPort"
  by (simp add: New_resolver_def Let_def)

lemma bean_resolver: "rb_resolver (ResolverBean_PostConstruct p) = New_resolver (bean_options p)"
  by (simp add: ResolverBean_PostConstruct_def)

lemma bean_safe:
  fixes p :: properties
  defines "r \<equiv> rb_resolver (ResolverBean_PostConstruct p)"
  shows "0 < op_timeout (re_opts r)" and "op_dial_timeout (re_opts r) \<le> op_timeout (re_opts r)"
    and "0 < op_max_body (re_opts r)" and "op_max_body (re_opts r) \<le> int MaxBodyBytes"
    and "0 < lim_max_lifetime (op_limits (re_opts r))" and "0 < op_max_concurrent (re_opts r)"
    and "re_port r = authorityPort"
    and "ap_allow_private (re_policy r) \<longleftrightarrow> pp_bool p ''mkdp.security.allow-private-targets'' = Some True"
proof -
  have "op_port_override (bean_options p) = []" by (simp add: bean_options_def)
  then show "re_port r = authorityPort" unfolding r_def bean_resolver by (rule port_without_override)
  have "op_allow_private (bean_options p) \<longleftrightarrow> pp_bool p ''mkdp.security.allow-private-targets'' = Some True"
    by (simp add: bean_options_def GetBool_False)
  then show "ap_allow_private (re_policy r) \<longleftrightarrow> pp_bool p ''mkdp.security.allow-private-targets'' = Some True"
    unfolding r_def bean_resolver New_resolver_safe(9) .
qed (unfold r_def bean_resolver, (rule New_resolver_safe)+)

lemma bean_workers_pos: "0 < bean_workers p"
  by (auto simp: bean_workers_def Let_def)

section \<open>Switched on, the bean keeps the contract of a resolver\<close>

lemma bean_enabled: "bean_net E (b\<lparr>rb_enabled := True\<rparr>) net
   = (net_resolver E (rb_resolver b) net)\<lparr>rv_chain := None\<rparr>"
  by (simp add: bean_net_def net_resolver_def ResolverBean_Resolve_def)

interpretation bean: resolver_contract E "bean_net E ((ResolverBean_PostConstruct p)\<lparr>rb_enabled := True\<rparr>) net"
  unfolding bean_enabled ResolverBean_PostConstruct_def
  using client.calm [of E "bean_options p" net] client.answer [of E _ "bean_options p" net]
  by unfold_locales simp_all

interpretation wired: protected_service E "mem_store E" book_of "bean_net E ((ResolverBean_PostConstruct p)\<lparr>rb_enabled := True\<rparr>) net"
  by unfold_locales

section \<open>Switched off\<close>

text \<open>Nothing is asked of the network, and the answer is the error of a disabled peer.\<close>

lemma bean_off: "\<not> rb_enabled b \<Longrightarrow> rv_resolve (bean_net E b net) d a n = (Inl (Sentinel ErrDisabled), n)"
  by (simp add: bean_net_def ResolverBean_Resolve_def)

text \<open>Which the policy passes on, whatever was latched.\<close>

lemma policyFailure_disabled: "policyFailure S p d (Sentinel ErrDisabled) = State_Monad.return (Sentinel ErrDisabled)"
  by (simp add: policyFailure_def)

text \<open>An example: the domain of the small world published before and is held while the bean is
  on; switched off, the outbound path answers that it is disabled.\<close>

definition off_settings :: properties where
  "off_settings = \<lparr>pp_bool = [''mkdp.enabled'' \<mapsto> False], pp_int = (\<lambda>_. None), pp_string = (\<lambda>_. None)\<rparr>"

definition off_bean :: "nat resolver_ops" where
  "off_bean = \<lparr>rv_resolve = (\<lambda>d a n. (Inl (Sentinel ErrDisabled), n)), rv_chain = None\<rparr>"

lemma off_bean_eq: "bean_net inst (ResolverBean_PostConstruct off_settings) net = off_bean"
  by (simp add: bean_net_def ResolverBean_Resolve_def ResolverBean_PostConstruct_def off_settings_def GetBool_def off_bean_def)

definition off_world :: "(memstore, nat) service" where
  "off_world = new_service bean_callbacks demo_mem 0 (\<lambda>n. 7) 4 second 8 second"

lemma off_answer: "fst (run_state (ResolveForEncryption inst demo_store off_bean example_com) off_world) = Inl (Sentinel ErrDisabled)"
  by code_simp

section \<open>Starting, restarting and stopping\<close>

text \<open>
  The store is the registered one or none; a service in use comes with the number of its
  workers, and \<open>sb_running\<close> counts the workers that run.  \<^verbatim>\<open>Close\<close> returns once all workers of
  its service did (\<open>Lifecycle\<close>).
\<close>

record ('s, 'r) service_bean =
  sb_store :: "'s option"
  sb_service :: "((('s, 'r) service + (memstore, 'r) service) \<times> nat) option"
  sb_running :: nat

definition NewServiceBean :: "'s option \<Rightarrow> ('s, 'r) service_bean" where
  "NewServiceBean store = \<lparr>sb_store = store, sb_service = None, sb_running = 0\<rparr>"

definition bean_close :: "('s, 'r) service_bean \<Rightarrow> ('s, 'r) service_bean" where
  "bean_close b =
     (case sb_service b of
        None \<Rightarrow> b
      | Some (_, workers) \<Rightarrow> b\<lparr>sb_service := None, sb_running := sb_running b - workers\<rparr>)"

definition ServiceBean_PostConstruct ::
  "properties \<Rightarrow> 'r \<Rightarrow> (nat \<Rightarrow> time) \<Rightarrow> ('s, 'r) service_bean \<Rightarrow> ('s, 'r) service_bean" where
  "ServiceBean_PostConstruct p net clock b =
     (let b = bean_close b in
      b\<lparr>sb_service := Some (bean_service p (sb_store b) net clock, bean_workers p),
        sb_running := sb_running b + bean_workers p\<rparr>)"

definition ServiceBean_Destroy :: "('s, 'r) service_bean \<Rightarrow> ('s, 'r) service_bean" where
  "ServiceBean_Destroy b = bean_close b"

section \<open>The delegated surface\<close>

text \<open>
  A method of the bean is the method of its service, on the registered store or on the memory
  store.  Without a service the receiver is nil: the method still answers what it answers
  before it touches a field (\<open>early\<close>), and panics otherwise (\<open>None\<close>).
\<close>

definition bean_call ::
  "'a option \<Rightarrow> ('s, 'r, 'a) svc \<Rightarrow> (memstore, 'r, 'a) svc
     \<Rightarrow> ('s, 'r) service_bean \<Rightarrow> ('a \<times> ('s, 'r) service_bean) option" where
  "bean_call early m m_mem b =
     (case sb_service b of
        None \<Rightarrow> map_option (\<lambda>a. (a, b)) early
      | Some (Inl w, n) \<Rightarrow>
          (case run_state m w of (a, w') \<Rightarrow> Some (a, b\<lparr>sb_service := Some (Inl w', n)\<rparr>))
      | Some (Inr w, n) \<Rightarrow>
          (case run_state m_mem w of (a, w') \<Rightarrow> Some (a, b\<lparr>sb_service := Some (Inr w', n)\<rparr>)))"

definition bad_domain :: "externs \<Rightarrow> string \<Rightarrow> (gerr \<Rightarrow> 'a) \<Rightarrow> 'a option" where
  "bad_domain E domain f = (case NormalizeDomain E domain of Inl e \<Rightarrow> Some (f e) | Inr d \<Rightarrow> None)"

definition ServiceBean_ObserveDNS where
  "ServiceBean_ObserveDNS E S domain txt =
     bean_call (case NormalizeDomain E domain of
                  Inl e \<Rightarrow> Some (Some e)
                | Inr d \<Rightarrow> (case ParseDNS E d txt of Inl e \<Rightarrow> Some (Some e) | Inr x \<Rightarrow> None))
       (ObserveDNS E S domain txt) (ObserveDNS E (mem_store E) domain txt)"

definition ServiceBean_ObserveHeader where
  "ServiceBean_ObserveHeader E S headerValue msgContext =
     bean_call (case ParseHeader E headerValue of Inl e \<Rightarrow> Some None | Inr ad \<Rightarrow> None)
       (ObserveHeader E S headerValue msgContext) (ObserveHeader E (mem_store E) headerValue msgContext)"

definition ServiceBean_AddPeer where
  "ServiceBean_AddPeer E S R domain =
     bean_call (bad_domain E domain (\<lambda>e. (None, Some e))) (AddPeer E S R domain) (AddPeer E (mem_store E) R domain)"

definition ServiceBean_Refresh where
  "ServiceBean_Refresh E S R domain =
     bean_call (bad_domain E domain (\<lambda>e. (None, Some e))) (Refresh E S R domain) (Refresh E (mem_store E) R domain)"

definition ServiceBean_ResolveForEncryption where
  "ServiceBean_ResolveForEncryption E S R domain =
     bean_call (bad_domain E domain Inl)
       (ResolveForEncryption E S R domain) (ResolveForEncryption E (mem_store E) R domain)"

definition ServiceBean_ResolveAcceptingUnpinned where
  "ServiceBean_ResolveAcceptingUnpinned E S R domain =
     bean_call (bad_domain E domain Inl)
       (ResolveAcceptingUnpinned E S R domain) (ResolveAcceptingUnpinned E (mem_store E) R domain)"

definition ServiceBean_Forget where
  "ServiceBean_Forget E S domain =
     bean_call (bad_domain E domain Inl) (Forget E S domain) (Forget E (mem_store E) domain)"

text \<open>One generation of workers at a time, however often the bean is restarted.\<close>

definition one_generation :: "('s, 'r) service_bean \<Rightarrow> bool" where
  "one_generation b \<longleftrightarrow> sb_running b = (case sb_service b of None \<Rightarrow> 0 | Some (_, n) \<Rightarrow> n)"

lemma generation_kept:
  "one_generation (NewServiceBean store)"
  "one_generation b \<Longrightarrow> one_generation (ServiceBean_PostConstruct p net clock b)"
  "one_generation b \<Longrightarrow> one_generation (ServiceBean_Destroy b) \<and> sb_running (ServiceBean_Destroy b) = 0"
  "one_generation b \<Longrightarrow> bean_call early m m_mem b = Some (a, b') \<Longrightarrow> one_generation b'"
  by (auto simp: one_generation_def NewServiceBean_def ServiceBean_PostConstruct_def ServiceBean_Destroy_def
      bean_close_def bean_call_def Let_def split: option.splits prod.splits sum.splits)

text \<open>Between its construction and its destruction the bean answers every call.\<close>

lemma started_answers:
  "sb_service (ServiceBean_PostConstruct p net clock b) \<noteq> None"
  "sb_service b \<noteq> None \<Longrightarrow> \<exists>a b'. bean_call early m m_mem b = Some (a, b') \<and> sb_service b' \<noteq> None"
  by (auto simp: ServiceBean_PostConstruct_def Let_def bean_call_def split: sum.splits prod.splits)

text \<open>A call on a started bean over a registered store is the call of the service.\<close>

lemma bean_call_service:
  "sb_service b = Some (Inl w, n) \<Longrightarrow> run_state m w = (a, w')
     \<Longrightarrow> bean_call early m m_mem b = Some (a, b\<lparr>sb_service := Some (Inl w', n)\<rparr>)"
  by (simp add: bean_call_def)

text \<open>What is answered early is what the service would have answered.\<close>

lemma early_agrees:
  "NormalizeDomain E domain = Inl e \<Longrightarrow> ResolveForEncryption E S R domain = State_Monad.return (Inl e)"
  "NormalizeDomain E domain = Inl e \<Longrightarrow> Refresh E S R domain = State_Monad.return (None, Some e)"
  "NormalizeDomain E domain = Inl e \<Longrightarrow> AddPeer E S R domain = State_Monad.return (None, Some e)"
  "NormalizeDomain E domain = Inl e \<Longrightarrow> Forget E S domain = State_Monad.return (Inl e)"
  "NormalizeDomain E domain = Inl e \<Longrightarrow> ObserveDNS E S domain txt = State_Monad.return (Some e)"
  by (simp_all add: ResolveForEncryption_def resolveEncrypting_def Refresh_def AddPeer_def Forget_def ObserveDNS_def)

end
