(* ===== verification/Flight.thy ===== *)
theory Flight
  imports Prelude
begin

text \<open>
  The single flight of \<^verbatim>\<open>Resolver.Resolve\<close> and the global concurrency cap: callers of one key
  share one call, and the calls share a fixed number of slots.  \<^verbatim>\<open>ResolveIdentityChain\<close> takes its
  slot of the same semaphore; its fetches are not coalesced.  A call passes through
  stages; between two steps any other caller may run.  The outcome of a fetch is
  arbitrary, so the statements hold for every network.
\<close>

section \<open>Calls and steps\<close>

text \<open>
  \<open>Queued\<close>: in the map, waiting for a slot.  \<open>Fetching\<close>: holding one.  \<open>Landed\<close>: the outcome is
  written, the slot is free, the map still has the call.  \<open>Closing\<close>: out of the map, the
  channel still open.  \<open>Closed\<close>: every waiter may read the outcome.  Of the identity fetches only
  the number matters: \<open>fl_chain_waiting\<close> wait for a slot, \<open>fl_chain_fetching\<close> hold one.
\<close>

datatype 'o stage =
  Unborn | Queued string | Fetching string | Landed string 'o | Closing 'o | Closed 'o

record 'o flight =
  fl_inflight :: "string \<Rightarrow> nat option"
  fl_stage :: "nat \<Rightarrow> 'o stage"
  fl_next :: nat
  fl_slots :: nat
  fl_capacity :: nat
  fl_waiting :: "nat list"
  fl_chain_waiting :: nat
  fl_chain_fetching :: nat

text \<open>The semaphore as \<^verbatim>\<open>ResolveIdentityChain\<close> uses it: it asks, takes a slot or gives up because its
  context is done, and hands the slot back when it returns.\<close>

datatype chain_label = CAsk | CAcquire | CCancel | CDone

inductive chain_step :: "'o flight \<Rightarrow> chain_label \<Rightarrow> 'o flight \<Rightarrow> bool" where
  chain_ask: "chain_step w CAsk (w\<lparr>fl_chain_waiting := Suc (fl_chain_waiting w)\<rparr>)"
| chain_acquire: "fl_chain_waiting w = Suc n \<Longrightarrow> fl_slots w < fl_capacity w \<Longrightarrow>
    chain_step w CAcquire
      (w\<lparr>fl_chain_waiting := n, fl_chain_fetching := Suc (fl_chain_fetching w), fl_slots := Suc (fl_slots w)\<rparr>)"
| chain_cancel: "fl_chain_waiting w = Suc n \<Longrightarrow> chain_step w CCancel (w\<lparr>fl_chain_waiting := n\<rparr>)"
| chain_done: "fl_chain_fetching w = Suc n \<Longrightarrow>
    chain_step w CDone (w\<lparr>fl_chain_fetching := n, fl_slots := fl_slots w - 1\<rparr>)"

inductive_cases chain_stepE: "chain_step w l w'"

datatype 'o flight_label =
  FJoin string nat | FLead string nat | FAcquire nat | FCancel nat 'o | FLand nat 'o
| FDelete nat | FClose nat 'o | FWake nat 'o | FGiveUp nat | FChain chain_label

inductive flight_step :: "'o flight \<Rightarrow> 'o flight_label \<Rightarrow> 'o flight \<Rightarrow> bool" where
  flight_join: "fl_inflight w k = Some c \<Longrightarrow>
    flight_step w (FJoin k c) (w\<lparr>fl_waiting := c # fl_waiting w\<rparr>)"
| flight_lead: "fl_inflight w k = None \<Longrightarrow> c = fl_next w \<Longrightarrow>
    flight_step w (FLead k c)
      (w\<lparr>fl_inflight := (fl_inflight w)(k \<mapsto> c), fl_stage := (fl_stage w)(c := Queued k), fl_next := Suc c\<rparr>)"
| flight_acquire: "fl_stage w c = Queued k \<Longrightarrow> fl_slots w < fl_capacity w \<Longrightarrow>
    flight_step w (FAcquire c)
      (w\<lparr>fl_stage := (fl_stage w)(c := Fetching k), fl_slots := Suc (fl_slots w)\<rparr>)"
| flight_cancel: "fl_stage w c = Queued k \<Longrightarrow>
    flight_step w (FCancel c r) (w\<lparr>fl_stage := (fl_stage w)(c := Landed k r)\<rparr>)"
| flight_land: "fl_stage w c = Fetching k \<Longrightarrow>
    flight_step w (FLand c r)
      (w\<lparr>fl_stage := (fl_stage w)(c := Landed k r), fl_slots := fl_slots w - 1\<rparr>)"
| flight_delete: "fl_stage w c = Landed k r \<Longrightarrow>
    flight_step w (FDelete c)
      (w\<lparr>fl_inflight := (fl_inflight w)(k := None), fl_stage := (fl_stage w)(c := Closing r)\<rparr>)"
| flight_close: "fl_stage w c = Closing r \<Longrightarrow>
    flight_step w (FClose c r) (w\<lparr>fl_stage := (fl_stage w)(c := Closed r)\<rparr>)"
| flight_wake: "c \<in> set (fl_waiting w) \<Longrightarrow> fl_stage w c = Closed r \<Longrightarrow>
    flight_step w (FWake c r) (w\<lparr>fl_waiting := remove1 c (fl_waiting w)\<rparr>)"
| flight_give_up: "c \<in> set (fl_waiting w) \<Longrightarrow>
    flight_step w (FGiveUp c) (w\<lparr>fl_waiting := remove1 c (fl_waiting w)\<rparr>)"
| flight_chain: "chain_step w l w' \<Longrightarrow> flight_step w (FChain l) w'"

inductive_cases flight_stepE: "flight_step w l w'"

inductive flight_run :: "'o flight \<Rightarrow> 'o flight_label list \<Rightarrow> 'o flight \<Rightarrow> bool" where
  flight_nil: "flight_run w [] w"
| flight_cons: "flight_step w l w1 \<Longrightarrow> flight_run w1 ls w2 \<Longrightarrow> flight_run w (l # ls) w2"

definition flight_init :: "nat \<Rightarrow> 'o flight" where
  "flight_init capacity =
     \<lparr>fl_inflight = Map.empty, fl_stage = (\<lambda>_. Unborn), fl_next = 0, fl_slots = 0,
      fl_capacity = capacity, fl_waiting = [], fl_chain_waiting = 0, fl_chain_fetching = 0\<rparr>"

section \<open>Invariant\<close>

text \<open>The key a call holds in the map, and whether it holds a slot.\<close>

fun key_of :: "'o stage \<Rightarrow> string option" where
  "key_of (Queued k) = Some k"
| "key_of (Fetching k) = Some k"
| "key_of (Landed k r) = Some k"
| "key_of _ = None"

fun holds_slot :: "'o stage \<Rightarrow> bool" where
  "holds_slot (Fetching k) = True"
| "holds_slot _ = False"

definition fetching :: "'o flight \<Rightarrow> nat set" where
  "fetching w = {c. holds_slot (fl_stage w c)}"

definition flight_wf :: "'o flight \<Rightarrow> bool" where
  "flight_wf w \<longleftrightarrow> (\<forall>c. fl_next w \<le> c \<longrightarrow> fl_stage w c = Unborn)
     \<and> (\<forall>k c. fl_inflight w k = Some c \<longleftrightarrow> key_of (fl_stage w c) = Some k)
     \<and> fl_slots w = card (fetching w) + fl_chain_fetching w \<and> fl_slots w \<le> fl_capacity w
     \<and> (\<forall>c \<in> set (fl_waiting w). fl_stage w c \<noteq> Unborn)"

lemma flight_wf_init: "flight_wf (flight_init n)"
  by (simp add: flight_wf_def flight_init_def fetching_def)

lemma fetching_born: "flight_wf w \<Longrightarrow> c \<in> fetching w \<Longrightarrow> c < fl_next w"
  unfolding flight_wf_def fetching_def by (metis holds_slot.simps(2) leI mem_Collect_eq)

lemma fetching_finite: "flight_wf w \<Longrightarrow> finite (fetching w)"
  by (rule finite_subset [of _ "{..<fl_next w}"]) (auto dest: fetching_born)

lemma fetching_upd:
  "fetching (w\<lparr>fl_stage := (fl_stage w)(c := s)\<rparr>)
     = (if holds_slot s then insert c (fetching w) else fetching w - {c})"
  by (auto simp: fetching_def)

text \<open>A key is in the map for one call only.\<close>

lemma one_call_per_key:
  "flight_wf w \<Longrightarrow> key_of (fl_stage w c) = Some k \<Longrightarrow> key_of (fl_stage w c') = Some k \<Longrightarrow> c = c'"
  unfolding flight_wf_def by (metis option.inject)

lemma born_call: "flight_wf w \<Longrightarrow> fl_stage w c \<noteq> Unborn \<Longrightarrow> c < fl_next w"
  by (auto simp: flight_wf_def intro: leI)

text \<open>Moving one call from a stage to another.\<close>

lemma flight_wf_move:
  assumes wf: "flight_wf w" and st: "fl_stage w c \<noteq> Unborn" and new: "s \<noteq> Unborn"
    and key: "key_of s = key_of (fl_stage w c) \<and> m = fl_inflight w
      \<or> (\<exists>k. key_of (fl_stage w c) = Some k \<and> key_of s = None \<and> m = (fl_inflight w)(k := None))"
    and slots: "n = card (fetching (w\<lparr>fl_stage := (fl_stage w)(c := s)\<rparr>)) + fl_chain_fetching w" and cap: "n \<le> fl_capacity w"
  shows "flight_wf (w\<lparr>fl_inflight := m, fl_stage := (fl_stage w)(c := s), fl_slots := n\<rparr>)"
proof -
  have inv: "fl_inflight w k = Some c' \<longleftrightarrow> key_of (fl_stage w c') = Some k" for k c'
    using wf by (simp add: flight_wf_def)
  have map: "m k = Some c' \<longleftrightarrow> key_of (((fl_stage w)(c := s)) c') = Some k" for k c'
    using key
  proof
    assume "key_of s = key_of (fl_stage w c) \<and> m = fl_inflight w"
    then show ?thesis using inv [of k c'] by (cases "c' = c") simp_all
  next
    assume "\<exists>k. key_of (fl_stage w c) = Some k \<and> key_of s = None \<and> m = (fl_inflight w)(k := None)"
    then obtain k0 where k0: "key_of (fl_stage w c) = Some k0" and s: "key_of s = None"
      and m: "m = (fl_inflight w)(k0 := None)" by blast
    have "fl_inflight w k0 = Some c" using k0 inv by simp
    then show ?thesis using inv [of k c'] k0 s by (cases "c' = c"; cases "k = k0") (simp_all add: m)
  qed
  have unborn: "((fl_stage w)(c := s)) c' = Unborn" if "fl_next w \<le> c'" for c'
    using that wf born_call [OF wf st] by (simp add: flight_wf_def)
  have waiting: "((fl_stage w)(c := s)) c' \<noteq> Unborn" if "c' \<in> set (fl_waiting w)" for c'
    using that wf new by (simp add: flight_wf_def)
  have "fetching (w\<lparr>fl_inflight := m, fl_stage := (fl_stage w)(c := s), fl_slots := n\<rparr>)
      = fetching (w\<lparr>fl_stage := (fl_stage w)(c := s)\<rparr>)" by (simp add: fetching_def)
  then show ?thesis using map unborn waiting slots cap unfolding flight_wf_def by simp
qed

lemma fetching_fewer: "flight_wf w \<Longrightarrow> c \<in> fetching w \<Longrightarrow> card (fetching w - {c}) = card (fetching w) - 1 \<and> 0 < card (fetching w)"
  by (simp add: fetching_finite card_gt_0_iff) blast

lemma flight_wf_chain:
  assumes wf: "flight_wf w" and step: "chain_step w l w'"
  shows "flight_wf w'"
  using step
proof cases
  case chain_done
  then show ?thesis using wf by (auto simp: flight_wf_def fetching_def)
qed (use wf in \<open>auto simp: flight_wf_def fetching_def\<close>)

lemma flight_wf_step:
  assumes wf: "flight_wf w" and step: "flight_step w l w'"
  shows "flight_wf w'"
  using step
proof cases
  case (flight_join k c)
  then show ?thesis using wf by (auto simp: flight_wf_def fetching_def)
next
  case (flight_lead k c)
  have c: "fl_stage w c = Unborn" using wf flight_lead by (simp add: flight_wf_def)
  have none: "key_of (fl_stage w c') \<noteq> Some k" for c'
    using wf flight_lead(3) unfolding flight_wf_def by (metis option.distinct(1))
  have "fetching w' = fetching w" using c by (auto simp: flight_lead fetching_def)
  then show ?thesis using wf c none unfolding flight_lead flight_wf_def by auto
next
  case (flight_acquire c k)
  then have "c \<notin> fetching w" by (simp add: fetching_def)
  then have "Suc (fl_slots w) = card (fetching (w\<lparr>fl_stage := (fl_stage w)(c := Fetching k)\<rparr>)) + fl_chain_fetching w"
    using fetching_finite [OF wf] wf by (simp add: fetching_upd flight_wf_def)
  from flight_wf_move [OF wf _ _ _ this, of "fl_inflight w"] show ?thesis using flight_acquire by simp
next
  case (flight_cancel c k r)
  then have "fl_slots w = card (fetching (w\<lparr>fl_stage := (fl_stage w)(c := Landed k r)\<rparr>)) + fl_chain_fetching w"
    using wf by (simp add: fetching_upd flight_wf_def) (simp add: fetching_def)
  from flight_wf_move [OF wf _ _ _ this, of "fl_inflight w"] show ?thesis using flight_cancel wf
    by (simp add: flight_wf_def)
next
  case (flight_land c k r)
  then have "c \<in> fetching w" by (simp add: fetching_def)
  from fetching_fewer [OF wf this] flight_land have "fl_slots w - 1 = card (fetching (w\<lparr>fl_stage := (fl_stage w)(c := Landed k r)\<rparr>)) + fl_chain_fetching w"
    using wf by (simp add: fetching_upd) (simp add: flight_wf_def)
  moreover have "fl_slots w - 1 \<le> fl_capacity w" using wf unfolding flight_wf_def by linarith
  ultimately show ?thesis
    using flight_wf_move [OF wf, of c "Landed k r" "fl_inflight w" "fl_slots w - 1"] flight_land by simp
next
  case (flight_delete c k r)
  then have "fl_slots w = card (fetching (w\<lparr>fl_stage := (fl_stage w)(c := Closing r)\<rparr>)) + fl_chain_fetching w"
    using wf by (simp add: fetching_upd flight_wf_def) (simp add: fetching_def)
  from flight_wf_move [OF wf _ _ _ this, of "(fl_inflight w)(k := None)"] show ?thesis
    using flight_delete wf by (simp add: flight_wf_def)
next
  case (flight_close c r)
  then have "fl_slots w = card (fetching (w\<lparr>fl_stage := (fl_stage w)(c := Closed r)\<rparr>)) + fl_chain_fetching w"
    using wf by (simp add: fetching_upd flight_wf_def) (simp add: fetching_def)
  from flight_wf_move [OF wf _ _ _ this, of "fl_inflight w"] show ?thesis using flight_close wf
    by (simp add: flight_wf_def)
next
  case (flight_chain l)
  show ?thesis by (rule flight_wf_chain [OF wf flight_chain(2)])
qed (use wf in \<open>auto simp: flight_wf_def fetching_def dest: notin_set_remove1 intro: ccontr\<close>)

lemma flight_wf_run: "flight_run w ls w' \<Longrightarrow> flight_wf w \<Longrightarrow> flight_wf w'"
  by (induction rule: flight_run.induct) (auto intro: flight_wf_step)

text \<open>At every moment: one call per key, and no more fetches than slots.\<close>

lemma flight_capacity: "flight_run w ls w' \<Longrightarrow> fl_capacity w' = fl_capacity w"
  by (induction rule: flight_run.induct) (auto elim!: flight_stepE chain_stepE)

lemma flight_bounds:
  assumes "flight_run (flight_init n) ls w"
  shows "card (fetching w) + fl_chain_fetching w \<le> n"
    and "key_of (fl_stage w c) = Some k \<Longrightarrow> key_of (fl_stage w c') = Some k \<Longrightarrow> c = c'"
proof -
  have wf: "flight_wf w" by (rule flight_wf_run [OF assms flight_wf_init])
  from flight_capacity [OF assms] wf show "card (fetching w) + fl_chain_fetching w \<le> n" by (simp add: flight_wf_def flight_init_def)
  show "key_of (fl_stage w c) = Some k \<Longrightarrow> key_of (fl_stage w c') = Some k \<Longrightarrow> c = c'"
    by (rule one_call_per_key [OF wf])
qed

section \<open>Every caller gets the outcome of its call\<close>

text \<open>The outcome a call has reached, if it has reached one.\<close>

fun outcome_of :: "'o stage \<Rightarrow> 'o option" where
  "outcome_of (Landed k r) = Some r"
| "outcome_of (Closing r) = Some r"
| "outcome_of (Closed r) = Some r"
| "outcome_of _ = None"

lemma outcome_step:
  assumes "flight_step w l w'" and "flight_wf w"
  shows "outcome_of (fl_stage w' c) = Some r \<longleftrightarrow>
    outcome_of (fl_stage w c) = Some r \<or> l = FLand c r \<or> l = FCancel c r"
  using assms(1)
  by cases (use assms(2) in \<open>auto simp: flight_wf_def elim: chain_stepE\<close>)

text \<open>What a waiter reads is what the call's own fetch, or its cancellation, produced.\<close>

lemma outcome_run:
  "flight_run w ls w' \<Longrightarrow> flight_wf w \<Longrightarrow> outcome_of (fl_stage w' c) = Some r \<Longrightarrow>
     outcome_of (fl_stage w c) = Some r \<or> FLand c r \<in> set ls \<or> FCancel c r \<in> set ls"
proof (induction rule: flight_run.induct)
  case (flight_cons w l w1 ls w2)
  then show ?case using outcome_step [OF flight_cons.hyps(1)] flight_wf_step by fastforce
qed simp

lemma wake_agrees:
  assumes run: "flight_run (flight_init n) ls w" and wake: "flight_step w (FWake c r) w'"
  shows "FLand c r \<in> set ls \<or> FCancel c r \<in> set ls"
proof -
  have "outcome_of (fl_stage w c) = Some r" using wake by cases simp
  then show ?thesis using outcome_run [OF run flight_wf_init] by (auto simp: flight_init_def)
qed

text \<open>An outcome never changes: two waiters of one call read the same.\<close>

lemma outcome_once:
  assumes "flight_run w ls w'" and "flight_wf w" and "outcome_of (fl_stage w c) = Some r"
  shows "outcome_of (fl_stage w' c) = Some r"
  using assms
proof (induction rule: flight_run.induct)
  case (flight_cons w l w1 ls w2)
  then show ?case using outcome_step [OF flight_cons.hyps(1)] flight_wf_step by blast
qed

section \<open>Nobody waits for ever\<close>

fun stage_work :: "'o stage \<Rightarrow> nat" where
  "stage_work (Queued k) = 4"
| "stage_work (Fetching k) = 3"
| "stage_work (Landed k r) = 2"
| "stage_work (Closing r) = 1"
| "stage_work _ = 0"

definition flight_work :: "'o flight \<Rightarrow> nat" where
  "flight_work w = (\<Sum>c < fl_next w. stage_work (fl_stage w c)) + length (fl_waiting w)
     + 2 * fl_chain_waiting w + fl_chain_fetching w"

definition internal :: "'o flight_label \<Rightarrow> bool" where
  "internal l \<longleftrightarrow> (\<forall>k c. l \<noteq> FJoin k c \<and> l \<noteq> FLead k c) \<and> l \<noteq> FChain CAsk"

lemma work_moved:
  assumes "flight_wf w" and "fl_stage w c \<noteq> Unborn" and "stage_work s < stage_work (fl_stage w c)"
  shows "(\<Sum>c' < fl_next w. stage_work (((fl_stage w)(c := s)) c')) < (\<Sum>c' < fl_next w. stage_work (fl_stage w c'))"
  by (rule sum_strict_mono_ex1) (use assms born_call [OF assms(1,2)] in \<open>auto intro!: bexI [of _ c]\<close>)

lemma flight_work_less:
  assumes wf: "flight_wf w" and step: "flight_step w l w'" and int: "internal l"
  shows "flight_work w' < flight_work w"
  using step
proof cases
  case (flight_acquire c k)
  then show ?thesis using work_moved [OF wf, of c "Fetching k"] by (simp add: flight_work_def)
next
  case (flight_cancel c k r)
  then show ?thesis using work_moved [OF wf, of c "Landed k r"] by (simp add: flight_work_def)
next
  case (flight_land c k r)
  then show ?thesis using work_moved [OF wf, of c "Landed k r"] by (simp add: flight_work_def)
next
  case (flight_delete c k r)
  then show ?thesis using work_moved [OF wf, of c "Closing r"] by (simp add: flight_work_def)
next
  case (flight_close c r)
  then show ?thesis using work_moved [OF wf, of c "Closed r"] by (simp add: flight_work_def)
next
  case (flight_chain l)
  then show ?thesis using int by (auto simp: internal_def flight_work_def elim!: chain_stepE)
qed (use int in \<open>auto simp: internal_def flight_work_def length_remove1 dest: length_pos_if_in_set\<close>)

text \<open>A step that is not somebody's patience running out.\<close>

definition patient :: "'o flight_label \<Rightarrow> bool" where
  "patient l \<longleftrightarrow> (\<forall>c. l \<noteq> FGiveUp c) \<and> (\<forall>c r. l \<noteq> FCancel c r) \<and> l \<noteq> FChain CCancel"

text \<open>Whoever holds the last slot, a call or an identity fetch, can hand it back.\<close>

lemma full_progress:
  assumes wf: "flight_wf w" and cap: "0 < fl_capacity w" and full: "\<not> fl_slots w < fl_capacity w"
  shows "\<exists>l w'. flight_step w l w' \<and> internal l \<and> patient l"
proof (cases "fl_chain_fetching w")
  case 0
  then have "fetching w \<noteq> {}" using wf cap full by (auto simp: flight_wf_def)
  then obtain c k where "fl_stage w c = Fetching k"
    by (auto simp: fetching_def) (metis holds_slot.elims(2))
  from flight_land [OF this] show ?thesis by (auto simp: internal_def patient_def)
next
  case (Suc n)
  from flight_chain [OF chain_done [OF this]] show ?thesis
    by (intro exI conjI) (assumption, simp_all add: internal_def patient_def)
qed

lemma chain_progress:
  assumes wf: "flight_wf w" and cap: "0 < fl_capacity w" and busy: "0 < fl_chain_waiting w + fl_chain_fetching w"
  shows "\<exists>l w'. flight_step w l w' \<and> internal l \<and> patient l"
proof (cases "fl_chain_fetching w")
  case 0
  then obtain n where n: "fl_chain_waiting w = Suc n" using busy by (cases "fl_chain_waiting w") auto
  show ?thesis
  proof (cases "fl_slots w < fl_capacity w")
    case True
    from flight_chain [OF chain_acquire [OF n this]] show ?thesis
      by (intro exI conjI) (assumption, simp_all add: internal_def patient_def)
  qed (rule full_progress [OF wf cap])
next
  case (Suc n)
  from flight_chain [OF chain_done [OF this]] show ?thesis
    by (intro exI conjI) (assumption, simp_all add: internal_def patient_def)
qed

lemma flight_progress:
  assumes wf: "flight_wf w" and cap: "0 < fl_capacity w" and wait: "fl_waiting w \<noteq> []"
  shows "\<exists>l w'. flight_step w l w' \<and> internal l \<and> patient l"
proof -
  obtain c where c: "c \<in> set (fl_waiting w)" using wait by (cases "fl_waiting w") auto
  have "fl_stage w c \<noteq> Unborn" using wf c by (simp add: flight_wf_def)
  then show ?thesis
  proof (cases "fl_stage w c")
    case (Queued k)
    show ?thesis
    proof (cases "fl_slots w < fl_capacity w")
      case True
      then show ?thesis using flight_acquire [OF Queued] by (auto simp: internal_def patient_def)
    qed (rule full_progress [OF wf cap])
  next
    case (Fetching k)
    from flight_land [OF this] show ?thesis by (auto simp: internal_def patient_def)
  next
    case (Landed k r)
    from flight_delete [OF this] show ?thesis by (auto simp: internal_def patient_def)
  next
    case (Closing r)
    from flight_close [OF this] show ?thesis by (auto simp: internal_def patient_def)
  next
    case (Closed r)
    from flight_wake [OF c this] show ?thesis by (auto simp: internal_def patient_def)
  qed simp
qed

section \<open>An example\<close>

text \<open>One call, two callers that joined it, its outcome, and both still to wake; an identity fetch
  that had the only slot before it, and one that waits for it.\<close>

lemma flight_nil_eq: "w = w' \<Longrightarrow> flight_run w [] w'"
  by (simp add: flight_nil)

definition demo_labels :: "nat flight_label list" where
  "demo_labels = [FLead ''d'' 0, FJoin ''d'' 0, FJoin ''d'' 0, FChain CAsk, FChain CAsk,
     FChain CAcquire, FChain CDone, FAcquire 0, FLand 0 7, FDelete 0, FClose 0 7]"

definition demo_flight :: "nat flight" where
  "demo_flight = \<lparr>fl_inflight = Map.empty, fl_stage = (\<lambda>_. Unborn)(0 := Closed 7), fl_next = 1, fl_slots = 0,
     fl_capacity = 1, fl_waiting = [0, 0], fl_chain_waiting = 1, fl_chain_fetching = 0\<rparr>"

lemma demo_flies: "flight_run (flight_init 1) demo_labels demo_flight"
  unfolding demo_labels_def flight_init_def
  apply (rule flight_cons, rule flight_lead, simp, simp)
  apply (rule flight_cons, rule flight_join, simp)
  apply (rule flight_cons, rule flight_join, simp)
  apply (rule flight_cons, rule flight_chain, rule chain_ask)
  apply (rule flight_cons, rule flight_chain, rule chain_ask)
  apply (rule flight_cons, rule flight_chain, rule chain_acquire, simp, simp)
  apply (rule flight_cons, rule flight_chain, rule chain_done, simp)
  apply (rule flight_cons, rule flight_acquire, simp, simp)
  apply (rule flight_cons, rule flight_land, simp)
  apply (rule flight_cons, rule flight_delete, simp)
  apply (rule flight_cons, rule flight_close, simp)
  apply (rule flight_nil_eq, simp add: demo_flight_def fun_eq_iff)
  done

lemma demo_flight_sel [simp]:
  "fl_stage demo_flight 0 = Closed 7" "fl_waiting demo_flight = [0, 0]"
  by (simp_all add: demo_flight_def)

end
