(* ===== verification/Threads.thy ===== *)
theory Threads
  imports Examples
begin

text \<open>
  Several goroutines over one store (\<^verbatim>\<open>peer/service.go\<close> with \<^verbatim>\<open>peer/memstore.go\<close>).  The store's
  mutex makes each call of it one step; between two calls of one goroutine the others may
  have made any number of theirs.  One goroutine is a program of \<open>Service\<close> run over a store
  that lets the others act first at every call; what it guarantees is proved from what the
  others keep, and it keeps the same.
\<close>

section \<open>A store the others use too\<close>

text \<open>What the others do to the store before the first, second, \<dots> call of this goroutine, and what
  the calls of this goroutine do to it, in order.\<close>

record 's crowd =
  cw_store :: 's
  cw_others :: "nat \<Rightarrow> 's \<Rightarrow> 's"
  cw_calls :: "('s \<Rightarrow> 's) list"

definition among :: "('s \<Rightarrow> 'a \<times> 's) \<Rightarrow> 's crowd \<Rightarrow> 'a \<times> 's crowd" where
  "among f c =
     (case f (cw_others c 0 (cw_store c)) of
        (a, s) \<Rightarrow> (a, c\<lparr>cw_store := s, cw_others := \<lambda>n. cw_others c (Suc n),
                         cw_calls := cw_calls c @ [\<lambda>s. snd (f s)]\<rparr>))"

definition crowd_store :: "'s store_ops \<Rightarrow> 's crowd store_ops" where
  "crowd_store S =
     \<lparr>so_get = \<lambda>d. among (so_get S d), so_list = among (so_list S),
      so_put_observation = \<lambda>d ob. among (so_put_observation S d ob),
      so_install = \<lambda>d r. among (so_install S d r),
      so_record_failure = \<lambda>d e. among (so_record_failure S d e),
      so_record_issue = \<lambda>d c t. among (so_record_issue S d c t),
      so_clear_issue = \<lambda>d c. among (so_clear_issue S d c),
      so_set_policy = \<lambda>d pol. among (so_set_policy S d pol),
      so_forget = \<lambda>d. among (so_forget S d),
      so_set_identity = \<lambda>d st. among (so_set_identity S d st),
      so_capability = \<lambda>d. among (so_capability S d),
      so_list_capabilities = among (so_list_capabilities S),
      so_mark_validated = \<lambda>d t. among (so_mark_validated S d t),
      so_set_disabled = \<lambda>d dis why t. among (so_set_disabled S d dis why t)\<rparr>"

text \<open>A predicate the others keep at every one of their turns, and this goroutine at each call.\<close>

definition crowd_keeps :: "('s \<Rightarrow> bool) \<Rightarrow> 's crowd \<Rightarrow> bool" where
  "crowd_keeps J c \<longleftrightarrow> J (cw_store c) \<and> (\<forall>n s. J s \<longrightarrow> J (cw_others c n s))
     \<and> (\<forall>f \<in> set (cw_calls c). \<forall>s. J s \<longrightarrow> J (f s))"

lemma among_op:
  assumes "op_triple J f Q"
  shows "op_triple (crowd_keeps J) (among f) Q"
proof (rule op_tripleI)
  fix c r c' assume c: "crowd_keeps J c" and run: "among f c = (r, c')"
  have f: "Q (fst (f s)) \<and> J (snd (f s))" if "J s" for s
    using assms that by (simp add: op_triple_def)
  obtain s where s: "f (cw_others c 0 (cw_store c)) = (r, s)"
    using run by (auto simp: among_def split: prod.splits)
  have "J (cw_others c 0 (cw_store c))" using c by (simp add: crowd_keeps_def)
  from f [OF this] show "Q r \<and> crowd_keeps J c'"
    using run c f s by (auto simp: among_def crowd_keeps_def)
qed

lemmas crowd_sel = crowd_store_def store_ops.select_convs

lemma crowd_soft: "soft_ops S d J \<Longrightarrow> soft_ops (crowd_store S) d (crowd_keeps J)"
  by (simp add: soft_ops_def crowd_sel among_op)

lemma crowd_hard: "hard_ops S d J \<Longrightarrow> hard_ops (crowd_store S) d (crowd_keeps J)"
  by (simp add: hard_ops_def crowd_soft) (simp add: crowd_sel among_op)

section \<open>A protected domain among others\<close>

context guarded_store
begin

lemma among_others: "guarded_store E (crowd_store S) (\<lambda>d. crowd_keeps (G d))"
  by unfold_locales
    (simp_all only: crowd_sel crowd_hard [unfolded crowd_sel] g_kept among_op g_get g_capability
      g_install g_failure g_identity g_mark)

end

context store_contract
begin

lemma guarded_view: "guarded_store E S (\<lambda>d s. guarded d (view s))"
  by (rule steady.guarded_store_axioms)

end

interpretation shared: guarded_store E "crowd_store (mem_store E)" "\<lambda>d. crowd_keeps (\<lambda>s. guarded d (book_of s))"
  by (rule guarded_store.among_others) (rule store_contract.guarded_view, rule mem.store_contract_axioms)

text \<open>What other calls of the service do to the book, none of which lifts the protection.\<close>

lemma steps_keep_guarded:
  assumes "book_step\<^sup>*\<^sup>* b b'"
  shows "guarded d b \<Longrightarrow> guarded d b'"
  using assms guarded_kept [of d] by induction (auto simp: kept_by_steps_def)

section \<open>A pinned domain among others\<close>

text \<open>
  Several calls may follow one rotation after the other, and a call may write what it decided
  on an older reading of the record.  So the promise is about the lineage of the pin: every
  identity stored is reached from it, and every manifest in force is signed by one.
\<close>

definition lineage :: "externs \<Rightarrow> bytes \<times> bytes \<Rightarrow> bytes \<times> bytes \<Rightarrow> bool" where
  "lineage E = (succeeds E)\<^sup>*\<^sup>*"

definition from_lineage :: "externs \<Rightarrow> bytes \<times> bytes \<Rightarrow> fetch_result \<Rightarrow> bool" where
  "from_lineage E x res \<longleftrightarrow> (\<exists>y. lineage E x y \<and> signed_by res (fst y))"

definition lineage_identity :: "externs \<Rightarrow> bytes \<times> bytes \<Rightarrow> identity_state \<Rightarrow> bool" where
  "lineage_identity E x st \<longleftrightarrow> id_status st = IdentityPinned \<and> lineage E x (id_fingerprint st, id_pinned_key st)"

text \<open>A record in force: the one that was cached at first, or one made of a manifest of the lineage.\<close>

definition lineage_record :: "externs \<Rightarrow> manifest_record option \<Rightarrow> bytes \<times> bytes \<Rightarrow> manifest_record \<Rightarrow> bool" where
  "lineage_record E eff x rec \<longleftrightarrow> eff = Some rec \<or> (\<exists>res. rec = installed_record res \<and> from_lineage E x res)"

definition lineage_peer ::
  "externs \<Rightarrow> string \<Rightarrow> manifest_record option \<Rightarrow> bytes \<times> bytes \<Rightarrow> peer \<Rightarrow> bool" where
  "lineage_peer E d eff x p \<longleftrightarrow> pr_domain p = d \<and> lineage_identity E x (pr_identity p)
     \<and> (\<forall>rec. pr_effective p = Some rec \<longrightarrow> lineage_record E eff x rec)"

definition lineage_book ::
  "externs \<Rightarrow> string \<Rightarrow> manifest_record option \<Rightarrow> bytes \<times> bytes \<Rightarrow> book \<Rightarrow> bool" where
  "lineage_book E d eff x b \<longleftrightarrow> (\<exists>p. bk_peers b d = Some p \<and> lineage_peer E d eff x p)"

text \<open>What is handed out: a manifest of the lineage, or a cached record read back.\<close>

definition lineage_answer ::
  "externs \<Rightarrow> string \<Rightarrow> manifest_record option \<Rightarrow> bytes \<times> bytes \<Rightarrow> gerr + fetch_result \<Rightarrow> bool" where
  "lineage_answer E d eff x r \<longleftrightarrow> (\<forall>res. r = Inr res \<longrightarrow> from_lineage E x res
     \<or> (\<exists>rec. lineage_record E eff x rec \<and> resultOf E rec d = Inr res))"

lemma lineage_answer_simps [simp]:
  "lineage_answer E d eff x (Inl e)" "from_lineage E x res \<Longrightarrow> lineage_answer E d eff x (Inr res)"
  "lineage_record E eff x rec \<Longrightarrow> lineage_answer E d eff x (resultOf E rec d)"
  by (auto simp: lineage_answer_def)

lemma lineage_refl [simp]: "lineage E x x"
  by (simp add: lineage_def)

lemma lineage_step: "lineage E x y \<Longrightarrow> succeeds E y z \<Longrightarrow> lineage E x z"
  by (simp add: lineage_def)

lemma lineage_usable:
  "lineage_peer E d eff x p \<Longrightarrow> Usable (Some p) t = Some rec \<Longrightarrow> lineage_record E eff x rec"
  by (auto simp: lineage_peer_def Usable_def split: if_splits option.splits)

lemma lineage_pinned:
  "pinned_as b d fp key \<Longrightarrow> effective_of b d = eff \<Longrightarrow> lineage_book E d eff (fp, key) b"
  by (auto simp: pinned_as_def effective_of_def lineage_book_def lineage_peer_def lineage_identity_def
      lineage_record_def)

lemma lineage_keys: "same_keys q p \<Longrightarrow> lineage_peer E d eff x q = lineage_peer E d eff x p"
  by (auto simp: same_keys_def same_pin_def lineage_peer_def lineage_identity_def)

lemma lineage_soft: "kept_by_soft (lineage_book E d eff x)"
  unfolding kept_by_soft_def lineage_book_def
  by (auto elim!: soft_step.cases simp: book_peer_def lineage_keys [OF Observe_keys]
      lineage_keys [OF Fail_keys] split: if_splits) (auto simp: lineage_peer_def)

text \<open>What a service asks of a store to keep a lineage; reads do not fail.\<close>

locale lineage_store =
  fixes E :: externs and S :: "'s store_ops"
    and L :: "string \<Rightarrow> manifest_record option \<Rightarrow> bytes \<times> bytes \<Rightarrow> 's \<Rightarrow> bool"
  assumes l_soft: "canonical_domain E d \<Longrightarrow> soft_ops S d (L d eff x)"
    and l_get: "canonical_domain E d \<Longrightarrow> op_triple (L d eff x) (so_get S d)
      (\<lambda>r. \<exists>p. r = Inr (Some p) \<and> lineage_peer E d eff x p)"
    and l_identity: "canonical_domain E d \<Longrightarrow> lineage_identity E x st
      \<Longrightarrow> op_keeps (L d eff x) (so_set_identity S d st)"
    and l_install: "canonical_domain E d \<Longrightarrow> from_lineage E x res
      \<Longrightarrow> op_keeps (L d eff x) (so_install S d res)"
begin

lemmas l_ops = soft_ops_keep [OF l_soft] soft_keeps [OF l_soft] keeps_op [OF l_identity] keeps_op [OF l_install]

lemma successor_lineage:
  assumes c: "canonical_domain E d" and st: "lineage_identity E x st" and res: "from_lineage E x res"
  shows "triple (\<lambda>w. L d eff x (sv_store w)) (install_successor S d st res)
     (\<lambda>r w. (\<forall>r2. r = Some r2 \<longrightarrow> from_lineage E x r2) \<and> L d eff x (sv_store w))"
  unfolding install_successor_def
  by (rule triple_keep [OF keeps_op [OF l_identity [OF c st]]], rule triple_sum,
      rule triple_keep [OF keeps_still(4)], rule triple_return, simp,
      rule triple_keep [OF keeps_op [OF l_install [OF c res]]], rule triple_sum, rule triple_return, simp,
      rule triple_keep [OF l_ops(9) [OF c]], rule triple_keep [OF keeps_still(4)], rule triple_return)
    (simp add: res)

lemma follow_doc_lineage:
  assumes c: "canonical_domain E d" and p: "lineage_identity E x (pr_identity p)"
    and pf: "valid_proof res = Some pf"
  shows "triple (\<lambda>w. L d eff x (sv_store w)) (follow_doc E S d p pf res dc)
     (\<lambda>r w. (\<forall>r2. r = Some r2 \<longrightarrow> from_lineage E x r2) \<and> L d eff x (sv_store w))"
    (is "triple ?P _ ?Q")
proof -
  have stay: "triple ?P (State_Monad.return None) ?Q"
    by (rule triple_return) simp
  have quiet: "triple ?P (do { raise S d code t; State_Monad.return None }) ?Q" for code t
    by (rule triple_keep [OF l_ops(8) [OF c]]) (rule stay)
  have inst: "triple ?P (do { t \<leftarrow> svc_now;
       install_successor S d (rotated_identity (pr_identity p) walked res t) res }) ?Q"
    if w: "WalkChain E (id_fingerprint (pr_identity p)) (id_pinned_key (pr_identity p)) (dc_chain dc) now = (walked, e)"
      and e: "cr_fingerprint walked = pf_fingerprint pf" for now walked e
  proof (rule triple_keep [OF keeps_still(1)], rule successor_lineage [OF c])
    have "succeeds E (id_fingerprint (pr_identity p), id_pinned_key (pr_identity p))
        (cr_fingerprint walked, cr_public_key walked)"
      using WalkChain_descends [OF w] by (auto simp: succeeds_def)
    then have l: "lineage E x (cr_fingerprint walked, cr_public_key walked)"
      using p by (auto simp: lineage_identity_def intro: lineage_step)
    then show "lineage_identity E x (rotated_identity (pr_identity p) walked res t)" for t
      by (simp add: lineage_identity_def rotated_identity_def Let_def)
    show "from_lineage E x res"
      using l e pf by (auto simp: from_lineage_def signed_by_def intro!: exI [of _ "(cr_fingerprint walked, cr_public_key walked)"])
  qed
  show ?thesis
    unfolding follow_doc_def
    by (rule triple_keep [OF keeps_still(1)], rule triple_prod, rule triple_option)
      (intro triple_if quiet stay inst | simp)+
qed

lemma follow_lineage:
  assumes c: "canonical_domain E d" and p: "lineage_identity E x (pr_identity p)"
    and pf: "valid_proof res = Some pf"
  shows "triple (\<lambda>w. L d eff x (sv_store w)) (followRotation E S R d a (Some p) res)
     (\<lambda>r w. (\<forall>r2. r = Some r2 \<longrightarrow> from_lineage E x r2) \<and> L d eff x (sv_store w))"
    (is "triple ?P _ ?Q")
proof -
  have stay: "triple ?P (State_Monad.return None) ?Q"
    by (rule triple_return) simp
  have pr: "rs_proof res = Some pf" using pf by (simp add: valid_proof_def split: if_splits)
  show ?thesis
  proof (cases "rv_chain R")
    case None
    then show ?thesis using stay by (simp add: followRotation_def)
  next
    case (Some f)
    show ?thesis
      unfolding followRotation_def Some pr
      by (simp, intro triple_if conjI impI stay, rule triple_keep [OF keeps_still(2)], rule triple_sum,
          rule triple_keep [OF keeps_still(4)], rule stay, rule follow_doc_lineage [OF c p pf])
  qed
qed

text \<open>An answer is of the lineage unless the sender accepted an unpinned identity.\<close>

lemma refuse_lineage:
  assumes c: "canonical_domain E d" and p: "lineage_peer E d eff x p"
  shows "triple (\<lambda>w. L d eff x (sv_store w)) (refuse E S d (Some p) res v acc)
     (\<lambda>r w. (\<not> acc \<longrightarrow> lineage_answer E d eff x r) \<and> L d eff x (sv_store w))"
  unfolding refuse_def
  by (rule triple_keep [OF l_ops(3) [OF c]], rule triple_keep [OF keeps_still_more(1)],
      rule triple_keep [OF l_ops(8) [OF c]], rule triple_keep [OF keeps_still(4)], intro triple_if,
      rule triple_keep [OF keeps_still(1)], rule triple_return)
    (auto intro!: triple_return split: option.splits dest: lineage_usable [OF p])

lemma install_lineage:
  assumes c: "canonical_domain E d" and res: "from_lineage E x res"
  shows "triple (\<lambda>w. L d eff x (sv_store w)) (install_accepted S d res)
     (\<lambda>r w. lineage_answer E d eff x r \<and> L d eff x (sv_store w))"
  unfolding install_accepted_def
  by (rule triple_keep [OF keeps_op [OF l_install [OF c res]]], rule triple_sum, rule triple_return, simp,
      rule triple_keep [OF l_ops(9) [OF c]], rule triple_return) (simp add: res)

lemma commit_lineage:
  assumes c: "canonical_domain E d" and p: "lineage_peer E d eff x p"
    and v: "v = DecideIdentity (Some p) res f has cu"
  shows "triple (\<lambda>w. L d eff x (sv_store w)) (commit E S R d a acc res (Some p) v)
     (\<lambda>r w. (\<not> acc \<longrightarrow> lineage_answer E d eff x r) \<and> L d eff x (sv_store w))"
    (is "triple ?P _ ?Q")
proof -
  have id: "lineage_identity E x (pr_identity p)" using p by (simp add: lineage_peer_def)
  then have pin: "id_status (pr_identity p) = IdentityPinned" by (simp add: lineage_identity_def)
  have hold: "triple ?P (persistenceHold d what e) ?Q" for what e
    unfolding persistenceHold_def by (rule triple_keep [OF keeps_still(4)], rule triple_return) simp
  have set: "keeps ?P (on_store (so_set_identity S d (ApplyIdentity (pr_identity p) v res t)))" for t
  proof (rule keeps_op [OF l_identity [OF c]])
    show "lineage_identity E x (ApplyIdentity (pr_identity p) v res t)"
      using ApplyIdentity_pinned [OF pin, of v res t] id by (simp add: lineage_identity_def same_pin_def)
  qed
  have follow: "triple ?P (if vd_reason v = ''pinned/valid-proof-other-signer''
        then followRotation E S R d a (Some p) res else State_Monad.return None)
      (\<lambda>r w. (\<forall>r2. r = Some r2 \<longrightarrow> from_lineage E x r2) \<and> ?P w)"
  proof (rule triple_if)
    assume "vd_reason v = ''pinned/valid-proof-other-signer''"
    then obtain pf where "valid_proof res = Some pf"
      using DecideIdentity_other_signer [of "Some p" res f has cu] by (auto simp: v)
    then show "triple ?P (followRotation E S R d a (Some p) res)
       (\<lambda>r w. (\<forall>r2. r = Some r2 \<longrightarrow> from_lineage E x r2) \<and> ?P w)"
      by (rule follow_lineage [OF c id])
  qed (rule triple_return, simp)
  have acc: "from_lineage E x res" if "vd_accept v"
  proof -
    have "signed_by res (id_fingerprint (pr_identity p))"
      using that pin by (auto simp: v DecideIdentity_accept state_of_def signed_by_def)
    then show ?thesis
      using id by (auto simp: from_lineage_def lineage_identity_def
          intro!: exI [of _ "(id_fingerprint (pr_identity p), id_pinned_key (pr_identity p))"])
  qed
  have installed: "triple ?P (install_accepted S d res) ?Q" if "vd_accept v"
    by (rule triple_post [OF install_lineage [OF c acc [OF that]]]) simp
  show ?thesis
    unfolding commit_def identityOf_def option.case
    by (rule triple_keep [OF keeps_still(1)], rule triple_keep [OF set], rule triple_sum, rule hold,
        rule triple_if, rule triple_bind [OF follow], rule triple_pure, rule triple_option,
        rule refuse_lineage [OF c p], rule triple_return, simp, rule installed, simp)
qed

lemma settle_lineage:
  assumes c: "canonical_domain E d"
  shows "triple (\<lambda>w. L d eff x (sv_store w)) (settle E S R d a acc res)
     (\<lambda>r w. (\<not> acc \<longrightarrow> lineage_answer E d eff x r) \<and> L d eff x (sv_store w))"
    (is "triple ?P _ ?Q")
proof -
  have hold: "triple ?P (persistenceHold d what e) ?Q" for what e
    unfolding persistenceHold_def by (rule triple_keep [OF keeps_still(4)], rule triple_return) simp
  show ?thesis
    unfolding settle_def Let_def
  proof (rule triple_bind [OF triple_op [OF l_get [OF c]]], rule triple_pure)
    fix g :: "gerr + peer option" assume "\<exists>p. g = Inr (Some p) \<and> lineage_peer E d eff x p"
    then obtain p where g: "g = Inr (Some p)" and p: "lineage_peer E d eff x p" by blast
    show "triple ?P
       (do { v \<leftarrow> decide (case g of Inl _ \<Rightarrow> None | Inr p \<Rightarrow> p) res;
             m \<leftarrow> on_store (so_mark_validated S d (rs_fetched_at res));
             case m of Inl e \<Rightarrow> persistenceHold d ''capability latch'' e
             | Inr _ \<Rightarrow> commit E S R d a acc res (case g of Inl _ \<Rightarrow> None | Inr p \<Rightarrow> p) v }) ?Q"
      unfolding g sum.case decide_def option.case State_Monad.bind_assoc
      by (rule triple_keep [OF keeps_still(1)], simp only: State_Monad.bind_left_identity,
          rule triple_keep [OF l_ops(7) [OF c]], rule triple_sum, rule hold,
          rule commit_lineage [OF c p], rule refl)
  qed
qed

lemma cached_lineage:
  assumes c: "canonical_domain E d"
  shows "triple (\<lambda>w. L d eff x (sv_store w)) (cached_answer E S d)
     (\<lambda>r w. (\<forall>y. r = Some y \<longrightarrow> lineage_answer E d eff x y) \<and> L d eff x (sv_store w))"
    (is "triple ?P _ ?Q")
  unfolding cached_answer_def
proof (rule triple_bind [OF triple_op [OF l_get [OF c]]], rule triple_pure)
  fix g :: "gerr + peer option" assume "\<exists>p. g = Inr (Some p) \<and> lineage_peer E d eff x p"
  then obtain p where g: "g = Inr (Some p)" and p: "lineage_peer E d eff x p" by blast
  show "triple ?P
     (case g of Inl _ \<Rightarrow> State_Monad.return None
      | Inr None \<Rightarrow> State_Monad.return None
      | Inr (Some p) \<Rightarrow>
          if pr_policy p = PolicyDisabled then State_Monad.return (Some (Inl (Sentinel ErrDisabled)))
          else do { t1 \<leftarrow> svc_now;
                    if fst (NeedsRefresh (Some p) t1) then State_Monad.return None
                    else do { t2 \<leftarrow> svc_now;
                              State_Monad.return
                                (map_option (\<lambda>rec. resultOf E rec d) (Usable (Some p) t2)) } }) ?Q"
    unfolding g sum.case option.case
    by (rule triple_if, rule triple_return, simp, rule triple_keep [OF keeps_still(1)], rule triple_if,
        rule triple_return, simp, rule triple_keep [OF keeps_still(1)], rule triple_return)
      (auto dest: lineage_usable [OF p])
qed

lemma resolve_lineage:
  assumes c: "canonical_domain E d"
  shows "triple (\<lambda>w. L d eff x (sv_store w)) (resolve E S R d force acc)
     (\<lambda>r w. (\<not> acc \<longrightarrow> lineage_answer E d eff x r) \<and> L d eff x (sv_store w))"
    (is "triple ?P _ ?Q")
proof -
  have cached: "triple ?P (if force then State_Monad.return None else cached_answer E S d)
     (\<lambda>r w. (\<forall>y. r = Some y \<longrightarrow> lineage_answer E d eff x y) \<and> ?P w)"
    by (intro triple_if triple_return cached_lineage c) simp
  show ?thesis
    unfolding resolve_def
    by (rule triple_bind [OF cached], rule triple_pure, rule triple_option,
        rule triple_keep [OF l_ops(10) [OF c]], rule triple_keep [OF keeps_still(2)], rule triple_sum,
        rule triple_keep [OF l_ops(3) [OF c]], rule triple_sum, rule triple_return, simp,
        rule triple_keep [OF l_ops(8) [OF c]], rule triple_return, simp, rule settle_lineage [OF c],
        rule triple_return) simp
qed

lemma outbound_lineage:
  assumes c: "canonical_domain E d"
  shows "triple (\<lambda>w. L d eff x (sv_store w)) (resolveForEncryption E S R d acc)
     (\<lambda>rp w. (\<not> acc \<longrightarrow> lineage_answer E d eff x (fst rp)) \<and> L d eff x (sv_store w))"
    (is "triple ?P _ ?Q")
  unfolding resolveForEncryption_def
proof (rule triple_bind [OF triple_op [OF l_get [OF c]]], rule triple_pure)
  fix g :: "gerr + peer option" assume "\<exists>p. g = Inr (Some p) \<and> lineage_peer E d eff x p"
  then obtain p where g: "g = Inr (Some p)" and p: "lineage_peer E d eff x p" by blast
  have dom: "pr_domain p = d" using p by (simp add: lineage_peer_def)
  show "triple ?P
     (case g of Inl e \<Rightarrow> State_Monad.return (Inl e, None)
      | Inr p \<Rightarrow>
        if (case p of Some q \<Rightarrow> pr_policy q = PolicyDisabled | None \<Rightarrow> False)
        then State_Monad.return (Inl (Sentinel ErrDisabled), p)
        else
          do { now \<leftarrow> svc_now;
               case Usable p now of
                 Some rec \<Rightarrow>
                   if \<not> fst (NeedsRefresh p now)
                   then State_Monad.return (resultOf E rec (pr_domain (the p)), p)
                   else
                     do { r \<leftarrow> resolve E S R d False acc;
                          State_Monad.return (case r of
                              Inr res \<Rightarrow> (Inr res, p)
                            | Inl _ \<Rightarrow> (resultOf E rec (pr_domain (the p)), p)) }
               | None \<Rightarrow>
                   do { r \<leftarrow> resolve E S R d False acc;
                        State_Monad.return (r, p) } }) ?Q"
    unfolding g sum.case option.case option.sel dom
    by (rule triple_if, rule triple_return, simp, rule triple_keep [OF keeps_still(1)], rule triple_option,
        rule triple_bind [OF resolve_lineage [OF c]], rule triple_return, simp,
        rule triple_if, rule triple_return, simp add: lineage_usable [OF p],
        rule triple_bind [OF resolve_lineage [OF c]], rule triple_return)
      (auto split: sum.splits dest: lineage_usable [OF p])
qed

text \<open>Every entry of the outbound path keeps the lineage; without an override by the sender what
  it hands out is of the lineage too.\<close>

lemma encrypting_lineage:
  assumes c: "canonical_domain E d" and n: "NormalizeDomain E domain = Inr d"
  shows "triple (\<lambda>w. L d eff x (sv_store w)) (resolveEncrypting E S R domain acc)
     (\<lambda>r w. (\<not> acc \<longrightarrow> lineage_answer E d eff x r) \<and> L d eff x (sv_store w))"
  unfolding resolveEncrypting_def n sum.case
  by (rule triple_bind [OF outbound_lineage [OF c]], rule triple_pure, rule triple_prod, rule triple_sum,
      rule triple_keep [OF l_ops(13) [OF c]], rule triple_return, simp, rule triple_return, simp)

lemma among_lineage: "lineage_store E (crowd_store S) (\<lambda>d eff x. crowd_keeps (L d eff x))"
  by unfold_locales
    (simp_all only: crowd_sel crowd_soft [unfolded crowd_sel] l_soft among_op l_get l_identity l_install)

end

text \<open>A store under the contract whose reads do not fail keeps the lineage of a pin.\<close>

locale reliable_store = store_contract E S view
  for E :: externs and S :: "'s store_ops" and view :: "'s \<Rightarrow> book" +
  assumes reliable: "reads_ok E S"

sublocale reliable_store \<subseteq> line: lineage_store E S "\<lambda>d eff x s. lineage_book E d eff x (view s)"
proof
  fix d eff x assume c: "canonical_domain E d"
  show "soft_ops S d (\<lambda>s. lineage_book E d eff x (view s))"
    by (rule soft_kept [OF c lineage_soft])
  show "op_triple (\<lambda>s. lineage_book E d eff x (view s)) (so_get S d)
      (\<lambda>r. \<exists>p. r = Inr (Some p) \<and> lineage_peer E d eff x p)"
  proof (rule op_tripleI)
    fix s r s' assume l: "lineage_book E d eff x (view s)" and run: "so_get S d s = (r, s')"
    have "r \<noteq> Inl e" for e
      using reliable [unfolded reads_ok_def, rule_format, OF c, of s e] run by simp
    with get [OF c, of s] l run
    show "(\<exists>p. r = Inr (Some p) \<and> lineage_peer E d eff x p) \<and> lineage_book E d eff x (view s')"
      by (cases r) (auto simp: outcome_def lineage_book_def lineage_keys [OF Reconcile_keys])
  qed
  show "op_keeps (\<lambda>s. lineage_book E d eff x (view s)) (so_set_identity S d st)"
    if "lineage_identity E x st" for st
    by (rule op_keeps_outcome [OF set_identity [OF c]])
      (use that in \<open>auto simp: lineage_book_def identity_stored_def lineage_peer_def\<close>)
  show "op_keeps (\<lambda>s. lineage_book E d eff x (view s)) (so_install S d res)"
    if "from_lineage E x res" for res
    by (rule op_keeps_outcome [OF install [OF c]])
      (use that in \<open>auto simp: lineage_book_def book_peer_def lineage_peer_def lineage_record_def\<close>)
qed

context reliable_store
begin

lemma lineage_view: "lineage_store E S (\<lambda>d eff x s. lineage_book E d eff x (view s))"
  by (rule line.lineage_store_axioms)

end

interpretation reliable: reliable_store E "mem_store E" book_of
  by unfold_locales (rule mem_reads_ok)

interpretation family: lineage_store E "crowd_store (mem_store E)"
    "\<lambda>d eff x. crowd_keeps (\<lambda>s. lineage_book E d eff x (book_of s))"
  by (rule lineage_store.among_lineage) (rule reliable.lineage_view)


section \<open>What the lineage does not cover\<close>

text \<open>
  The decision of \<^verbatim>\<open>resolve\<close> rests on the record it read before, and nothing ties the write to
  that reading.  Two first contacts with a domain are each decided as a first contact; the one
  that commits later replaces the pin the other has just set, whatever identity that was,
  although the same fetch is refused once it is decided on a pinned record.
\<close>

definition names_itself :: "string \<Rightarrow> book \<Rightarrow> bool" where
  "names_itself d b \<longleftrightarrow> (\<forall>p. bk_peers b d = Some p \<longrightarrow> pr_domain p = d)"

lemma first_contact_decision:
  assumes "valid_proof res = Some pf" and "fresh zero_identity res"
  shows "DecideIdentity None res zero32 False False =
     zero_verdict\<lparr>vd_encrypt := True, vd_accept := True, vd_pin := pf_fingerprint pf, vd_has_pin := True,
       vd_status := IdentityPinned, vd_reason := ''unpinned/pin-established''\<rparr>"
proof -
  have "fresh (zero_identity\<lparr>id_status := IdentityUnpinned\<rparr>) res"
    using assms(2) by (simp add: fresh_def)
  with assms(1) show ?thesis
    by (simp add: DecideIdentity_def Let_def valid_proof_def after_fresh zero_verdict_def zero_identity_def
        split: if_splits)
qed

context store_contract
begin

lemma late_first_contact:
  assumes c: "canonical_domain E d" and pf: "valid_proof res = Some pf" and fr: "fresh zero_identity res"
  shows "triple (\<lambda>w. names_itself d (book_at view w))
     (commit E S R d a False res None (DecideIdentity None res zero32 False False))
     (\<lambda>r w. is_ok r \<longrightarrow> pinned_as (book_at view w) d (pf_fingerprint pf) (pf_public_key pf))"
proof -
  let ?v = "DecideIdentity None res zero32 False False"
  let ?I = "\<lambda>b. pinned_as b d (pf_fingerprint pf) (pf_public_key pf)"
  note v = first_contact_decision [OF pf fr]
  have pr: "rs_proof res = Some pf" using pf by (simp add: valid_proof_def split: if_splits)
  have st: "id_status (ApplyIdentity zero_identity ?v res t) = IdentityPinned
      \<and> id_fingerprint (ApplyIdentity zero_identity ?v res t) = pf_fingerprint pf
      \<and> id_pinned_key (ApplyIdentity zero_identity ?v res t) = pf_public_key pf" for t
    by (simp add: v ApplyIdentity_def Let_def pr zero_identity_def zero_verdict_def)
  have set: "triple (\<lambda>w. names_itself d (book_at view w))
      (on_store (so_set_identity S d (ApplyIdentity zero_identity ?v res t)))
      (\<lambda>r w. is_ok r \<longrightarrow> ?I (book_at view w))" for t
    by (rule triple_store [OF set_identity [OF c]])
      (use st in \<open>auto simp: pinned_as_def identity_stored_def names_itself_def split: option.splits\<close>)
  have soft: "kept_by_soft ?I"
    unfolding kept_by_soft_def using soft_step_pin(1) by blast
  have inst: "keeps (\<lambda>w. ?I (book_at view w)) (on_store (so_install S d res))"
    by (rule keeps_store [OF install [OF c]]) (auto simp: pinned_as_def book_peer_def)
  have installed: "triple (\<lambda>w. ?I (book_at view w)) (install_accepted S d res)
      (\<lambda>r w. is_ok r \<longrightarrow> ?I (book_at view w))"
    unfolding install_accepted_def
    by (rule triple_keep [OF inst], rule triple_sum, rule triple_return, simp,
        rule triple_keep [OF keeps_clear [OF c soft]], rule triple_return) simp
  have acc: "vd_accept ?v" by (simp add: v)
  show ?thesis
    unfolding commit_def identityOf_def option.case
    by (rule triple_keep [OF keeps_local(1)], rule triple_bind [OF set], rule triple_sum)
      (simp add: persistenceHold_def, rule triple_keep [OF keeps_local(4) [where I = "\<lambda>_. True"], THEN triple_weaken],
       rule triple_return, simp_all add: acc installed)
qed

end

section \<open>A busy world\<close>

text \<open>While one goroutine resolves, another resolves the same domain between any two calls, and a
  third records a failure.\<close>

definition busy_turn :: "nat \<Rightarrow> memstore \<Rightarrow> memstore" where
  "busy_turn n s =
     (if even n then snd (RecordFailure inst example_com (Some (Msg ''busy'')) s)
      else sv_store (snd (run_state (ResolveForEncryption inst demo_store demo_resolver example_com)
             (demo_world\<lparr>sv_store := s\<rparr>))))"

definition busy_world :: "(memstore crowd, unit) service" where
  "busy_world = new_service every_callback \<lparr>cw_store = demo_mem, cw_others = busy_turn, cw_calls = []\<rparr> () (\<lambda>n. 7) 4 second 8 second"

lemma busy_sel [simp]: "cw_store (sv_store busy_world) = demo_mem" "cw_others (sv_store busy_world) = busy_turn"
  "cw_calls (sv_store busy_world) = []"
  by (simp_all add: busy_world_def new_service_def)

lemma demo_book: "book_of demo_mem = book_at book_of demo_world"
  by (simp add: demo_world_def new_service_def book_at_def)

lemma busy_turn_keeps:
  assumes "keeps (\<lambda>w. J (sv_store w))
      (ResolveForEncryption inst demo_store demo_resolver example_com :: (memstore, unit, gerr + fetch_result) svc)"
    and "op_keeps J (so_record_failure demo_store example_com (Some (Msg ''busy'')))" and "J s"
  shows "J (busy_turn n s)"
proof -
  have "J (sv_store (snd (run_state (ResolveForEncryption inst demo_store demo_resolver example_com)
      (demo_world\<lparr>sv_store := s\<rparr>))))"
    using assms(1,3) by (simp add: keeps_def triple_def)
  moreover have "J (snd (RecordFailure inst example_com (Some (Msg ''busy'')) s))"
    using assms(2,3) by (simp add: op_triple_def mem_store_def)
  ultimately show ?thesis by (simp add: busy_turn_def)
qed

lemma busy_steps: "book_step\<^sup>*\<^sup>* (book_of s) (book_of (cw_others (sv_store busy_world) n s))"
proof -
  have k: "kept_by_steps (book_step\<^sup>*\<^sup>* (book_of s))"
    by (auto simp: kept_by_steps_def)
  note h = store_contract.hard_kept [OF demo_contract demo_canonical k]
  have "keeps (\<lambda>w. book_step\<^sup>*\<^sup>* (book_of s) (book_of (sv_store w)))
      (ResolveForEncryption inst demo_store demo_resolver example_com :: (memstore, unit, gerr + fetch_result) svc)"
    unfolding ResolveForEncryption_def resolveEncrypting_def normalize_example sum.case
    by (intro keeps_rules hard_keeps(8) [OF h] soft_keeps(6) [OF hard_soft [OF h]])
  then have "book_step\<^sup>*\<^sup>* (book_of s) (book_of (busy_turn n s))"
    by (rule busy_turn_keeps) (use hard_soft [OF h] in \<open>simp_all add: soft_ops_def\<close>)
  then show ?thesis by simp
qed

lemma busy_guarded: "guarded example_com (book_of (cw_store (sv_store busy_world)))"
  using demo_guarded by (simp add: demo_book)

lemma busy_lineage: "lineage_book inst example_com None (zero32, zero32) (book_of (cw_store (sv_store busy_world)))"
  using lineage_pinned [OF demo_pinned demo_effective] by (simp add: demo_book)

lemma busy_others:
  assumes "lineage_book inst example_com None (zero32, zero32) (book_of s)"
  shows "lineage_book inst example_com None (zero32, zero32) (book_of (cw_others (sv_store busy_world) n s))"
proof -
  let ?J = "\<lambda>s. lineage_book inst example_com None (zero32, zero32) (book_of s)"
  have "keeps (\<lambda>w. ?J (sv_store w))
      (ResolveForEncryption inst demo_store demo_resolver example_com :: (memstore, unit, gerr + fetch_result) svc)"
    unfolding ResolveForEncryption_def keeps_def
    by (rule triple_post [OF lineage_store.encrypting_lineage [OF reliable.lineage_view demo_canonical normalize_example]]) simp
  then have "?J (busy_turn n s)"
    by (rule busy_turn_keeps)
      (use lineage_store.l_soft [OF reliable.lineage_view demo_canonical] assms in \<open>simp_all add: soft_ops_def\<close>)
  then show ?thesis by simp
qed

end
