(* ===== verification/Header.thy ===== *)
theory Header
  imports Discovery Base64
begin

text \<open>
  \<^verbatim>\<open>message/header.go\<close>: header fields of a message, read and edited as bytes.  The loops
  consume the message line by line; the lemmas below compare each with a reference on the
  list of lines.
\<close>

abbreviation CRLF :: bytes where "CRLF \<equiv> [CHR 0x0D, CHR 0x0A]"

section \<open>Lines\<close>

definition nextLine :: "bytes \<Rightarrow> bytes \<times> bytes" where
  "nextLine b =
     (if CHR 0x0A \<in> set b
      then (takeWhile (\<lambda>c. c \<noteq> CHR 0x0A) b @ [CHR 0x0A], tl (dropWhile (\<lambda>c. c \<noteq> CHR 0x0A) b))
      else (b, []))"

definition isContinuation :: "bytes \<Rightarrow> bool" where
  "isContinuation line \<longleftrightarrow> length line > 0 \<and> (hd line = CHR '' '' \<or> hd line = CHR 0x09)"

text \<open>\<^verbatim>\<open>len(bytes.TrimRight(line, CRLF)) == 0\<close>.\<close>

definition is_crlf :: "char \<Rightarrow> bool" where
  "is_crlf c \<longleftrightarrow> c = CHR 0x0D \<or> c = CHR 0x0A"

definition blank_line :: "bytes \<Rightarrow> bool" where
  "blank_line line \<longleftrightarrow> dropWhile is_crlf (rev line) = []"

lemma nextLine_at: "CHR 0x0A \<notin> set x \<Longrightarrow> nextLine (x @ CHR 0x0A # y) = (x @ [CHR 0x0A], y)"
proof -
  assume "CHR 0x0A \<notin> set x"
  then have "takeWhile (\<lambda>c. c \<noteq> CHR 0x0A) (x @ CHR 0x0A # y) = x"
    "dropWhile (\<lambda>c. c \<noteq> CHR 0x0A) (x @ CHR 0x0A # y) = CHR 0x0A # y"
    by (induction x) auto
  then show ?thesis by (simp add: nextLine_def)
qed

lemma nextLine_append: "fst (nextLine b) @ snd (nextLine b) = b"
proof (cases "CHR 0x0A \<in> set b")
  case True
  then obtain x y where "b = x @ CHR 0x0A # y" "CHR 0x0A \<notin> set x" using split_list_first by metis
  then show ?thesis by (simp add: nextLine_at)
qed (simp add: nextLine_def)

lemma nextLine_length: "b \<noteq> [] \<Longrightarrow> length (snd (nextLine b)) < length b"
  using arg_cong [OF nextLine_append, of length b] by (auto simp: nextLine_def split: if_splits)

lemma nextLine_tail: "(l, t) = nextLine b \<Longrightarrow> b \<noteq> [] \<Longrightarrow> length t < length b"
  using nextLine_length [of b] by (metis snd_conv)

section \<open>The loops\<close>

function split_from :: "bytes \<Rightarrow> nat \<Rightarrow> bytes \<Rightarrow> bytes \<times> bytes" where
  "split_from raw i rest =
     (if rest = [] then (raw, [])
      else case nextLine rest of (line, tail) \<Rightarrow>
        if blank_line line then (take i raw, tail)
        else split_from raw (i + length line) tail)"
  by pat_completeness auto
termination by (relation "measure (length \<circ> snd \<circ> snd)") (auto dest: nextLine_tail)

definition SplitHeaderBody :: "bytes \<Rightarrow> bytes \<times> bytes" where
  "SplitHeaderBody raw = split_from raw 0 raw"

definition field_prefix :: "externs \<Rightarrow> string \<Rightarrow> bytes" where
  "field_prefix E name = to_lower (ex_lower E) name @ '':''"

definition is_field :: "externs \<Rightarrow> bytes \<Rightarrow> bytes \<Rightarrow> bool" where
  "is_field E pre line \<longleftrightarrow> starts_with pre (to_lower (ex_lower E) line)"

function value_loop :: "externs \<Rightarrow> bytes \<Rightarrow> bool \<Rightarrow> bytes \<Rightarrow> bytes \<Rightarrow> bytes" where
  "value_loop E pre collecting v rest =
     (if rest = [] then trim_space v
      else case nextLine rest of (line, tail) \<Rightarrow>
        if blank_line line then trim_space v
        else if collecting \<and> isContinuation line
          then value_loop E pre collecting (v @ CHR '' '' # trim_space line) tail
        else if collecting then trim_space v
        else if is_field E pre line
          then value_loop E pre True (v @ trim_space (drop (length pre) line)) tail
        else value_loop E pre collecting v tail)"
  by pat_completeness auto
termination by (relation "measure (\<lambda>(_, _, _, _, rest). length rest)") (auto dest: nextLine_tail)

definition HeaderValue :: "externs \<Rightarrow> bytes \<Rightarrow> string \<Rightarrow> string" where
  "HeaderValue E raw name = value_loop E (field_prefix E name) False [] raw"

text \<open>\<open>None\<close> is the nil buffer: nothing was copied yet.\<close>

function remove_loop :: "externs \<Rightarrow> bytes \<Rightarrow> bytes \<Rightarrow> bytes option \<Rightarrow> bool \<Rightarrow> bytes \<Rightarrow> bytes" where
  "remove_loop E pre raw out dropping rest =
     (if rest = [] then (case out of None \<Rightarrow> raw | Some b \<Rightarrow> b)
      else case nextLine rest of (line, tail) \<Rightarrow>
        if blank_line line then (case out of None \<Rightarrow> raw | Some b \<Rightarrow> b @ rest)
        else if isContinuation line \<and> dropping then remove_loop E pre raw out dropping tail
        else
          let dropping = (if isContinuation line then dropping else is_field E pre line);
              b = (case out of None \<Rightarrow> take (length raw - length rest) raw | Some b \<Rightarrow> b)
          in remove_loop E pre raw (Some (if dropping then b else b @ line)) dropping tail)"
  by pat_completeness auto
termination by (relation "measure (\<lambda>(_, _, _, _, _, rest). length rest)") (auto dest: nextLine_tail)

declare split_from.simps [simp del] value_loop.simps [simp del] remove_loop.simps [simp del]

definition RemoveHeader :: "externs \<Rightarrow> bytes \<Rightarrow> string \<Rightarrow> bytes" where
  "RemoveHeader E raw name = remove_loop E (field_prefix E name) raw None False raw"

definition SetHeader :: "externs \<Rightarrow> bytes \<Rightarrow> string \<Rightarrow> string \<Rightarrow> bytes" where
  "SetHeader E raw name v = (name @ '': '' @ v @ CRLF) @ RemoveHeader E raw name"

section \<open>A message as its lines\<close>

function lines_of :: "bytes \<Rightarrow> bytes list" where
  "lines_of b = (if b = [] then [] else fst (nextLine b) # lines_of (snd (nextLine b)))"
  by pat_completeness auto
termination by (relation "measure length") (auto dest: nextLine_length)

declare lines_of.simps [simp del]

lemma lines_of_Nil [simp]: "lines_of [] = []"
  by (simp add: lines_of.simps)

lemma lines_of_eq: "b \<noteq> [] \<Longrightarrow> lines_of b = fst (nextLine b) # lines_of (snd (nextLine b))"
  by (simp add: lines_of.simps)

lemma concat_lines_of [simp]: "concat (lines_of b) = b"
proof (induction b rule: lines_of.induct)
  case (1 b)
  then show ?case by (cases "b = []") (simp_all add: lines_of_eq nextLine_append)
qed

definition terminated :: "bytes \<Rightarrow> bool" where
  "terminated l \<longleftrightarrow> (\<exists>w. l = w @ [CHR 0x0A] \<and> CHR 0x0A \<notin> set w)"

lemma lines_of_terminated: "terminated l \<Longrightarrow> lines_of (l @ s) = l # lines_of s"
proof -
  assume "terminated l"
  then obtain w where "l = w @ [CHR 0x0A]" "CHR 0x0A \<notin> set w" by (auto simp: terminated_def)
  then show ?thesis by (subst lines_of_eq) (simp_all add: nextLine_at)
qed

text \<open>Lines as splitting leaves them: all end in a line feed, but perhaps the last.\<close>

fun wf_lines :: "bytes list \<Rightarrow> bool" where
  "wf_lines [] = True"
| "wf_lines [l] = (terminated l \<or> l \<noteq> [] \<and> CHR 0x0A \<notin> set l)"
| "wf_lines (l # m # ls) = (terminated l \<and> wf_lines (m # ls))"

lemma wf_lines_Cons: "wf_lines (l # ls) \<longleftrightarrow>
  (if ls = [] then terminated l \<or> l \<noteq> [] \<and> CHR 0x0A \<notin> set l else terminated l \<and> wf_lines ls)"
  by (cases ls) auto

lemma lines_of_concat: "wf_lines ls \<Longrightarrow> lines_of (concat ls) = ls"
proof (induction ls)
  case (Cons l ls)
  then show ?case
    by (auto simp: wf_lines_Cons lines_of_terminated lines_of_terminated [of l "[]", simplified] lines_of_eq nextLine_def
        split: if_splits)
qed simp

lemma wf_lines_of: "wf_lines (lines_of b)"
proof (induction b rule: lines_of.induct)
  case (1 b)
  show ?case
  proof (cases "CHR 0x0A \<in> set b")
    case True
    then obtain x y where b: "b = x @ CHR 0x0A # y" "CHR 0x0A \<notin> set x" using split_list_first by metis
    then have "nextLine b = (x @ [CHR 0x0A], y)" by (simp add: nextLine_at)
    moreover have "terminated (x @ [CHR 0x0A])" using b by (auto simp: terminated_def)
    ultimately show ?thesis using 1 b by (simp add: lines_of_eq wf_lines_Cons)
  next
    case False
    then show ?thesis by (cases "b = []") (simp_all add: lines_of_eq nextLine_def)
  qed
qed

lemma wf_lines_tail: "wf_lines (l # ls) \<Longrightarrow> wf_lines ls"
  by (cases ls) auto

lemma wf_lines_keep: "wf_lines (l # ls) \<Longrightarrow> wf_lines rs \<Longrightarrow> (ls = [] \<Longrightarrow> rs = []) \<Longrightarrow> wf_lines (l # rs)"
  by (auto simp: wf_lines_Cons split: if_splits)

section \<open>References on lines\<close>

definition header_lines :: "bytes list \<Rightarrow> bytes list" where
  "header_lines ls = takeWhile (\<lambda>l. \<not> blank_line l) ls"

fun value_of_lines :: "externs \<Rightarrow> bytes \<Rightarrow> bool \<Rightarrow> bytes \<Rightarrow> bytes list \<Rightarrow> bytes" where
  "value_of_lines E pre c v [] = trim_space v"
| "value_of_lines E pre c v (l # ls) =
     (if blank_line l then trim_space v
      else if c \<and> isContinuation l then value_of_lines E pre c (v @ CHR '' '' # trim_space l) ls
      else if c then trim_space v
      else if is_field E pre l then value_of_lines E pre True (v @ trim_space (drop (length pre) l)) ls
      else value_of_lines E pre c v ls)"

fun remove_lines :: "externs \<Rightarrow> bytes \<Rightarrow> bool \<Rightarrow> bytes list \<Rightarrow> bytes list" where
  "remove_lines E pre d [] = []"
| "remove_lines E pre d (l # ls) =
     (if blank_line l then l # ls
      else if isContinuation l \<and> d then remove_lines E pre d ls
      else if (if isContinuation l then d else is_field E pre l) then remove_lines E pre True ls
      else l # remove_lines E pre False ls)"

lemma value_loop_lines: "value_loop E pre c v b = value_of_lines E pre c v (lines_of b)"
proof (induction E pre c v b rule: value_loop.induct)
  case (1 E pre c v b)
  obtain l t where n: "nextLine b = (l, t)" by force
  show ?case
    using 1 n by (cases "b = []") (simp_all add: value_loop.simps [of E pre c v] lines_of_eq)
qed

lemma HeaderValue_lines: "HeaderValue E raw name = value_of_lines E (field_prefix E name) False [] (lines_of raw)"
  by (simp add: HeaderValue_def value_loop_lines)

lemma remove_loop_lines:
  "remove_loop E pre raw (Some b) d rest = b @ concat (remove_lines E pre d (lines_of rest))"
proof (induction "length rest" arbitrary: b d rest rule: less_induct)
  case less
  obtain l t where n: "nextLine rest = (l, t)" by force
  show ?case
  proof (cases "rest = []")
    case True
    then show ?thesis by (simp add: remove_loop.simps)
  next
    case False
    have t: "length t < length rest" using nextLine_tail [OF n [symmetric] False] .
    have ct: "l @ t = rest" using nextLine_append [of rest] n by simp
    show ?thesis
      using False less [OF t] ct by (auto simp: remove_loop.simps [of E pre raw "Some b" d rest] n lines_of_eq Let_def)
  qed
qed

lemma RemoveHeader_lines: "RemoveHeader E raw name = concat (remove_lines E (field_prefix E name) False (lines_of raw))"
proof (cases "raw = []")
  case True
  then show ?thesis by (simp add: RemoveHeader_def remove_loop.simps)
next
  case False
  obtain l t where n: "nextLine raw = (l, t)" by force
  have "l @ t = raw" using nextLine_append [of raw] n by simp
  then show ?thesis
    using False by (auto simp: RemoveHeader_def remove_loop.simps [of E _ raw None] n lines_of_eq Let_def remove_loop_lines)
qed

lemma remove_lines_wf: "wf_lines ls \<Longrightarrow> wf_lines (remove_lines E pre d ls)"
proof (induction E pre d ls rule: remove_lines.induct)
  case (2 E pre d l ls)
  have keep: "wf_lines (l # remove_lines E pre False ls)" if "wf_lines (remove_lines E pre False ls)"
    by (rule wf_lines_keep [OF "2.prems" that]) simp
  show ?case using 2 keep wf_lines_tail [OF "2.prems"] by auto
qed simp

lemma lines_of_RemoveHeader: "lines_of (RemoveHeader E raw name) = remove_lines E (field_prefix E name) False (lines_of raw)"
  by (simp add: RemoveHeader_lines lines_of_concat remove_lines_wf wf_lines_of)

section \<open>A removed field is gone\<close>

text \<open>Lower-casing maps each code point, so an ASCII prefix is lowered byte by byte.\<close>

definition lower_law :: "externs \<Rightarrow> bool" where
  "lower_law E \<longleftrightarrow> (\<forall>a s. ascii_str a \<longrightarrow> (\<exists>t. ex_lower E (a @ s) = map lower_char a @ t))"

lemma to_lower_prefix: "lower_law E \<Longrightarrow> ascii_str a \<Longrightarrow> \<exists>t. to_lower (ex_lower E) (a @ s) = map lower_char a @ t"
  by (auto simp: to_lower_def lower_law_def)

definition field_name :: "string \<Rightarrow> bool" where
  "field_name name \<longleftrightarrow> name \<noteq> [] \<and> list_all (\<lambda>c. plain_char c \<and> c \<noteq> CHR '':'') name"

lemma field_name_ascii: "field_name name \<Longrightarrow> ascii_str name"
  by (auto simp: field_name_def ascii_str_def plain_char_def list_all_iff)

lemma field_prefix_eq: "field_name name \<Longrightarrow> field_prefix E name = map lower_char name @ '':''"
  by (simp add: field_prefix_def to_lower_ascii field_name_ascii)

lemma lower_char_blank: "c = CHR '' '' \<or> c = CHR 0x09 \<Longrightarrow> lower_char c = c \<and> ascii_str [c] \<and> \<not> plain_char c"
  by (auto simp: lower_char_def is_upper_def ascii_str_def is_ascii_char_def plain_char_def space1_def)

lemma lower_plain: "plain_char c \<Longrightarrow> plain_char (lower_char c)"
  by (auto simp: plain_char_def lower_char_def is_ascii_char_def space1_def is_upper_def Let_def)

lemma continuation_no_field:
  assumes "lower_law E" and "field_name name" and "isContinuation l"
  shows "\<not> is_field E (field_prefix E name) l"
proof
  assume f: "is_field E (field_prefix E name) l"
  obtain c s where l: "l = c # s" and c: "c = CHR '' '' \<or> c = CHR 0x09"
    using assms(3) by (cases l) (auto simp: isContinuation_def)
  obtain t where "to_lower (ex_lower E) l = c # t"
    using to_lower_prefix [OF assms(1), of "[c]" s] lower_char_blank [OF c] l by auto
  moreover obtain n ns where n: "name = n # ns" "plain_char n"
    using assms(2) by (cases name) (auto simp: field_name_def)
  ultimately have "c = lower_char n"
    using f unfolding is_field_def field_prefix_eq [OF assms(2)] starts_with_iff by auto
  then show False using lower_plain [OF n(2)] lower_char_blank [OF c] by simp
qed

definition no_field :: "externs \<Rightarrow> bytes \<Rightarrow> bytes list \<Rightarrow> bool" where
  "no_field E pre ls \<longleftrightarrow> list_all (\<lambda>l. \<not> is_field E pre l) (header_lines ls)"

lemma no_field_Nil [simp]: "no_field E pre []"
  by (simp add: no_field_def header_lines_def)

lemma no_field_Cons: "no_field E pre (l # ls) \<longleftrightarrow> blank_line l \<or> \<not> is_field E pre l \<and> no_field E pre ls"
  by (auto simp: no_field_def header_lines_def)

lemma remove_lines_none:
  assumes "\<And>l. isContinuation l \<Longrightarrow> \<not> is_field E pre l"
  shows "no_field E pre (remove_lines E pre d ls)"
  by (induction ls arbitrary: d) (auto simp: no_field_Cons assms)

lemma remove_lines_mono: "no_field E pre ls \<Longrightarrow> no_field E pre (remove_lines E pre' d ls)"
  by (induction ls arbitrary: d) (auto simp: no_field_Cons)

lemma no_field_value: "no_field E pre ls \<Longrightarrow> value_of_lines E pre False v ls = trim_space v"
  by (induction ls) (auto simp: no_field_Cons)

lemma trim_space_Nil [simp]: "trim_space [] = []"
  by (rule trim_space_plain) simp

definition lacks :: "externs \<Rightarrow> bytes \<Rightarrow> string \<Rightarrow> bool" where
  "lacks E raw name \<longleftrightarrow> no_field E (field_prefix E name) (lines_of raw)"

lemma lacks_value: "lacks E raw name \<Longrightarrow> HeaderValue E raw name = []"
  by (simp add: lacks_def HeaderValue_lines no_field_value)

lemma RemoveHeader_lacks: "lower_law E \<Longrightarrow> field_name name \<Longrightarrow> lacks E (RemoveHeader E raw name) name"
  by (simp add: lacks_def lines_of_RemoveHeader remove_lines_none continuation_no_field)

lemma RemoveHeader_keeps_lacking: "lacks E raw name \<Longrightarrow> lacks E (RemoveHeader E raw other) name"
  by (simp add: lacks_def lines_of_RemoveHeader remove_lines_mono)

lemma SplitHeaderBody_lines: "split_from raw i b = (if \<forall>l \<in> set (lines_of b). \<not> blank_line l then (raw, [])
   else (take (i + length (concat (header_lines (lines_of b)))) raw,
         concat (tl (dropWhile (\<lambda>l. \<not> blank_line l) (lines_of b)))))"
proof (induction "length b" arbitrary: i b rule: less_induct)
  case less
  obtain l t where n: "nextLine b = (l, t)" by force
  show ?case
  proof (cases "b = []")
    case True
    then show ?thesis by (simp add: split_from.simps)
  next
    case False
    have t: "length t < length b" using nextLine_tail [OF n [symmetric] False] .
    show ?thesis
      using False less [OF t] by (auto simp: split_from.simps [of raw i b] n lines_of_eq header_lines_def add.assoc)
  qed
qed

text \<open>Removing a field leaves the body alone.\<close>

lemma remove_lines_body:
  "dropWhile (\<lambda>l. \<not> blank_line l) (remove_lines E pre d ls) = dropWhile (\<lambda>l. \<not> blank_line l) ls"
  by (induction ls arbitrary: d) auto

lemma RemoveHeader_body: "snd (SplitHeaderBody (RemoveHeader E raw name)) = snd (SplitHeaderBody raw)"
proof -
  have "(\<forall>l \<in> set ls. \<not> blank_line l) \<longleftrightarrow> dropWhile (\<lambda>l. \<not> blank_line l) ls = []" for ls
    by (simp add: dropWhile_eq_Nil_conv)
  note none = this
  show ?thesis
    unfolding SplitHeaderBody_def SplitHeaderBody_lines none lines_of_RemoveHeader remove_lines_body by simp
qed

section \<open>A value is one line\<close>

lemma trim_left_suffix: "\<exists>k. trim_left s = drop k s"
proof (induction s rule: trim_left.induct)
  case (1 s)
  show ?case
  proof (cases "space_prefix s = 0")
    case True
    then show ?thesis by (subst trim_left.simps) (auto intro: exI [of _ 0])
  next
    case False
    from 1 [OF False] show ?thesis by (subst trim_left.simps) (auto simp: False)
  qed
qed

lemma trim_left_rev_suffix: "\<exists>k. trim_left_rev s = drop k s"
proof (induction s rule: trim_left_rev.induct)
  case (1 s)
  show ?case
  proof (cases "space_suffix s = 0")
    case True
    then show ?thesis by (subst trim_left_rev.simps) (auto intro: exI [of _ 0])
  next
    case False
    from 1 [OF False] show ?thesis by (subst trim_left_rev.simps) (auto simp: False)
  qed
qed

lemma trim_left_set: "set (trim_left s) \<subseteq> set s"
  using trim_left_suffix [of s] set_drop_subset by metis

lemma trim_left_rev_set: "set (trim_left_rev s) \<subseteq> set s"
  using trim_left_rev_suffix [of s] set_drop_subset by metis

lemma trim_space_set: "set (trim_space s) \<subseteq> set s"
  using trim_left_rev_set [of "rev (trim_left s)"] trim_left_set [of s] by (auto simp: trim_space_def)

lemma trim_left_rev_space1: "space1 c \<Longrightarrow> trim_left_rev (c # s) = trim_left_rev s"
proof -
  assume "space1 c"
  then have "space_suffix (c # s) = 1" by (cases "c # s" rule: space_suffix.cases) auto
  then show ?thesis by (subst trim_left_rev.simps) simp
qed

definition one_line :: "bytes \<Rightarrow> bool" where
  "one_line s \<longleftrightarrow> CHR 0x0A \<notin> set s"

definition lineish :: "bytes \<Rightarrow> bool" where
  "lineish l \<longleftrightarrow> one_line (butlast l)"

lemma trim_space_lineish: "lineish l \<Longrightarrow> one_line (trim_space l)"
proof (cases "trim_left l")
  case Nil
  then show ?thesis by (simp add: trim_space_def one_line_def trim_left_rev.simps)
next
  case (Cons c s)
  assume l: "lineish l"
  obtain k where k: "trim_left l = drop k l" using trim_left_suffix by metis
  have "butlast (trim_left l) = drop k (butlast l)" unfolding k by (simp add: butlast_drop)
  then have one: "CHR 0x0A \<notin> set (butlast (trim_left l))"
    using l by (auto simp: lineish_def one_line_def dest: in_set_dropD)
  obtain w e where t: "trim_left l = w @ [e]" using that [of "butlast (trim_left l)" "last (trim_left l)"] Cons by simp
  have w: "CHR 0x0A \<notin> set w" using one t by simp
  show ?thesis
  proof (cases "e = CHR 0x0A")
    case True
    then have "trim_space l = rev (trim_left_rev (rev w))"
      by (simp add: trim_space_def t trim_left_rev_space1 space1_def)
    then show ?thesis using w trim_left_rev_set [of "rev w"] by (auto simp: one_line_def)
  next
    case False
    then show ?thesis using w trim_left_rev_set [of "e # rev w"] by (auto simp: one_line_def trim_space_def t)
  qed
qed

lemma wf_lines_lineish: "wf_lines ls \<Longrightarrow> l \<in> set ls \<Longrightarrow> lineish l"
proof (induction ls)
  case (Cons x xs)
  have "lineish x" using Cons.prems(1)
    by (auto simp: wf_lines_Cons lineish_def one_line_def terminated_def split: if_splits dest: in_set_butlastD)
  then show ?case using Cons wf_lines_tail [OF Cons.prems(1)] by auto
qed simp

lemma lineish_drop: "lineish l \<Longrightarrow> lineish (drop n l)"
  by (auto simp: lineish_def one_line_def butlast_drop dest: in_set_dropD)

lemma value_of_lines_one: "wf_lines ls \<Longrightarrow> one_line v \<Longrightarrow> one_line (value_of_lines E pre c v ls)"
proof (induction E pre c v ls rule: value_of_lines.induct)
  case (1 E pre c v)
  then show ?case using trim_space_set [of v] by (auto simp: one_line_def)
next
  case (2 E pre c v l ls)
  have l: "lineish l" by (rule wf_lines_lineish [OF "2.prems"(1)]) simp
  have "one_line (trim_space v)" using 2 trim_space_set [of v] by (auto simp: one_line_def)
  moreover have "one_line (v @ CHR '' '' # trim_space l)" "one_line (v @ trim_space (drop (length pre) l))"
    using trim_space_lineish [OF l] trim_space_lineish [OF lineish_drop [OF l]] "2.prems"(2) by (auto simp: one_line_def)
  ultimately show ?case using 2 wf_lines_tail [OF "2.prems"(1)] by auto
qed

lemma HeaderValue_one_line: "one_line (HeaderValue E raw name)"
  unfolding HeaderValue_lines by (rule value_of_lines_one) (simp_all add: wf_lines_of one_line_def)

section \<open>A written field is read back\<close>

definition field_line :: "string \<Rightarrow> string \<Rightarrow> bytes" where
  "field_line name v = name @ '': '' @ v @ CRLF"

lemma plain_no_blank: "plain_char c \<Longrightarrow> \<not> is_crlf c \<and> c \<noteq> CHR '' '' \<and> c \<noteq> CHR 0x09"
  by (auto simp: plain_char_def space1_def is_crlf_def Let_def)

lemma field_name_chars: "field_name name \<Longrightarrow> name \<noteq> [] \<and> (\<forall>c \<in> set name. \<not> is_crlf c \<and> c \<noteq> CHR '' '' \<and> c \<noteq> CHR 0x09)"
  using plain_no_blank by (simp add: field_name_def list_all_iff)

lemma field_line_terminated: "field_name name \<Longrightarrow> one_line v \<Longrightarrow> terminated (field_line name v)"
  unfolding terminated_def field_line_def
  using field_name_chars [of name]
  by (intro exI [of _ "name @ '': '' @ v @ [CHR 0x0D]"]) (auto simp: one_line_def is_crlf_def)

lemma blank_line_iff: "blank_line l \<longleftrightarrow> (\<forall>c \<in> set l. is_crlf c)"
  by (simp add: blank_line_def dropWhile_eq_Nil_conv)

lemma field_line_shape: "field_name name \<Longrightarrow> \<not> blank_line (field_line name v) \<and> \<not> isContinuation (field_line name v)"
  using field_name_chars [of name] by (cases name) (auto simp: blank_line_iff isContinuation_def field_line_def)

lemma field_line_lower:
  assumes "lower_law E" and "field_name name"
  shows "\<exists>t. to_lower (ex_lower E) (field_line name v) = map lower_char name @ CHR '':'' # t"
proof -
  have "ascii_str (name @ '':'')" using field_name_ascii [OF assms(2)] by (simp add: ascii_str_def is_ascii_char_def)
  from to_lower_prefix [OF assms(1) this, of "CHR '' '' # v @ CRLF"] obtain t where
    "to_lower (ex_lower E) ((name @ '':'') @ CHR '' '' # v @ CRLF) = map lower_char (name @ '':'') @ t" by blast
  moreover have "lower_char (CHR '':'') = CHR '':''" by (simp add: lower_char_def is_upper_def)
  ultimately show ?thesis by (simp add: field_line_def)
qed

lemma is_field_own: "lower_law E \<Longrightarrow> field_name name \<Longrightarrow> is_field E (field_prefix E name) (field_line name v)"
  using field_line_lower [of E name v] by (auto simp: is_field_def field_prefix_eq starts_with_iff)

lemma takeWhile_until: "c \<notin> set m \<Longrightarrow> takeWhile (\<lambda>x. x \<noteq> c) (m @ c # r) = m"
  by (induction m) auto

lemma lower_colon: "CHR '':'' = lower_char c \<Longrightarrow> c = CHR '':''"
  by (cases "is_upper c") (auto simp: lower_char_def is_upper_def dest!: arg_cong [of _ _ char_nat])

lemma is_field_other:
  assumes "lower_law E" and "field_name name" and "field_name other" and "map lower_char name \<noteq> map lower_char other"
  shows "\<not> is_field E (field_prefix E other) (field_line name v)"
proof
  assume f: "is_field E (field_prefix E other) (field_line name v)"
  obtain t where "to_lower (ex_lower E) (field_line name v) = map lower_char name @ CHR '':'' # t"
    using field_line_lower [OF assms(1,2)] by blast
  then obtain r where eq: "map lower_char name @ CHR '':'' # t = map lower_char other @ CHR '':'' # r"
    using f unfolding is_field_def field_prefix_eq [OF assms(3)] starts_with_iff by auto
  have colon: "CHR '':'' \<notin> set (map lower_char n)" if "field_name n" for n
    using that by (auto simp: field_name_def list_all_iff dest: lower_colon)
  have "takeWhile (\<lambda>c. c \<noteq> CHR '':'') (map lower_char n @ CHR '':'' # r) = map lower_char n" if "field_name n" for n r
    by (rule takeWhile_until [OF colon [OF that]])
  from this [OF assms(2), of t] this [OF assms(3), of r] show False using eq assms(4) by simp
qed

lemma trim_space_line:
  assumes "v = [] \<or> plain_char (hd v) \<and> plain_char (last v)"
  shows "trim_space (CHR '' '' # v @ CRLF) = v"
proof -
  have tl: "trim_left (v @ CRLF) = (if v = [] then [] else v @ CRLF)"
  proof (cases v)
    case Nil
    then show ?thesis by (simp add: trim_left.simps [of CRLF] trim_left.simps [of "[CHR 0x0A]"] trim_left.simps [of "[]"] space1_def)
  next
    case (Cons c s)
    then show ?thesis using assms by (simp add: trim_left_plain)
  qed
  have "trim_left_rev (rev v) = rev v"
    using assms by (subst trim_left_rev.simps) (auto simp: space_suffix_plain hd_rev)
  then show ?thesis
    using tl by (cases "v = []") (simp_all add: trim_space_def trim_left_space trim_left_rev_space1 space1_def)
qed

text \<open>A read stops at the next field or at the end of the header.\<close>

lemma value_of_lines_hit:
  assumes "lower_law E" and "field_name name" and "v = [] \<or> plain_char (hd v) \<and> plain_char (last v)"
    and "ls = [] \<or> blank_line (hd ls) \<or> \<not> isContinuation (hd ls)"
  shows "value_of_lines E (field_prefix E name) False [] (field_line name v # ls) = v"
proof -
  have drop: "drop (length (field_prefix E name)) (field_line name v) = CHR '' '' # v @ CRLF"
    by (simp add: field_prefix_eq [OF assms(2)] field_line_def)
  have v: "trim_space (CHR '' '' # v @ CRLF) = v" "trim_space v = v"
    using trim_space_line [OF assms(3)] trim_space_plain [OF assms(3)] by simp_all
  show ?thesis
    using assms(4) is_field_own [OF assms(1,2), of v] field_line_shape [OF assms(2), of v]
    by (cases ls) (auto simp: drop [simplified] v [simplified])
qed

lemma value_of_lines_skip:
  "\<forall>l \<in> set ls. \<not> blank_line l \<and> \<not> is_field E pre l \<Longrightarrow>
     value_of_lines E pre False v (ls @ ms) = value_of_lines E pre False v ms"
  by (induction ls) auto

lemma remove_lines_start:
  "d \<or> ls = [] \<or> blank_line (hd ls) \<or> \<not> isContinuation (hd ls) \<Longrightarrow> remove_lines E pre d ls = []
     \<or> blank_line (hd (remove_lines E pre d ls)) \<or> \<not> isContinuation (hd (remove_lines E pre d ls))"
  by (induction ls arbitrary: d) auto

lemma HeaderValue_SetHeader:
  assumes "lower_law E" and "field_name name" and "one_line v"
    and "v = [] \<or> plain_char (hd v) \<and> plain_char (last v)" and "\<not> isContinuation raw"
  shows "HeaderValue E (SetHeader E raw name v) name = v"
proof -
  let ?p = "field_prefix E name"
  have "lines_of (SetHeader E raw name v) = field_line name v # remove_lines E ?p False (lines_of raw)"
    using lines_of_terminated [OF field_line_terminated [OF assms(2,3)], of "RemoveHeader E raw name"]
    by (simp add: SetHeader_def field_line_def lines_of_RemoveHeader)
  moreover have "lines_of raw = [] \<or> \<not> isContinuation (hd (lines_of raw))"
  proof (cases raw)
    case (Cons c s)
    then have "hd (fst (nextLine raw)) = c" by (auto simp: nextLine_def)
    then show ?thesis using assms(5) Cons by (simp add: lines_of_eq isContinuation_def)
  qed simp
  ultimately show ?thesis
    using value_of_lines_hit [OF assms(1,2,4), of "remove_lines E ?p False (lines_of raw)"]
      remove_lines_start [of False "lines_of raw" E ?p]
    unfolding HeaderValue_lines by metis
qed

end
