(* ===== verification/Envelope.thy ===== *)
theory Envelope
  imports Manifest
begin

text \<open>
  \<^verbatim>\<open>envelope/envelope.go\<close> and \<^verbatim>\<open>envelope/wire.go\<close>: the sealed message.  Sealing checks a fetch
  result against itself, derives a key from an ephemeral Diffie-Hellman exchange and
  encrypts under the packed header as associated data; opening recomputes all of it.  The
  clock and the random bytes are arguments, the primitives are parameters.
\<close>

definition SuiteX25519HKDFSHA256AES256GCM :: string where
  "SuiteX25519HKDFSHA256AES256GCM = ''mkdp1-x25519-hkdf-sha256-aes256gcm''"
definition EnvelopeVersion :: "32 word" where "EnvelopeVersion = 1"
definition pubKeyLen :: nat where "pubKeyLen = 32"
definition nonceLen :: nat where "nonceLen = 12"
definition aeadKeyLen :: nat where "aeadKeyLen = 32"
definition hkdfInfo :: bytes where "hkdfInfo = ''mailkey/mkdp1/x25519-aes256gcm/v1''"
definition MaxWireBytes :: nat where "MaxWireBytes = 67108864"

record env_header =
  eh_version :: "32 word"
  eh_suite :: string
  eh_domain :: string
  eh_kid :: bytes
  eh_manifest_id :: bytes
  eh_algorithm :: string
  eh_encryption :: string
  eh_ephemeral :: bytes

record envelope =
  ev_header :: env_header
  ev_nonce :: bytes
  ev_ciphertext :: bytes

text \<open>What the random source gives one sealing; \<open>None\<close> is its failure.\<close>

record entropy =
  en_ephemeral :: "bytes option"
  en_nonce :: "bytes option"

section \<open>The header\<close>

definition ValidateHeader :: "env_header \<Rightarrow> gerr + unit" where
  "ValidateHeader h =
     (if eh_version h \<noteq> EnvelopeVersion then Inl (Msg ''envelope: unsupported version %d'')
      else if eh_suite h \<noteq> SuiteX25519HKDFSHA256AES256GCM then Inl (Msg ''envelope: unsupported suite %q'')
      else if eh_algorithm h \<noteq> AlgX25519 \<or> eh_encryption h \<noteq> EncAES256GCM
        then Inl (Msg ''envelope: unsupported suite %s/%s'')
      else if eh_domain h = [] then Inl (Msg ''envelope: empty recipient domain'')
      else if length (eh_ephemeral h) \<noteq> pubKeyLen
        then Inl (Msg ''envelope: ephemeral public key must be %d bytes, got %d'')
      else Inr ())"

definition header_fields :: "env_header \<Rightarrow> (string \<times> gvalue) list" where
  "header_fields h =
     [(''v'', VLong (ucast (eh_version h))), (''suite'', VUtf8 (eh_suite h)), (''domain'', VUtf8 (eh_domain h)),
      (''kid'', VRaw (eh_kid h)), (''manifest_id'', VRaw (eh_manifest_id h)),
      (''alg'', VUtf8 (eh_algorithm h)), (''enc'', VUtf8 (eh_encryption h)),
      (''ephemeral_pk'', VRaw (eh_ephemeral h))]"

definition AAD :: "externs \<Rightarrow> env_header \<Rightarrow> gerr + bytes" where
  "AAD E h =
     try_bind (ValidateHeader h) (\<lambda>_.
       opt_err (Msg ''pack'') (ex_pack E (sorted_map_of (header_fields h))))"

text \<open>The key of the cipher; AES takes keys of three lengths.\<close>

definition deriveAEAD :: "externs \<Rightarrow> bytes \<Rightarrow> bytes \<Rightarrow> bytes \<Rightarrow> gerr + bytes" where
  "deriveAEAD E shared ephemeralPub recipientPub =
     try_bind (opt_err (Msg ''hkdf'') (ex_hkdf E shared (ephemeralPub @ recipientPub) hkdfInfo aeadKeyLen)) (\<lambda>key.
       if length key \<in> {16, 24, 32} then Inr key else Inl (Msg ''crypto/aes: invalid key size''))"

section \<open>Sealing\<close>

definition Seal :: "externs \<Rightarrow> time \<Rightarrow> entropy \<Rightarrow> fetch_result \<Rightarrow> bytes \<Rightarrow> gerr + envelope" where
  "Seal E now rnd r plaintext =
     (let m = rs_manifest r; k = mf_key m in
      if mf_domain m = [] then Inl (Msg ''seal: manifest has no domain'')
      else if \<not> canonical_domain E (mf_domain m) then Inl (Msg ''seal: manifest domain %q is not normalized'')
      else if kd_algorithm k \<noteq> AlgX25519 \<or> kd_encryption k \<noteq> EncAES256GCM
        then Inl (Msg ''seal: unsupported suite %s/%s'')
      else if length (kd_public_key k) \<noteq> pubKeyLen then Inl (Msg ''seal: public key must be %d bytes, got %d'')
      else
        try_bind (wrap_err ''seal: %w'' (Pack E m)) (\<lambda>packed.
        if ManifestIDOf E packed \<noteq> rs_manifest_id r
          then Inl (Msg ''seal: manifest id does not identify this manifest'')
        else if rs_raw r \<noteq> [] \<and> rs_raw r \<noteq> packed
          then Inl (Msg ''seal: result bytes are not the manifest's canonical form'')
        else if mf_expires_at m = zero_time then Inl (Msg ''seal: manifest has no expiry'')
        else if \<not> mf_expires_at m > now then Inl (Msg ''seal: manifest for %s expired at %s'')
        else if \<not> ex_x_valid E (kd_public_key k)
          then Inl (Wrapped ''seal: invalid recipient public key: %w'' (Msg ''key''))
        else
        try_bind (opt_err (Msg ''rand'') (en_ephemeral rnd)) (\<lambda>eph.
        try_bind (opt_err (Msg ''rand'') (ex_x_public E eph)) (\<lambda>ephPub.
        try_bind (opt_err (Msg ''ecdh'') (ex_ecdh E eph (kd_public_key k))) (\<lambda>shared.
        let hdr = \<lparr>eh_version = EnvelopeVersion, eh_suite = SuiteX25519HKDFSHA256AES256GCM,
                   eh_domain = mf_domain m, eh_kid = kd_kid k, eh_manifest_id = rs_manifest_id r,
                   eh_algorithm = kd_algorithm k, eh_encryption = kd_encryption k, eh_ephemeral = ephPub\<rparr>
        in
        try_bind (AAD E hdr) (\<lambda>aad.
        try_bind (deriveAEAD E shared ephPub (kd_public_key k)) (\<lambda>key.
        try_bind (opt_err (Msg ''rand'') (en_nonce rnd)) (\<lambda>nonce.
          Inr \<lparr>ev_header = hdr, ev_nonce = nonce,
               ev_ciphertext = ex_aead_seal E key nonce plaintext aad\<rparr>))))))))"

section \<open>Opening\<close>

definition KeyIDOfPrivate :: "externs \<Rightarrow> string \<Rightarrow> string \<Rightarrow> string \<Rightarrow> bytes \<Rightarrow> gerr + bytes" where
  "KeyIDOfPrivate E domain alg enc pub = KeyIDOf E domain alg enc pub"

definition Open :: "externs \<Rightarrow> bytes \<Rightarrow> envelope option \<Rightarrow> gerr + bytes" where
  "Open E recipientPriv env =
     (case env of
        None \<Rightarrow> Inl (Msg ''open: nil envelope'')
      | Some e \<Rightarrow>
          let h = ev_header e in
          try_bind (ValidateHeader h) (\<lambda>_.
          if length recipientPriv \<noteq> pubKeyLen then Inl (Msg ''open: private key must be %d bytes, got %d'')
          else if length (ev_nonce e) \<noteq> nonceLen then Inl (Msg ''open: nonce must be %d bytes, got %d'')
          else
          try_bind (opt_err (Wrapped ''open: invalid private key: %w'' (Msg ''key'')) (ex_x_public E recipientPriv)) (\<lambda>pub.
          if \<not> ex_x_valid E (eh_ephemeral h)
            then Inl (Wrapped ''open: invalid ephemeral public key: %w'' (Msg ''key''))
          else
          try_bind (KeyIDOfPrivate E (eh_domain h) (eh_algorithm h) (eh_encryption h) pub) (\<lambda>kid.
          if kid \<noteq> eh_kid h then Inl (Msg ''open: private key does not match the envelope's kid'')
          else
          try_bind (opt_err (Msg ''ecdh'') (ex_ecdh E recipientPriv (eh_ephemeral h))) (\<lambda>shared.
          try_bind (AAD E h) (\<lambda>aad.
          try_bind (deriveAEAD E shared (eh_ephemeral h) pub) (\<lambda>key.
            opt_err (Msg ''open: authentication failed (wrong key, or the message or its metadata was altered)'')
              (ex_aead_open E key (ev_nonce e) (ev_ciphertext e) aad))))))))"

section \<open>The wire\<close>

definition envelope_value :: "envelope \<Rightarrow> gvalue" where
  "envelope_value e =
     sorted_map_of (header_fields (ev_header e)
       @ [(''nonce'', VRaw (ev_nonce e)), (''ciphertext'', VRaw (ev_ciphertext e))])"

definition Marshal :: "externs \<Rightarrow> envelope \<Rightarrow> gerr + bytes" where
  "Marshal E e =
     try_bind (ValidateHeader (ev_header e)) (\<lambda>_.
       if length (ev_nonce e) \<noteq> nonceLen then Inl (Msg ''envelope: nonce must be %d bytes, got %d'')
       else opt_err (Msg ''pack'') (ex_pack E (envelope_value e)))"

definition exactFields :: "externs \<Rightarrow> (string \<times> gvalue) list \<Rightarrow> string list \<Rightarrow> gerr + unit" where
  "exactFields E m want =
     (if length (map_keys m) \<noteq> length want then Inl (Msg ''envelope: expected %d fields, got %d'')
      else if list_ex (\<lambda>k. map_get E m k = None) want then Inl (Msg ''envelope: missing field %q'')
      else Inr ())"

definition utf8At :: "externs \<Rightarrow> (string \<times> gvalue) list \<Rightarrow> string \<Rightarrow> gerr + string" where
  "utf8At E m key =
     (case map_get E m key of Some (VUtf8 s) \<Rightarrow> Inr s
      | _ \<Rightarrow> Inl (Msg ''envelope: field %q must be a UTF-8 string''))"

definition rawAt :: "externs \<Rightarrow> (string \<times> gvalue) list \<Rightarrow> string \<Rightarrow> gerr + bytes" where
  "rawAt E m key =
     (case map_get E m key of Some (VRaw b) \<Rightarrow> Inr b
      | _ \<Rightarrow> Inl (Msg ''envelope: field %q must be raw bytes''))"

definition longAt :: "externs \<Rightarrow> (string \<times> gvalue) list \<Rightarrow> string \<Rightarrow> gerr + 64 word" where
  "longAt E m key =
     (case map_get E m key of Some (VLong n) \<Rightarrow> Inr n
      | _ \<Rightarrow> Inl (Msg ''envelope: field %q must be a 64-bit integer''))"

definition idAt :: "externs \<Rightarrow> (string \<times> gvalue) list \<Rightarrow> string \<Rightarrow> gerr + bytes" where
  "idAt E m key =
     try_bind (rawAt E m key) (\<lambda>b.
       if length b \<noteq> 32 then Inl (Msg ''envelope: field %q must be %d bytes, got %d'') else Inr b)"

text \<open>The version is cut to 32 bits before it is checked.\<close>

definition Unmarshal :: "externs \<Rightarrow> bytes \<Rightarrow> gerr + envelope" where
  "Unmarshal E raw =
     (if raw = [] then Inl (Msg ''envelope: empty'')
      else if length raw > MaxWireBytes then Inl (Msg ''envelope: %d bytes exceeds the %d byte limit'')
      else
        try_bind (opt_err (Wrapped ''envelope: unpack: %w'' (Msg ''unpack'')) (ex_unpack E raw)) (\<lambda>val.
        try_bind (case val of VMap m \<Rightarrow> Inr m | _ \<Rightarrow> Inl (Msg ''envelope: expected a map'')) (\<lambda>m.
        try_bind (exactFields E m [''v'', ''suite'', ''domain'', ''kid'', ''manifest_id'', ''alg'', ''enc'',
                    ''ephemeral_pk'', ''nonce'', ''ciphertext'']) (\<lambda>_.
        try_bind (longAt E m ''v'') (\<lambda>ver.
        try_bind (utf8At E m ''suite'') (\<lambda>suite.
        try_bind (utf8At E m ''domain'') (\<lambda>domain.
        try_bind (utf8At E m ''alg'') (\<lambda>alg.
        try_bind (utf8At E m ''enc'') (\<lambda>enc.
        try_bind (idAt E m ''kid'') (\<lambda>kid.
        try_bind (idAt E m ''manifest_id'') (\<lambda>mid.
        try_bind (rawAt E m ''ephemeral_pk'') (\<lambda>ephemeral.
        try_bind (rawAt E m ''nonce'') (\<lambda>nonce.
        try_bind (rawAt E m ''ciphertext'') (\<lambda>ciphertext.
        let e = \<lparr>ev_header = \<lparr>eh_version = ucast ver, eh_suite = suite, eh_domain = domain, eh_kid = kid,
                   eh_manifest_id = mid, eh_algorithm = alg, eh_encryption = enc, eh_ephemeral = ephemeral\<rparr>,
                 ev_nonce = nonce, ev_ciphertext = ciphertext\<rparr>
        in
        try_bind (ValidateHeader (ev_header e)) (\<lambda>_.
        try_bind (wrap_err ''envelope: repack: %w'' (Marshal E e)) (\<lambda>again.
          if raw \<noteq> again
          then Inl (Msg ''envelope: not canonical (reordered, non-minimal, or trailing bytes)'')
          else Inr e))))))))))))))))"

definition MarshalBase64 :: "externs \<Rightarrow> envelope \<Rightarrow> gerr + string" where
  "MarshalBase64 E e = try_bind (Marshal E e) (\<lambda>b. Inr (encode_std b))"

definition UnmarshalBase64 :: "externs \<Rightarrow> string \<Rightarrow> gerr + envelope" where
  "UnmarshalBase64 E s =
     try_bind (opt_err (Wrapped ''envelope: base64: %w'' (Msg ''base64'')) (decode_std s)) (Unmarshal E)"

section \<open>What each step accepts\<close>

lemma ValidateHeader_Inr [result_simps]:
  "ValidateHeader h = Inr u \<longleftrightarrow> eh_version h = EnvelopeVersion \<and> eh_suite h = SuiteX25519HKDFSHA256AES256GCM
     \<and> eh_algorithm h = AlgX25519 \<and> eh_encryption h = EncAES256GCM \<and> eh_domain h \<noteq> []
     \<and> length (eh_ephemeral h) = pubKeyLen"
  by (auto simp: ValidateHeader_def)

lemma AAD_Inr:
  "AAD E h = Inr aad \<longleftrightarrow> ValidateHeader h = Inr () \<and> ex_pack E (sorted_map_of (header_fields h)) = Some aad"
  by (auto simp: AAD_def result_simps)

lemma deriveAEAD_Inr:
  "deriveAEAD E shared eph pub = Inr key \<longleftrightarrow>
     ex_hkdf E shared (eph @ pub) hkdfInfo aeadKeyLen = Some key \<and> length key \<in> {16, 24, 32}"
  by (auto simp: deriveAEAD_def result_simps)

lemma at_Inr [result_simps]:
  "utf8At E m k = Inr s \<longleftrightarrow> map_get E m k = Some (VUtf8 s)"
  "rawAt E m k = Inr b \<longleftrightarrow> map_get E m k = Some (VRaw b)"
  "longAt E m k = Inr n \<longleftrightarrow> map_get E m k = Some (VLong n)"
  "idAt E m k = Inr b \<longleftrightarrow> map_get E m k = Some (VRaw b) \<and> length b = 32"
  by (auto simp: utf8At_def rawAt_def longAt_def idAt_def result_simps split: option.splits gvalue.splits)

lemma Marshal_Inr:
  "Marshal E e = Inr raw \<longleftrightarrow> ValidateHeader (ev_header e) = Inr () \<and> length (ev_nonce e) = nonceLen
     \<and> ex_pack E (envelope_value e) = Some raw"
  by (auto simp: Marshal_def result_simps)

text \<open>A sealing tells the truth: the header it writes names the manifest, the key and the domain
  of the bytes the result packs to.\<close>

lemma Seal_Inr:
  assumes "Seal E now rnd r plain = Inr e"
  obtains eph ephPub shared aad key nonce packed where
    "Pack E (rs_manifest r) = Inr packed" and "rs_manifest_id r = ManifestIDOf E packed"
    and "rs_raw r = [] \<or> rs_raw r = packed" and "now < mf_expires_at (rs_manifest r)"
    and "en_ephemeral rnd = Some eph" and "ex_x_public E eph = Some ephPub"
    and "ex_ecdh E eph (kd_public_key (mf_key (rs_manifest r))) = Some shared"
    and "en_nonce rnd = Some nonce" and "AAD E (ev_header e) = Inr aad"
    and "deriveAEAD E shared ephPub (kd_public_key (mf_key (rs_manifest r))) = Inr key"
    and "ev_header e = \<lparr>eh_version = EnvelopeVersion, eh_suite = SuiteX25519HKDFSHA256AES256GCM,
           eh_domain = mf_domain (rs_manifest r), eh_kid = kd_kid (mf_key (rs_manifest r)),
           eh_manifest_id = rs_manifest_id r, eh_algorithm = kd_algorithm (mf_key (rs_manifest r)),
           eh_encryption = kd_encryption (mf_key (rs_manifest r)), eh_ephemeral = ephPub\<rparr>"
    and "ev_nonce e = nonce" and "ev_ciphertext e = ex_aead_seal E key nonce plain aad"
proof -
  from assms show ?thesis
    unfolding Seal_def Let_def by (auto simp: result_simps intro!: that)
qed

lemma Open_Inr:
  "Open E priv (Some e) = Inr plain \<longleftrightarrow>
     length priv = pubKeyLen \<and> length (ev_nonce e) = nonceLen \<and> ex_x_valid E (eh_ephemeral (ev_header e))
     \<and> (\<exists>pub shared aad key. ex_x_public E priv = Some pub
        \<and> KeyIDOf E (eh_domain (ev_header e)) (eh_algorithm (ev_header e)) (eh_encryption (ev_header e)) pub
            = Inr (eh_kid (ev_header e))
        \<and> ex_ecdh E priv (eh_ephemeral (ev_header e)) = Some shared \<and> AAD E (ev_header e) = Inr aad
        \<and> deriveAEAD E shared (eh_ephemeral (ev_header e)) pub = Inr key
        \<and> ex_aead_open E key (ev_nonce e) (ev_ciphertext e) aad = Some plain)"
  unfolding Open_def Let_def KeyIDOfPrivate_def option.case
  by (auto simp: result_simps AAD_Inr)

section \<open>Laws of the primitives\<close>

text \<open>Diffie-Hellman agrees, on public halves that are accepted and have 32 bytes; the cipher
  opens what it sealed.\<close>

definition dh_law :: "externs \<Rightarrow> bool" where
  "dh_law E \<longleftrightarrow> (\<forall>a b pa pb. ex_x_public E a = Some pa \<longrightarrow> ex_x_public E b = Some pb \<longrightarrow>
     ex_ecdh E a pb = ex_ecdh E b pa \<and> ex_x_valid E pa \<and> length pa = pubKeyLen)"

definition aead_law :: "externs \<Rightarrow> bool" where
  "aead_law E \<longleftrightarrow> (\<forall>key nonce plain aad. ex_aead_open E key nonce (ex_aead_seal E key nonce plain aad) aad = Some plain)"

section \<open>Sealing and opening\<close>

lemma Open_Seal:
  assumes "dh_law E" and "aead_law E"
    and sealed: "Seal E now rnd r plain = Inr e"
    and priv: "ex_x_public E priv = Some (kd_public_key (mf_key (rs_manifest r)))" "length priv = pubKeyLen"
    and nonce: "\<And>n. en_nonce rnd = Some n \<Longrightarrow> length n = nonceLen"
  shows "Open E priv (Some e) = Inr plain"
proof -
  from Seal_Inr [OF sealed] obtain eph ephPub shared aad key nonce' packed where
    packed: "Pack E (rs_manifest r) = Inr packed" and eph: "ex_x_public E eph = Some ephPub"
    and shared: "ex_ecdh E eph (kd_public_key (mf_key (rs_manifest r))) = Some shared"
    and n: "en_nonce rnd = Some nonce'" "ev_nonce e = nonce'" and aad: "AAD E (ev_header e) = Inr aad"
    and key: "deriveAEAD E shared ephPub (kd_public_key (mf_key (rs_manifest r))) = Inr key"
    and h: "eh_domain (ev_header e) = mf_domain (rs_manifest r)" "eh_kid (ev_header e) = kd_kid (mf_key (rs_manifest r))"
      "eh_algorithm (ev_header e) = kd_algorithm (mf_key (rs_manifest r))"
      "eh_encryption (ev_header e) = kd_encryption (mf_key (rs_manifest r))" "eh_ephemeral (ev_header e) = ephPub"
    and c: "ev_ciphertext e = ex_aead_seal E key nonce' plain aad"
    by (metis env_header.select_convs)
  have dh: "ex_ecdh E priv ephPub = Some shared" "ex_x_valid E ephPub"
    using assms(1) eph priv(1) shared unfolding dh_law_def by metis+
  show ?thesis
    unfolding Open_Inr h n c
    using packed priv nonce [OF n(1)] dh aad key assms(2) by (auto simp: Pack_Inr aead_law_def)
qed

section \<open>The header is authenticated\<close>

lemma ucast_32_64 [simp]: "ucast (ucast (w :: 32 word) :: 64 word) = w"
  by (simp add: ucast_up_ucast_id is_up)

lemma header_fields_inject:
  assumes "sorted_map_of (header_fields h) = sorted_map_of (header_fields h')"
  shows "h = h'"
proof -
  have d: "distinct (map fst (header_fields g))" for g by (simp add: header_fields_def)
  have "map_of (header_fields h) k = map_of (header_fields h') k" for k
    using sorted_map_inject [OF assms d d] by simp
  note at = this [of "''v''"] this [of "''suite''"] this [of "''domain''"] this [of "''kid''"]
    this [of "''manifest_id''"] this [of "''alg''"] this [of "''enc''"] this [of "''ephemeral_pk''"]
  have "(ucast (eh_version h) :: 64 word) = ucast (eh_version h')" using at(1) by (simp add: header_fields_def)
  then have "eh_version h = eh_version h'" by (metis ucast_32_64)
  then show ?thesis using at by (simp add: header_fields_def)
qed

lemma AAD_inject:
  assumes "AAD E h = Inr aad" and "AAD E h' = Inr aad"
    and "codec_law E (sorted_map_of (header_fields h))" and "codec_law E (sorted_map_of (header_fields h'))"
  shows "h = h'"
  using assms codec_inject [OF assms(3,4)] header_fields_inject by (auto simp: AAD_Inr)

text \<open>The key and the associated data the owner of a private key opens an envelope with: those of the
  header it carries.\<close>

definition opens_with :: "externs \<Rightarrow> bytes \<Rightarrow> env_header \<Rightarrow> bytes \<Rightarrow> bytes \<Rightarrow> bool" where
  "opens_with E priv h key aad \<longleftrightarrow> AAD E h = Inr aad
     \<and> (\<exists>pub shared. ex_x_public E priv = Some pub \<and> ex_ecdh E priv (eh_ephemeral h) = Some shared
         \<and> deriveAEAD E shared (eh_ephemeral h) pub = Inr key)"

text \<open>One ciphertext the cipher accepts under two different associated data: what an edit of the header
  would have to produce.\<close>

definition forged :: "externs \<Rightarrow> bytes \<Rightarrow> bytes \<Rightarrow> bytes \<Rightarrow> bytes \<Rightarrow> bytes \<Rightarrow> bytes \<Rightarrow> bool" where
  "forged E nonce c key aad key' aad' \<longleftrightarrow> aad \<noteq> aad'
     \<and> ex_aead_open E key nonce c aad \<noteq> None \<and> ex_aead_open E key' nonce c aad' \<noteq> None"

lemma Open_opens_with:
  assumes "Open E priv (Some e) = Inr plain"
  obtains key aad where "opens_with E priv (ev_header e) key aad"
    and "ex_aead_open E key (ev_nonce e) (ev_ciphertext e) aad = Some plain"
  using assms by (auto simp: Open_Inr opens_with_def)

lemma opens_with_key:
  "opens_with E priv h key aad \<Longrightarrow> opens_with E priv h' key' aad' \<Longrightarrow> eh_ephemeral h' = eh_ephemeral h \<Longrightarrow> key' = key"
  by (auto simp: opens_with_def)

lemma edited_header_forges:
  assumes "Open E priv (Some e) = Inr plain" and "Open E priv' (Some (e\<lparr>ev_header := h'\<rparr>)) = Inr plain'"
    and "h' \<noteq> ev_header e" and "codec_law E (sorted_map_of (header_fields (ev_header e)))"
    and "codec_law E (sorted_map_of (header_fields h'))"
  shows "\<exists>key aad key' aad'. opens_with E priv (ev_header e) key aad \<and> opens_with E priv' h' key' aad'
     \<and> forged E (ev_nonce e) (ev_ciphertext e) key aad key' aad'"
proof -
  obtain key aad where o: "opens_with E priv (ev_header e) key aad"
    "ex_aead_open E key (ev_nonce e) (ev_ciphertext e) aad = Some plain"
    by (rule Open_opens_with [OF assms(1)])
  obtain key' aad' where o': "opens_with E priv' h' key' aad'"
    "ex_aead_open E key' (ev_nonce e) (ev_ciphertext e) aad' = Some plain'"
    by (rule Open_opens_with [OF assms(2)]) simp
  have "aad \<noteq> aad'" using AAD_inject [OF _ _ assms(4,5)] o(1) o'(1) assms(3) by (auto simp: opens_with_def)
  with o(2) o'(2) have "forged E (ev_nonce e) (ev_ciphertext e) key aad key' aad'" by (simp add: forged_def)
  with o(1) o'(1) show ?thesis by blast
qed

section \<open>One encoding on the wire\<close>

lemma Unmarshal_facts:
  assumes "Unmarshal E raw = Inr e"
  shows Unmarshal_canonical: "Marshal E e = Inr raw"
    and Unmarshal_size: "raw \<noteq> [] \<and> length raw \<le> MaxWireBytes"
    and Unmarshal_ids: "length (eh_kid (ev_header e)) = 32 \<and> length (eh_manifest_id (ev_header e)) = 32"
  using assms unfolding Unmarshal_def Let_def by (auto simp: result_simps not_less)

lemma Unmarshal_inject:
  "Unmarshal E raw = Inr e \<Longrightarrow> Unmarshal E raw' = Inr e \<Longrightarrow> raw = raw'"
  by (drule Unmarshal_canonical, drule Unmarshal_canonical) simp

lemma Unmarshal_Marshal:
  assumes m: "Marshal E e = Inr raw" and codec: "codec_law E (envelope_value e)"
    and ids: "length (eh_kid (ev_header e)) = 32" "length (eh_manifest_id (ev_header e)) = 32"
    and size: "raw \<noteq> []" "length raw \<le> MaxWireBytes"
  shows "Unmarshal E raw = Inr e"
proof -
  let ?h = "ev_header e"
  define kvs where "kvs = header_fields ?h @ [(''nonce'', VRaw (ev_nonce e)), (''ciphertext'', VRaw (ev_ciphertext e))]"
  have d: "distinct (map fst kvs)" by (simp add: kvs_def header_fields_def)
  have un: "ex_unpack E raw = Some (VMap (sort_key fst kvs))"
    using codec m by (auto simp: codec_law_def Marshal_Inr envelope_value_def sorted_map_of_def kvs_def)
  note get = map_get_sorted [OF d, of E]
  have exact: "exactFields E (sort_key fst kvs) [''v'', ''suite'', ''domain'', ''kid'', ''manifest_id'', ''alg'', ''enc'',
                    ''ephemeral_pk'', ''nonce'', ''ciphertext''] = Inr ()"
    by (simp add: exactFields_def map_keys_def get) (simp add: kvs_def header_fields_def)
  have fs: "longAt E (sort_key fst kvs) ''v'' = Inr (ucast (eh_version ?h))"
    "utf8At E (sort_key fst kvs) ''suite'' = Inr (eh_suite ?h)" "utf8At E (sort_key fst kvs) ''domain'' = Inr (eh_domain ?h)"
    "utf8At E (sort_key fst kvs) ''alg'' = Inr (eh_algorithm ?h)" "utf8At E (sort_key fst kvs) ''enc'' = Inr (eh_encryption ?h)"
    "idAt E (sort_key fst kvs) ''kid'' = Inr (eh_kid ?h)" "idAt E (sort_key fst kvs) ''manifest_id'' = Inr (eh_manifest_id ?h)"
    "rawAt E (sort_key fst kvs) ''ephemeral_pk'' = Inr (eh_ephemeral ?h)"
    "rawAt E (sort_key fst kvs) ''nonce'' = Inr (ev_nonce e)" "rawAt E (sort_key fst kvs) ''ciphertext'' = Inr (ev_ciphertext e)"
    unfolding at_Inr get by (simp_all add: kvs_def header_fields_def ids)
  have "ValidateHeader ?h = Inr ()" using m by (simp add: Marshal_Inr)
  then show ?thesis
    using size m un exact fs
    by (cases e; cases "ev_header e") (simp add: Unmarshal_def)
qed

lemma UnmarshalBase64_Marshal:
  assumes "MarshalBase64 E e = Inr s" and "codec_law E (envelope_value e)"
    and "length (eh_kid (ev_header e)) = 32" and "length (eh_manifest_id (ev_header e)) = 32"
    and "\<And>raw. Marshal E e = Inr raw \<Longrightarrow> raw \<noteq> [] \<and> length raw \<le> MaxWireBytes"
  shows "UnmarshalBase64 E s = Inr e"
  using assms Unmarshal_Marshal by (auto simp: MarshalBase64_def UnmarshalBase64_def result_simps)

end
