(* ===== verification/Message.thy ===== *)
theory Message
  imports Header Envelope
begin

text \<open>
  \<^verbatim>\<open>message/message.go\<close>: an envelope inside a mail message, and the advertisement header.
\<close>

definition SubjectPlaceholder :: string where "SubjectPlaceholder = ''[Encrypted Message]''"

definition RoutingHeaders :: "string list" where
  "RoutingHeaders = [''From'', ''To'', ''Cc'', ''Date'', ''Message-Id'', ''MIME-Version'']"

definition ReservedHeaders :: "string list" where
  "ReservedHeaders = [HeaderEncrypted, HeaderSuite, HeaderName]"

definition Seal_message :: "externs \<Rightarrow> time \<Rightarrow> entropy \<Rightarrow> fetch_result \<Rightarrow> bytes \<Rightarrow> gerr + bytes" where
  "Seal_message E now rnd r raw =
     try_bind (Seal E now rnd r raw) (\<lambda>env.
     try_bind (MarshalBase64 E env) (\<lambda>b64.
       Inr (concat (map (\<lambda>name. let v = HeaderValue E raw name in
                           if v \<noteq> [] then name @ '': '' @ v @ CRLF else []) RoutingHeaders)
            @ ''Subject: '' @ SubjectPlaceholder @ CRLF
            @ ''Content-Type: text/plain; charset=utf-8'' @ CRLF
            @ HeaderSuite @ '': '' @ eh_suite (ev_header env) @ CRLF
            @ HeaderEncrypted @ '': '' @ Version @ CRLF
            @ CRLF @ b64 @ CRLF)))"

definition IsEncrypted :: "externs \<Rightarrow> bytes \<Rightarrow> bool" where
  "IsEncrypted E raw \<longleftrightarrow> HeaderValue E raw HeaderEncrypted = Version
     \<and> HeaderValue E raw HeaderSuite = SuiteX25519HKDFSHA256AES256GCM"

definition HasReserved :: "externs \<Rightarrow> bytes \<Rightarrow> bool" where
  "HasReserved E raw \<longleftrightarrow> list_ex (\<lambda>name. HeaderValue E raw name \<noteq> []) ReservedHeaders"

definition StripReserved :: "externs \<Rightarrow> bytes \<Rightarrow> bytes" where
  "StripReserved E raw = foldl (RemoveHeader E) raw ReservedHeaders"

definition EnvelopeOf :: "externs \<Rightarrow> bytes \<Rightarrow> gerr + envelope" where
  "EnvelopeOf E raw =
     (if \<not> IsEncrypted E raw then Inl (Msg ''not an MKDP1-encrypted message'')
      else wrap_err ''decode MKDP1 envelope: %w''
             (UnmarshalBase64 E (trim_space (snd (SplitHeaderBody raw)))))"

definition IsSealed :: "externs \<Rightarrow> bytes \<Rightarrow> bool" where
  "IsSealed E raw \<longleftrightarrow> \<not> isl (EnvelopeOf E raw)"

definition Open_message :: "externs \<Rightarrow> bytes \<Rightarrow> bytes \<Rightarrow> gerr + bytes" where
  "Open_message E recipientPriv raw =
     try_bind (EnvelopeOf E raw) (\<lambda>env. Open E recipientPriv (Some env))"

definition Advertise :: "externs \<Rightarrow> bytes \<Rightarrow> string \<Rightarrow> bytes \<Rightarrow> string \<Rightarrow> gerr + bytes" where
  "Advertise E raw domain i authority =
     try_bind (FormatHeader E domain i authority) (\<lambda>v. Inr (SetHeader E raw HeaderName v))"

definition AdvertisedValue :: "externs \<Rightarrow> bytes \<Rightarrow> string" where
  "AdvertisedValue E raw = HeaderValue E raw HeaderName"

section \<open>The submission boundary\<close>

lemma field_names [simp]:
  "field_name HeaderEncrypted" "field_name HeaderSuite" "field_name HeaderName"
  "field_name ''Subject''" "field_name ''Content-Type''" "list_all field_name RoutingHeaders"
  by (simp_all add: field_name_def HeaderEncrypted_def HeaderSuite_def HeaderName_def RoutingHeaders_def
      plain_char_def is_ascii_char_def space1_def)

lemma StripReserved_clean:
  assumes "lower_law E"
  shows "\<not> HasReserved E (StripReserved E raw)"
proof -
  have "lacks E (StripReserved E raw) n" if "n \<in> set ReservedHeaders" for n
    using that RemoveHeader_lacks [OF assms] RemoveHeader_keeps_lacking
    by (auto simp: StripReserved_def ReservedHeaders_def)
  then show ?thesis by (auto simp: HasReserved_def list_ex_iff dest: lacks_value)
qed

lemma StripReserved_body: "snd (SplitHeaderBody (StripReserved E raw)) = snd (SplitHeaderBody raw)"
  by (simp add: StripReserved_def ReservedHeaders_def RemoveHeader_body)

text \<open>A message without the fields is left as it is.\<close>

lemma remove_lines_id: "no_field E pre ls \<Longrightarrow> remove_lines E pre False ls = ls"
  by (induction ls) (auto simp: no_field_Cons)

lemma RemoveHeader_id: "lacks E raw name \<Longrightarrow> RemoveHeader E raw name = raw"
  by (simp add: lacks_def RemoveHeader_lines remove_lines_id)

lemma StripReserved_idem: "lower_law E \<Longrightarrow> StripReserved E (StripReserved E raw) = StripReserved E raw"
  using RemoveHeader_lacks [of E] RemoveHeader_keeps_lacking RemoveHeader_id
  by (simp add: StripReserved_def ReservedHeaders_def)

section \<open>Sealing and opening a message\<close>

lemma lines_of_many: "list_all terminated ls \<Longrightarrow> lines_of (concat ls @ s) = ls @ lines_of s"
  by (induction ls) (auto simp: lines_of_terminated)

definition outer_fields :: "externs \<Rightarrow> bytes \<Rightarrow> bytes list" where
  "outer_fields E raw =
     map (\<lambda>n. field_line n (HeaderValue E raw n)) (filter (\<lambda>n. HeaderValue E raw n \<noteq> []) RoutingHeaders)
       @ [field_line ''Subject'' SubjectPlaceholder, field_line ''Content-Type'' ''text/plain; charset=utf-8'']"

lemma concat_map_filter: "concat (map (\<lambda>n. if P n then f n else []) ns) = concat (map f (filter P ns))"
  by (induction ns) auto

lemma Seal_message_Inr:
  assumes "Seal_message E now rnd r raw = Inr sealed"
  obtains env b64 where "Seal E now rnd r raw = Inr env" and "MarshalBase64 E env = Inr b64"
    and "sealed = concat (outer_fields E raw @ [field_line HeaderSuite SuiteX25519HKDFSHA256AES256GCM,
           field_line HeaderEncrypted Version, CRLF]) @ b64 @ CRLF"
proof -
  from assms obtain env b64 where s: "Seal E now rnd r raw = Inr env" and m: "MarshalBase64 E env = Inr b64"
    and out: "sealed = concat (map (\<lambda>name. if HeaderValue E raw name \<noteq> [] then field_line name (HeaderValue E raw name) else []) RoutingHeaders)
            @ ''Subject: '' @ SubjectPlaceholder @ CRLF
            @ ''Content-Type: text/plain; charset=utf-8'' @ CRLF
            @ HeaderSuite @ '': '' @ eh_suite (ev_header env) @ CRLF
            @ HeaderEncrypted @ '': '' @ Version @ CRLF
            @ CRLF @ b64 @ CRLF"
    by (auto simp: Seal_message_def result_simps Let_def field_line_def cong: if_cong)
  have "eh_suite (ev_header env) = SuiteX25519HKDFSHA256AES256GCM"
    using Seal_Inr [OF s] by (metis env_header.select_convs(2))
  then show ?thesis
    using out by (intro that [OF s m]) (simp add: concat_map_filter outer_fields_def field_line_def)
qed

lemma outer_fields_lines:
  "list_all terminated (outer_fields E raw @ [field_line HeaderSuite SuiteX25519HKDFSHA256AES256GCM,
     field_line HeaderEncrypted Version, CRLF])"
proof -
  have "terminated (field_line n (HeaderValue E raw n))" if "n \<in> set RoutingHeaders" for n
    using that field_names(6) HeaderValue_one_line by (intro field_line_terminated) (auto simp: list_all_iff)
  moreover have "terminated CRLF" by (auto simp: terminated_def intro: exI [of _ "[CHR 0x0D]"])
  moreover have "one_line SubjectPlaceholder" "one_line ''text/plain; charset=utf-8''" "one_line Version"
    "one_line SuiteX25519HKDFSHA256AES256GCM"
    by (simp_all add: one_line_def SubjectPlaceholder_def Version_def SuiteX25519HKDFSHA256AES256GCM_def)
  ultimately show ?thesis
    by (auto simp: outer_fields_def list_all_iff intro: field_line_terminated)
qed

lemma outer_fields_other:
  assumes "lower_law E" and "name \<in> {HeaderEncrypted, HeaderSuite}" and "l \<in> set (outer_fields E raw)"
  shows "\<not> blank_line l \<and> \<not> is_field E (field_prefix E name) l"
proof -
  obtain n v where l: "l = field_line n v" and n: "n \<in> set RoutingHeaders \<union> {''Subject'', ''Content-Type''}"
    using assms(3) by (auto simp: outer_fields_def)
  have "field_name n" "field_name name" "map lower_char n \<noteq> map lower_char name"
    using n assms(2) field_names by (auto simp: list_all_iff RoutingHeaders_def HeaderEncrypted_def HeaderSuite_def lower_char_def is_upper_def)
  then show ?thesis using is_field_other [OF assms(1)] field_line_shape l by blast
qed

lemma encode_std_plain: "c \<in> set (encode_std b) \<Longrightarrow> plain_char c"
  by (auto simp: encode_std_def b64_padding_def sextet_char_def plain_char_def is_ascii_char_def space1_def Let_def
      dest: b64_sextets_bound [rule_format] split: if_splits)

lemma trim_space_body: "trim_space (encode_std b @ CRLF) = encode_std b"
proof -
  let ?v = "encode_std b"
  have "?v = [] \<or> plain_char (hd ?v) \<and> plain_char (last ?v)" by (metis encode_std_plain hd_in_set last_in_set)
  from trim_space_line [OF this] show ?thesis by (simp add: trim_space_space)
qed

text \<open>A sealed message is read back as what was sealed: framed, with the envelope in its body.\<close>

lemma EnvelopeOf_Seal:
  assumes "lower_law E" and "Seal_message E now rnd r raw = Inr sealed"
    and env: "Seal E now rnd r raw = Inr env" and parse: "\<And>s. MarshalBase64 E env = Inr s \<Longrightarrow> UnmarshalBase64 E s = Inr env"
  shows "EnvelopeOf E sealed = Inr env"
proof -
  let ?suite = "field_line HeaderSuite SuiteX25519HKDFSHA256AES256GCM" and ?enc = "field_line HeaderEncrypted Version"
  obtain b64 where m: "MarshalBase64 E env = Inr b64"
    and sealed: "sealed = concat (outer_fields E raw @ [?suite, ?enc, CRLF]) @ b64 @ CRLF"
    using Seal_message_Inr [OF assms(2)] env by (metis sum.inject(2))
  have lines: "lines_of sealed = outer_fields E raw @ ?suite # ?enc # CRLF # lines_of (b64 @ CRLF)"
    unfolding sealed lines_of_many [OF outer_fields_lines] by simp
  have blank: "blank_line CRLF" by (simp add: blank_line_iff is_crlf_def)
  have ends: "Version = [] \<or> plain_char (hd Version) \<and> plain_char (last Version)"
    "SuiteX25519HKDFSHA256AES256GCM = [] \<or> plain_char (hd SuiteX25519HKDFSHA256AES256GCM)
       \<and> plain_char (last SuiteX25519HKDFSHA256AES256GCM)"
    by (simp_all add: Version_def SuiteX25519HKDFSHA256AES256GCM_def plain_char_def is_ascii_char_def space1_def)
  have "HeaderValue E sealed HeaderSuite = SuiteX25519HKDFSHA256AES256GCM"
    unfolding HeaderValue_lines lines
    by (subst value_of_lines_skip, use outer_fields_other [OF assms(1)] in blast)
      (rule value_of_lines_hit [OF assms(1) field_names(2) ends(2)], use field_line_shape in simp)
  moreover have "HeaderValue E sealed HeaderEncrypted = Version"
  proof -
    have "\<not> is_field E (field_prefix E HeaderEncrypted) ?suite"
      by (rule is_field_other [OF assms(1) field_names(2) field_names(1)])
        (simp add: HeaderEncrypted_def HeaderSuite_def lower_char_def is_upper_def)
    then have skip: "\<forall>l \<in> set (outer_fields E raw @ [?suite]). \<not> blank_line l \<and> \<not> is_field E (field_prefix E HeaderEncrypted) l"
      using outer_fields_other [OF assms(1), of HeaderEncrypted] field_line_shape [OF field_names(2)] by auto
    have "value_of_lines E (field_prefix E HeaderEncrypted) False [] (?enc # CRLF # lines_of (b64 @ CRLF)) = Version"
      by (rule value_of_lines_hit [OF assms(1) field_names(1) ends(1)]) (simp add: blank)
    then have "value_of_lines E (field_prefix E HeaderEncrypted) False [] ((outer_fields E raw @ [?suite]) @ ?enc # CRLF # lines_of (b64 @ CRLF)) = Version"
      by (simp only: value_of_lines_skip [OF skip])
    then show ?thesis unfolding HeaderValue_lines lines by simp
  qed
  moreover have "snd (SplitHeaderBody sealed) = b64 @ CRLF"
  proof -
    have shown: "\<not> blank_line l" if "l \<in> set (outer_fields E raw @ [?suite, ?enc])" for l
      using that outer_fields_other [OF assms(1), of HeaderEncrypted l raw] field_line_shape by auto
    have "dropWhile (\<lambda>l. \<not> blank_line l) (lines_of sealed) = CRLF # lines_of (b64 @ CRLF)"
      using dropWhile_append2 [of "outer_fields E raw @ [?suite, ?enc]" "\<lambda>l. \<not> blank_line l" "CRLF # lines_of (b64 @ CRLF)"] shown blank
      by (simp add: lines)
    then show ?thesis
      using blank unfolding SplitHeaderBody_def SplitHeaderBody_lines by (simp add: lines)
  qed
  moreover obtain b where "b64 = encode_std b" using m by (auto simp: MarshalBase64_def result_simps)
  ultimately show ?thesis
    using parse [OF m] by (simp add: EnvelopeOf_def IsEncrypted_def trim_space_body)
qed

lemma Open_message_Seal:
  assumes "lower_law E" and "dh_law E" and "aead_law E" and "sha256_len E"
    and sealed: "Seal_message E now rnd r raw = Inr sealed"
    and priv: "ex_x_public E priv = Some (kd_public_key (mf_key (rs_manifest r)))" "length priv = pubKeyLen"
    and nonce: "\<And>n. en_nonce rnd = Some n \<Longrightarrow> length n = nonceLen"
    and codec: "\<And>e. codec_law E (envelope_value e)"
    and size: "\<And>e b. Seal E now rnd r raw = Inr e \<Longrightarrow> Marshal E e = Inr b \<Longrightarrow> b \<noteq> [] \<and> length b \<le> MaxWireBytes"
  shows "Open_message E priv sealed = Inr raw"
proof -
  obtain env where env: "Seal E now rnd r raw = Inr env" using Seal_message_Inr [OF sealed] by metis
  from Seal_Inr [OF env] obtain packed where "Pack E (rs_manifest r) = Inr packed" "rs_manifest_id r = ManifestIDOf E packed"
    and "eh_kid (ev_header env) = kd_kid (mf_key (rs_manifest r))" "eh_manifest_id (ev_header env) = rs_manifest_id r"
    by (metis env_header.select_convs)
  then have ids: "length (eh_kid (ev_header env)) = 32" "length (eh_manifest_id (ev_header env)) = 32"
    using assms(4) by (auto simp: Pack_Inr KeyIDOf_Inr ManifestIDOf_def sha256_len_def)
  have "EnvelopeOf E sealed = Inr env"
    by (rule EnvelopeOf_Seal [OF assms(1) sealed env UnmarshalBase64_Marshal [OF _ codec ids size [OF env]]])
  then show ?thesis
    using Open_Seal [OF assms(2,3) env priv nonce] by (simp add: Open_message_def)
qed

section \<open>The advertisement reaches the reader\<close>

lemma norm_char_line: "list_all norm_char d \<Longrightarrow> one_line d"
  using norm_char_plain [of "CHR 0x0A"] by (auto simp: one_line_def list_all_iff plain_char_def space1_def)

lemma field_chars_line: "list_all field_char v \<Longrightarrow> one_line v"
  by (auto simp: one_line_def list_all_iff field_char_def plain_char_def space1_def dest!: bspec)

lemma one_line_append [simp]: "one_line (a @ b) \<longleftrightarrow> one_line a \<and> one_line b"
  by (auto simp: one_line_def)

lemma FormatHeader_line:
  assumes "idna_ldh E" and "FormatHeader E domain i authority = Inr s"
  shows "one_line s \<and> s \<noteq> [] \<and> plain_char (hd s) \<and> plain_char (last s)"
proof -
  obtain d where d: "NormalizeDomain E domain = Inr d" using assms(2) by (auto simp: FormatHeader_def result_simps)
  have lit: "one_line ''v=''" "one_line ''; d=''" "one_line ''; id=''" "one_line ''; a=''" "one_line ''; mode=''"
    by (simp_all add: one_line_def)
  have parts: "one_line Version" "one_line d" "one_line (encodeID i)" "one_line Mode"
    using normalized_shape(1) [OF assms(1) d] by (auto intro: norm_char_line field_chars_line encodeID_field)
  have auth: "one_line a" if "NormalizeDomain E authority = Inr a" for a
    using normalized_shape(1) [OF assms(1) that] by (rule norm_char_line)
  obtain mid where s: "s = ''v='' @ mid @ ''; mode='' @ Mode" and "one_line mid"
  proof (cases "authority = []")
    case True
    then have "s = ''v='' @ (Version @ ''; d='' @ d @ ''; id='' @ encodeID i) @ ''; mode='' @ Mode"
      using assms(2) d by (simp add: FormatHeader_def Let_def)
    then show ?thesis using parts lit
      by (intro that [of "Version @ ''; d='' @ d @ ''; id='' @ encodeID i"]) (simp_all only: one_line_append)
  next
    case False
    then obtain a where a: "NormalizeDomain E authority = Inr a"
      and sa: "s = ''v='' @ (Version @ ''; d='' @ d @ ''; id='' @ encodeID i @ (if a \<noteq> d then ''; a='' @ a else [])) @ ''; mode='' @ Mode"
      using assms(2) d by (auto simp: FormatHeader_def Let_def result_simps)
    have "one_line (if a \<noteq> d then ''; a='' @ a else [])" using auth [OF a] lit by (simp add: one_line_def)
    then show ?thesis using sa parts lit
      by (intro that [of "Version @ ''; d='' @ d @ ''; id='' @ encodeID i @ (if a \<noteq> d then ''; a='' @ a else [])"])
        (simp_all only: one_line_append)
  qed
  then show ?thesis using parts lit by (simp add: Mode_def one_line_def plain_char_def is_ascii_char_def space1_def)
qed

lemma AdvertisedValue_Advertise:
  assumes "idna_ldh E" and "lower_law E" and "Advertise E raw domain i authority = Inr out" and "\<not> isContinuation raw"
  obtains s where "FormatHeader E domain i authority = Inr s" and "AdvertisedValue E out = s"
proof -
  obtain s where s: "FormatHeader E domain i authority = Inr s" and out: "out = SetHeader E raw HeaderName s"
    using assms(3) by (auto simp: Advertise_def result_simps)
  have "AdvertisedValue E out = s"
    unfolding AdvertisedValue_def out
    using FormatHeader_line [OF assms(1) s] assms(4) by (intro HeaderValue_SetHeader [OF assms(2)]) auto
  then show ?thesis using s by (rule that [rotated])
qed

end
