(* ===== verification/Message_Examples.thy ===== *)
theory Message_Examples
  imports Message Examples
begin

text \<open>
  The concrete instance keeps the laws sealing relies on, and a message sealed with it.
\<close>

section \<open>The primitives of the concrete instance\<close>

lemma inst_dh: "dh_law inst"
proof -
  have "map2 (\<lambda>x y. nat_char ((char_nat x + char_nat y) mod 256)) a b
      = map2 (\<lambda>x y. nat_char ((char_nat x + char_nat y) mod 256)) b a" for a b :: bytes
    by (induction a b rule: list_induct2') (simp_all add: add.commute)
  then show ?thesis
    by (auto simp: dh_law_def inst_def inst_public_def inst_ecdh_def pubKeyLen_def split: if_splits)
qed

lemma inst_aead: "aead_law inst"
  by (auto simp: aead_law_def inst_def inst_open_def inst_seal_def Let_def starts_with_def)

lemma inst_lower: "lower_law inst"
  by (simp add: lower_law_def inst_def)

section \<open>A key pair, a sealing, a message\<close>

definition demo_private :: bytes where "demo_private = replicate 32 (CHR ''k'')"

definition demo_ephemeral :: bytes where "demo_ephemeral = replicate 32 (CHR ''e'')"

definition demo_entropy :: entropy where
  "demo_entropy = \<lparr>en_ephemeral = Some demo_ephemeral, en_nonce = Some (replicate 12 (CHR ''n''))\<rparr>"

definition demo_mail :: bytes where
  "demo_mail = ''From: a@example.org'' @ CRLF @ ''Subject: hello'' @ CRLF @ CRLF @ ''body'' @ CRLF"

lemma demo_key_sel:
  "kd_public_key (mf_key demo_manifest) = demo_private" "kd_algorithm (mf_key demo_manifest) = AlgX25519"
  "kd_encryption (mf_key demo_manifest) = EncAES256GCM"
  unfolding demo_private_def by code_simp+

lemma demo_private_sel [simp]: "length demo_private = 32" "length demo_ephemeral = 32"
  by (simp_all add: demo_private_def demo_ephemeral_def)

lemma inst_crypto_sel [simp]:
  "ex_x_public inst = inst_public" "ex_x_valid inst pk = (length pk = 32)" "ex_ecdh inst = inst_ecdh"
  "ex_hkdf inst = inst_hkdf" "ex_aead_seal inst = inst_seal"
  by (auto simp: inst_def)

lemma inst_hkdf_32: "\<exists>key. inst_hkdf s t i 32 = Some key \<and> length key = 32"
  by (simp add: inst_hkdf_def)

lemma demo_seals: "\<exists>e. Seal inst issued demo_entropy demo_result m = Inr e"
proof -
  obtain s where s: "inst_ecdh demo_ephemeral demo_private = Some s" by (simp add: inst_ecdh_def)
  obtain key where k: "inst_hkdf s (demo_ephemeral @ demo_private) hkdfInfo 32 = Some key" "length key = 32"
    using inst_hkdf_32 by blast
  have c: "canonical_domain inst example_com" by simp
  show ?thesis
    using demo_pack demo_raw_size s k
    by (simp add: Seal_def demo_result_def demo_key_sel demo_entropy_def Let_def pubKeyLen_def AAD_def
        ValidateHeader_def deriveAEAD_def aeadKeyLen_def inst_public_def issued_def)
qed

definition demo_envelope :: envelope where
  "demo_envelope = (case Seal inst issued demo_entropy demo_result demo_mail of Inr e \<Rightarrow> e | Inl _ \<Rightarrow> undefined)"

lemma demo_sealed: "Seal inst issued demo_entropy demo_result demo_mail = Inr demo_envelope"
  using demo_seals [of demo_mail] by (auto simp: demo_envelope_def)

section \<open>Sizes\<close>

lemma length_enc_str [simp]: "length (enc_str s) = 2 * length s + 1"
  by (induction s) auto

lemma length_enc_map:
  "length (enc (sorted_map_of kvs)) = 2 + sum_list (map (\<lambda>(k, v). 2 + 2 * length k + length (enc v)) kvs)"
proof -
  have "sum_list (map f (sort_key fst kvs)) = sum_list (map f kvs)" for f :: "string \<times> gvalue \<Rightarrow> nat"
    by (metis mset_map mset_sort sum_mset_sum_list)
  then show ?thesis by (simp add: sorted_map_of_def length_concat comp_def case_prod_unfold)
qed

lemma length_nat_digits_version: "length (enc (VLong (ucast (1 :: 32 word)))) = 4"
  by (simp add: nat_digits.simps)

lemma demo_envelope_sel:
  "ValidateHeader (ev_header demo_envelope) = Inr ()" "eh_version (ev_header demo_envelope) = 1"
  "eh_domain (ev_header demo_envelope) = example_com" "length (eh_kid (ev_header demo_envelope)) = 32"
  "length (eh_manifest_id (ev_header demo_envelope)) = 32" "length (ev_nonce demo_envelope) = 12"
  "\<exists>key aad. length key \<le> 32 \<and> ev_ciphertext demo_envelope = inst_seal key (ev_nonce demo_envelope) demo_mail aad
     \<and> aad = enc (sorted_map_of (header_fields (ev_header demo_envelope)))"
proof -
  from Seal_Inr [OF demo_sealed] obtain eph ephPub shared aad key nonce packed where
    packed: "Pack inst (rs_manifest demo_result) = Inr packed" and mid: "rs_manifest_id demo_result = ManifestIDOf inst packed"
    and aad: "AAD inst (ev_header demo_envelope) = Inr aad" and n: "en_nonce demo_entropy = Some nonce"
    and key: "deriveAEAD inst shared ephPub (kd_public_key (mf_key (rs_manifest demo_result))) = Inr key"
    and h: "ev_header demo_envelope = \<lparr>eh_version = EnvelopeVersion, eh_suite = SuiteX25519HKDFSHA256AES256GCM,
           eh_domain = mf_domain (rs_manifest demo_result), eh_kid = kd_kid (mf_key (rs_manifest demo_result)),
           eh_manifest_id = rs_manifest_id demo_result, eh_algorithm = kd_algorithm (mf_key (rs_manifest demo_result)),
           eh_encryption = kd_encryption (mf_key (rs_manifest demo_result)), eh_ephemeral = ephPub\<rparr>"
    and c: "ev_nonce demo_envelope = nonce" "ev_ciphertext demo_envelope = ex_aead_seal inst key nonce demo_mail aad"
    by metis
  show "ValidateHeader (ev_header demo_envelope) = Inr ()" using aad by (simp add: AAD_Inr)
  show "eh_version (ev_header demo_envelope) = 1" "eh_domain (ev_header demo_envelope) = example_com"
    by (simp_all add: h EnvelopeVersion_def demo_result_def)
  show "length (eh_kid (ev_header demo_envelope)) = 32" "length (eh_manifest_id (ev_header demo_envelope)) = 32"
    using packed mid inst_laws(3) by (auto simp: h Pack_Inr KeyIDOf_Inr ManifestIDOf_def sha256_len_def)
  show "length (ev_nonce demo_envelope) = 12" using n c by (auto simp: demo_entropy_def)
  show "\<exists>key aad. length key \<le> 32 \<and> ev_ciphertext demo_envelope = inst_seal key (ev_nonce demo_envelope) demo_mail aad
     \<and> aad = enc (sorted_map_of (header_fields (ev_header demo_envelope)))"
    using key aad c by (intro exI [of _ key] exI [of _ aad]) (auto simp: deriveAEAD_Inr AAD_Inr)
qed

lemma demo_header_length: "length (enc (sorted_map_of (header_fields (ev_header demo_envelope)))) \<le> 1000"
proof -
  have "eh_suite (ev_header demo_envelope) = SuiteX25519HKDFSHA256AES256GCM" "eh_algorithm (ev_header demo_envelope) = AlgX25519"
    "eh_encryption (ev_header demo_envelope) = EncAES256GCM" "length (eh_ephemeral (ev_header demo_envelope)) = 32"
    using demo_envelope_sel(1) by (simp_all add: ValidateHeader_Inr pubKeyLen_def)
  then show ?thesis
    unfolding length_enc_map header_fields_def using length_nat_digits_version
    by (simp add: demo_envelope_sel SuiteX25519HKDFSHA256AES256GCM_def AlgX25519_def EncAES256GCM_def)
qed

lemma demo_marshal: "\<exists>raw. Marshal inst demo_envelope = Inr raw \<and> raw \<noteq> [] \<and> length raw \<le> MaxWireBytes"
proof -
  obtain key where key: "length key \<le> 32" and c: "ev_ciphertext demo_envelope = inst_seal key (ev_nonce demo_envelope) demo_mail
      (enc (sorted_map_of (header_fields (ev_header demo_envelope))))"
    using demo_envelope_sel(7) by blast
  have "length (ev_ciphertext demo_envelope) \<le> 3000"
    using key demo_header_length by (simp add: c inst_seal_def demo_envelope_sel demo_mail_def)
  then have "length (enc (envelope_value demo_envelope)) \<le> MaxWireBytes"
    using demo_header_length unfolding envelope_value_def length_enc_map
    by (simp add: demo_envelope_sel MaxWireBytes_def)
  moreover have "enc (envelope_value demo_envelope) \<noteq> []" by (simp add: envelope_value_def sorted_map_of_def)
  moreover have "Marshal inst demo_envelope = Inr (enc (envelope_value demo_envelope))"
    by (simp add: Marshal_Inr demo_envelope_sel nonceLen_def)
  ultimately show ?thesis by blast
qed

section \<open>What the properties are shown at\<close>

lemma demo_opens: "Open inst demo_private (Some demo_envelope) = Inr demo_mail"
proof (rule Open_Seal [OF inst_dh inst_aead demo_sealed])
  show "ex_x_public inst demo_private = Some (kd_public_key (mf_key (rs_manifest demo_result)))"
    by (simp add: demo_result_def demo_key_sel inst_public_def)
qed (auto simp: demo_entropy_def pubKeyLen_def nonceLen_def)

lemma enc_str_inject: "enc_str a @ r = enc_str b @ r' \<Longrightarrow> a = b \<and> r = r'"
  using dec_enc_str by (metis option.inject prod.inject)

lemma inst_unforged: "\<not> forged inst nonce c key aad key' aad'"
proof
  assume f: "forged inst nonce c key aad key' aad'"
  then obtain r r' where "c = enc_str key @ enc_str nonce @ enc_str aad @ r" "c = enc_str key' @ enc_str nonce @ enc_str aad' @ r'"
    by (auto simp: forged_def inst_def inst_open_def Let_def starts_with_iff split: if_splits)
  then have "aad = aad'" by (metis enc_str_inject)
  with f show False by (simp add: forged_def)
qed

lemma demo_other_header: "(ev_header demo_envelope)\<lparr>eh_manifest_id := zero32\<rparr> \<noteq> ev_header demo_envelope"
proof -
  have "\<exists>x. enc (sorted_map_of kvs) = x @ '']''" for kvs
    unfolding sorted_map_of_def enc.simps append_Cons [symmetric] by blast
  moreover have "demo_raw = enc (manifest_value demo_manifest)" using demo_pack by (simp add: Pack_Inr)
  ultimately obtain x where x: "demo_raw = x @ '']''" unfolding manifest_value_def by metis
  have "rs_manifest_id demo_result \<noteq> zero32"
    by (rule notI, drule arg_cong [of _ _ hd]) (simp add: demo_result_def ManifestIDOf_def inst_sha256_def x zero32_def)
  moreover have "eh_manifest_id (ev_header demo_envelope) = rs_manifest_id demo_result"
    using Seal_Inr [OF demo_sealed] by (metis env_header.select_convs(5))
  ultimately show ?thesis by (metis env_header.select_convs(5) env_header.surjective env_header.update_convs(5))
qed

lemma demo_message: "\<exists>sealed. Seal_message inst issued demo_entropy demo_result demo_mail = Inr sealed"
  using demo_sealed demo_marshal by (auto simp: Seal_message_def MarshalBase64_def Let_def)

end
