(* ===== verification/Wellknown.thy ===== *)
theory Wellknown
  imports Http Domain Resource
begin

text \<open>
  \<^verbatim>\<open>wellknown/wellknown.go\<close>: the publishing half, a handler that answers for the domains its
  publisher claims.  A handler maps a request to the status, the header fields and the
  body it writes; the clock is the instant of the request.
\<close>

text \<open>\<^verbatim>\<open>mailkey.Publisher\<close>, with the optional \<^verbatim>\<open>mailkey.IdentityPublisher\<close>.\<close>

record publisher =
  pu_manifest :: "string \<Rightarrow> publication option"
  pu_identity :: "(string \<Rightarrow> bytes option) option"

record handler =
  hd_publisher :: "publisher option"
  hd_max_age :: duration
  hd_now :: time

record answer =
  an_status :: int
  an_header :: http_header
  an_body :: bytes

definition MaxCacheAge :: duration where "MaxCacheAge = hour"

definition maxAge :: "handler \<Rightarrow> duration" where
  "maxAge t = (if hd_max_age t > 0 then hd_max_age t else MaxCacheAge)"

text \<open>\<^verbatim>\<open>http.Error\<close>.\<close>

definition http_error :: "http_header \<Rightarrow> string \<Rightarrow> int \<Rightarrow> answer" where
  "http_error h msg status =
     \<lparr>an_status = status,
      an_header = header_set (header_set (h(''Content-Length'' := []))
                     ''Content-Type'' ''text/plain; charset=utf-8'') ''X-Content-Type-Options'' ''nosniff'',
      an_body = msg @ [CHR 0x0A]\<rparr>"

definition miss :: answer where
  "miss = http_error (header_set no_header ''Cache-Control'' ''no-store'')
     ''no MKDP1 manifest is published for this host'' 404"

section \<open>Which domain\<close>

text \<open>The first candidate the publisher answers for with some bytes.\<close>

fun first_published :: "(string \<Rightarrow> 'a option) \<Rightarrow> ('a \<Rightarrow> bool) \<Rightarrow> string list \<Rightarrow> 'a option" where
  "first_published current full [] = None"
| "first_published current full (d # ds) =
     (case current d of
        Some x \<Rightarrow> if full x then Some x else first_published current full ds
      | None \<Rightarrow> first_published current full ds)"

definition candidates :: "externs \<Rightarrow> request \<Rightarrow> string list option" where
  "candidates E r =
     (let raw = query_get (rq_query r) SubjectQueryParam in
      if raw \<noteq> [] then (case NormalizeDomain E raw of Inl _ \<Rightarrow> None | Inr d \<Rightarrow> Some [d])
      else Some (DomainCandidatesOf E (rq_host r)))"

definition lookup :: "externs \<Rightarrow> publisher \<Rightarrow> request \<Rightarrow> publication option" where
  "lookup E p r =
     (case candidates E r of
        None \<Rightarrow> None
      | Some ds \<Rightarrow> first_published (pu_manifest p) (\<lambda>pub. pb_raw pub \<noteq> []) ds)"

section \<open>Caching\<close>

text \<open>\<^verbatim>\<open>Duration.Truncate\<close> rounds towards zero.\<close>

definition truncate_duration :: "duration \<Rightarrow> duration \<Rightarrow> duration" where
  "truncate_duration d m = (if d \<ge> 0 then d div m * m else - (- d div m * m))"

definition cacheSeconds :: "handler \<Rightarrow> time \<Rightarrow> duration" where
  "cacheSeconds t expires =
     (let age = maxAge t;
          left = truncate_duration (time_sub expires (hd_now t)) second;
          age = (if expires \<noteq> zero_time \<and> left < age then left else age)
      in if age < 0 then 0 else age)"

definition cache_control :: "duration \<Rightarrow> string" where
  "cache_control age = ''public, max-age='' @ itoa (age div second)"

definition is_blank :: "char \<Rightarrow> bool" where
  "is_blank c \<longleftrightarrow> c = CHR '' '' \<or> c = CHR 0x09"

definition trimSpace :: "string \<Rightarrow> string" where
  "trimSpace s = rev (dropWhile is_blank (rev (dropWhile is_blank s)))"

function etagMatches :: "string \<Rightarrow> string \<Rightarrow> bool" where
  "etagMatches l etag =
     (if l = [] then False
      else
        let part = takeWhile (\<lambda>c. c \<noteq> CHR '','') l;
            rest = dropWhile (\<lambda>c. c \<noteq> CHR '','') l;
            candidate = trimSpace part
        in if candidate = ''*'' \<or> candidate = etag then True
           else if rest = [] then False
           else etagMatches (tl rest) etag)"
  by pat_completeness auto
termination
proof (relation "measure (length \<circ> fst)", goal_cases)
  case (2 l etag part rest candidate)
  have "length rest \<le> length l" unfolding 2 by (rule length_dropWhile_le)
  moreover have "length rest > 0" using 2 by simp
  ultimately show ?case by (simp del: length_greater_0_conv)
qed simp

declare etagMatches.simps [simp del]

section \<open>Answering\<close>

definition etag_of :: "bytes \<Rightarrow> string" where
  "etag_of i = [CHR 0x22] @ EncodeID i @ [CHR 0x22]"

text \<open>The fields of a document, and the rest of an answer that has one.\<close>

definition doc_header :: "string \<Rightarrow> duration \<Rightarrow> http_header" where
  "doc_header etag age =
     header_set (header_set (header_set (header_set no_header ''ETag'' etag)
       ''Cache-Control'' (cache_control age)) ''Content-Type'' MediaType)
       ''X-Content-Type-Options'' ''nosniff''"

definition conditional :: "request \<Rightarrow> string \<Rightarrow> http_header \<Rightarrow> bytes \<Rightarrow> answer" where
  "conditional r etag h body =
     (let match = header_get (rq_header r) ''If-None-Match'' in
      if match \<noteq> [] \<and> etagMatches match etag
        then \<lparr>an_status = 304, an_header = h, an_body = []\<rparr>
      else
        \<lparr>an_status = 200, an_header = header_set h ''Content-Length'' (itoa (int (length body))),
         an_body = (if rq_method r = ''HEAD'' then [] else body)\<rparr>)"

definition serveIdentity :: "externs \<Rightarrow> handler \<Rightarrow> publisher \<Rightarrow> request \<Rightarrow> answer" where
  "serveIdentity E t p r =
     (case pu_identity p of
        None \<Rightarrow> miss
      | Some doc_of \<Rightarrow>
          (case candidates E r of
             None \<Rightarrow> miss
           | Some ds \<Rightarrow>
               (case first_published doc_of (\<lambda>b. b \<noteq> []) ds of
                  None \<Rightarrow> miss
                | Some raw \<Rightarrow>
                    let etag = etag_of (ex_sha256 E raw)
                    in conditional r etag (doc_header etag (maxAge t)) raw)))"

definition ServeHTTP :: "externs \<Rightarrow> handler \<Rightarrow> request \<Rightarrow> answer" where
  "ServeHTTP E t r =
     (if rq_method r \<noteq> ''GET'' \<and> rq_method r \<noteq> ''HEAD''
        then http_error (header_set no_header ''Allow'' ''GET, HEAD'') ''method not allowed'' 405
      else case hd_publisher t of
        None \<Rightarrow> miss
      | Some p \<Rightarrow>
          if rq_path r = ResourcePath then serveIdentity E t p r
          else
            (case lookup E p r of
               None \<Rightarrow> miss
             | Some pub \<Rightarrow>
                 let etag = etag_of (pb_id pub)
                 in conditional r etag
                      (WriteProof (doc_header etag (cacheSeconds t (pb_expires_at pub))) (pb_proof pub))
                      (pb_raw pub)))"

section \<open>It speaks for its own domains only\<close>

lemma first_published_Some:
  "first_published f full ds = Some x \<Longrightarrow> full x \<and> (\<exists>d \<in> set ds. f d = Some x)"
  by (induction ds) (auto split: option.splits if_splits)

lemma first_published_hit: "f d = Some x \<Longrightarrow> full x \<Longrightarrow> first_published f full (d # ds) = Some x"
  by simp

lemma miss_status [simp]: "an_status miss = 404" "an_status (http_error h m s) = s"
  by (simp_all add: miss_def http_error_def)

lemma conditional_status: "an_status (conditional r etag h body) \<in> {200, 304}"
  by (simp add: conditional_def Let_def)

lemma candidates_normal:
  assumes "candidates E r = Some ds" and "d \<in> set ds"
  shows "\<exists>x. NormalizeDomain E x = Inr d"
  using assms
  by (auto simp: candidates_def DomainCandidatesOf_def Let_def split: if_splits sum.splits option.splits)

text \<open>An answer with a document is the publisher's own, for a normalized domain the request
  names.\<close>

lemma ServeHTTP_document:
  assumes ok: "an_status (ServeHTTP E t r) \<in> {200, 304}" and path: "rq_path r \<noteq> ResourcePath"
  shows "\<exists>p ds d pub. hd_publisher t = Some p \<and> candidates E r = Some ds \<and> d \<in> set ds
     \<and> pu_manifest p d = Some pub \<and> pb_raw pub \<noteq> []
     \<and> ServeHTTP E t r = conditional r (etag_of (pb_id pub))
          (WriteProof (doc_header (etag_of (pb_id pub)) (cacheSeconds t (pb_expires_at pub))) (pb_proof pub))
          (pb_raw pub)"
proof -
  obtain p where p: "hd_publisher t = Some p"
    using ok by (cases "hd_publisher t") (auto simp: ServeHTTP_def split: if_splits)
  obtain pub where pub: "lookup E p r = Some pub"
    using ok path p by (cases "lookup E p r") (auto simp: ServeHTTP_def split: if_splits)
  obtain ds where ds: "candidates E r = Some ds"
    and hit: "first_published (pu_manifest p) (\<lambda>pub. pb_raw pub \<noteq> []) ds = Some pub"
    using pub by (auto simp: lookup_def split: option.splits)
  obtain d where d: "d \<in> set ds" "pu_manifest p d = Some pub" and full: "pb_raw pub \<noteq> []"
    using first_published_Some [OF hit] by blast
  have "ServeHTTP E t r = conditional r (etag_of (pb_id pub))
          (WriteProof (doc_header (etag_of (pb_id pub)) (cacheSeconds t (pb_expires_at pub))) (pb_proof pub))
          (pb_raw pub)"
    using ok path p pub by (auto simp: ServeHTTP_def Let_def split: if_splits)
  then show ?thesis using p ds d full by blast
qed

lemma ServeHTTP_identity_document:
  assumes ok: "an_status (ServeHTTP E t r) \<in> {200, 304}" and path: "rq_path r = ResourcePath"
  shows "\<exists>p doc_of ds d raw. hd_publisher t = Some p \<and> pu_identity p = Some doc_of \<and> candidates E r = Some ds
     \<and> d \<in> set ds \<and> doc_of d = Some raw \<and> raw \<noteq> []
     \<and> ServeHTTP E t r = conditional r (etag_of (ex_sha256 E raw))
          (doc_header (etag_of (ex_sha256 E raw)) (maxAge t)) raw"
proof -
  obtain p where p: "hd_publisher t = Some p" and s: "ServeHTTP E t r = serveIdentity E t p r"
    using ok path by (cases "hd_publisher t") (auto simp: ServeHTTP_def split: if_splits)
  obtain doc_of ds raw where i: "pu_identity p = Some doc_of" "candidates E r = Some ds"
    and hit: "first_published doc_of (\<lambda>b. b \<noteq> []) ds = Some raw"
    using ok s by (auto simp: serveIdentity_def split: option.splits)
  obtain d where "d \<in> set ds" "doc_of d = Some raw" and "raw \<noteq> []"
    using first_published_Some [OF hit] by blast
  moreover have "serveIdentity E t p r = conditional r (etag_of (ex_sha256 E raw))
          (doc_header (etag_of (ex_sha256 E raw)) (maxAge t)) raw"
    by (simp add: serveIdentity_def i hit Let_def)
  ultimately show ?thesis using p s i by auto
qed

lemma conditional_body:
  "an_body (conditional r etag h body) = (if an_status (conditional r etag h body) = 200 \<and> rq_method r \<noteq> ''HEAD''
     then body else [])"
  by (simp add: conditional_def Let_def)

lemma header_set_get_other: "k \<noteq> k' \<Longrightarrow> header_get (header_set h k v) k' = header_get h k'"
  by simp

section \<open>Caches\<close>

lemma div_mult_le: "(0::int) < m \<Longrightarrow> d div m * m \<le> d"
  using div_mult_mod_eq [of d m] pos_mod_sign [of m d] by linarith

lemma truncate_duration_le: "0 < m \<Longrightarrow> 0 \<le> d \<Longrightarrow> truncate_duration d m \<le> d"
  by (simp add: truncate_duration_def div_mult_le)

lemma truncate_duration_neg: "0 < m \<Longrightarrow> d < 0 \<Longrightarrow> truncate_duration d m \<le> 0"
  by (simp add: truncate_duration_def pos_imp_zdiv_nonneg_iff zero_le_mult_iff)

text \<open>A cache may keep an answer no longer than the bound, nor past the expiry.\<close>

lemma cacheSeconds_bounds:
  assumes "expires \<noteq> zero_time" and "hd_now t \<le> expires"
  shows "0 \<le> cacheSeconds t expires" and "cacheSeconds t expires \<le> maxAge t"
    and "hd_now t + cacheSeconds t expires \<le> expires"
proof -
  have m: "0 < maxAge t" by (simp add: maxAge_def MaxCacheAge_def)
  have nn: "0 \<le> time_sub expires (hd_now t)" "time_sub expires (hd_now t) \<le> expires - hd_now t"
    using assms(2) by (simp_all add: time_sub_def)
  then have t: "truncate_duration (time_sub expires (hd_now t)) second \<le> expires - hd_now t"
    using truncate_duration_le [of second "time_sub expires (hd_now t)"] by simp
  show "0 \<le> cacheSeconds t expires" "cacheSeconds t expires \<le> maxAge t"
    using m by (simp_all add: cacheSeconds_def Let_def)
  show "hd_now t + cacheSeconds t expires \<le> expires"
    using t assms by (auto simp: cacheSeconds_def Let_def)
qed

lemma cacheSeconds_expired:
  assumes "expires \<noteq> zero_time" and "expires < hd_now t"
  shows "cacheSeconds t expires = 0"
proof -
  have "time_sub expires (hd_now t) < 0" using assms(2) by (simp add: time_sub_def)
  then have "truncate_duration (time_sub expires (hd_now t)) second \<le> 0" by (simp add: truncate_duration_neg)
  moreover have "0 < maxAge t" by (simp add: maxAge_def MaxCacheAge_def)
  ultimately show ?thesis using assms(1) by (auto simp: cacheSeconds_def Let_def)
qed

section \<open>Conditional requests\<close>

text \<open>The loop accepts exactly a list with the tag, or a star, among its members.\<close>

lemma split_on_span:
  "split_on c s = (let rest = dropWhile (\<lambda>x. x \<noteq> c) s
     in takeWhile (\<lambda>x. x \<noteq> c) s # (if rest = [] then [] else split_on c (tl rest)))"
  by (induction s) (auto simp: Let_def split: if_splits)

lemma etagMatches_unfold:
  assumes "CHR '','' \<notin> set part" and "etag \<noteq> []"
  shows "etagMatches part etag \<longleftrightarrow> trimSpace part = ''*'' \<or> trimSpace part = etag"
    and "etagMatches (part @ CHR '','' # others) etag \<longleftrightarrow>
      trimSpace part = ''*'' \<or> trimSpace part = etag \<or> etagMatches others etag"
proof -
  have whole: "takeWhile (\<lambda>c. c \<noteq> CHR '','') part = part" "dropWhile (\<lambda>c. c \<noteq> CHR '','') part = []"
    using assms(1) by (auto simp: takeWhile_eq_all_conv dropWhile_eq_Nil_conv)
  have blank: "trimSpace [] = []" by (simp add: trimSpace_def)
  show "etagMatches part etag \<longleftrightarrow> trimSpace part = ''*'' \<or> trimSpace part = etag"
    using assms(2) blank by (subst etagMatches.simps) (simp add: Let_def whole)
  have head: "takeWhile (\<lambda>c. c \<noteq> CHR '','') (part @ CHR '','' # others) = part"
    "dropWhile (\<lambda>c. c \<noteq> CHR '','') (part @ CHR '','' # others) = CHR '','' # others"
    using assms(1) by (simp_all add: takeWhile_tail dropWhile_append3 whole takeWhile_append2 dropWhile_append2)
  show "etagMatches (part @ CHR '','' # others) etag \<longleftrightarrow>
      trimSpace part = ''*'' \<or> trimSpace part = etag \<or> etagMatches others etag"
    by (subst etagMatches.simps) (simp add: Let_def head)
qed

lemma etagMatches_members:
  assumes "etag \<noteq> []"
  shows "etagMatches l etag \<longleftrightarrow>
     (\<exists>part \<in> set (split_on (CHR '','') l). trimSpace part = ''*'' \<or> trimSpace part = etag)"
proof (induction "length l" arbitrary: l rule: less_induct)
  case less
  show ?case
  proof (cases "CHR '','' \<in> set l")
    case False
    then show ?thesis using etagMatches_unfold(1) [OF False assms] by (simp add: split_on_no_sep)
  next
    case True
    then obtain part others where l: "l = part @ CHR '','' # others" and clean: "CHR '','' \<notin> set part"
      using split_list_first [OF True] by blast
    have "length others < length l" using l by simp
    from less [OF this] show ?thesis
      unfolding l using etagMatches_unfold(2) [OF clean assms] by (simp add: split_on_append [OF clean])
  qed
qed

end
