(* ===== verification/Publication.thy ===== *)
theory Publication
  imports Wellknown Outbound Examples
begin

text \<open>
  The two halves together: what a domain publishes with \<open>Wellknown\<close> is what a correspondent
  fetches with \<open>Resolver\<close>.  The wire between them carries an answer as a response.
\<close>

section \<open>The wire\<close>

definition response_of :: "answer \<Rightarrow> response" where
  "response_of a = \<lparr>rp_status = an_status a, rp_length = int (length (an_body a)), rp_header = an_header a,
     rp_bytes = an_body a, rp_broken = None\<rparr>"

text \<open>The authority of a domain, reached: the dialer gets a connection, and what listens there
  is the handler.\<close>

definition served_by ::
  "externs \<Rightarrow> resolver \<Rightarrow> 'c network \<Rightarrow> string \<Rightarrow> string \<Rightarrow> handler \<Rightarrow> bool" where
  "served_by E r W d host t \<longleftrightarrow>
     \<not> nw_cancelled W \<and> list_all is_digit (re_port r)
     \<and> (case DialContext (client_dialer r W d) (host @ '':'' @ re_port r) of
          (_, Inl _) \<Rightarrow> False
        | (_, Inr conn) \<Rightarrow> nw_exchange W conn host = (\<lambda>rq. Inr (response_of (ServeHTTP E t rq))))"

lemma served_by_cases:
  assumes "served_by E r W d host t"
  obtains tried conn where "DialContext (client_dialer r W d) (host @ '':'' @ re_port r) = (tried, Inr conn)"
    and "nw_exchange W conn host = (\<lambda>rq. Inr (response_of (ServeHTTP E t rq)))"
  using assms by (auto simp: served_by_def split: prod.splits sum.splits)

section \<open>The header of a document, read back\<close>

lemma header_get_proof:
  "k \<notin> {HeaderIdentity, HeaderSigner, HeaderSignature} \<Longrightarrow> header_get (WriteProof h pf) k = header_get h k"
  by (cases pf) (auto simp: WriteProof_def)

lemma header_get_doc:
  "header_get (WriteProof (doc_header e age) pf) ''Content-Type'' = MediaType"
  "header_get (WriteProof (doc_header e age) pf) ''Cache-Control'' = cache_control age"
  by (simp_all add: header_get_proof HeaderIdentity_def HeaderSigner_def HeaderSignature_def doc_header_def)

lemma ReadProof_doc:
  assumes "\<And>p. pf = Some p \<Longrightarrow> proof_sized p"
  shows "ReadProof (header_set (WriteProof (doc_header e age) pf) ''Content-Length'' n) = Inr pf"
proof (cases pf)
  case None
  then show ?thesis
    by (simp add: ReadProof_None WriteProof_def doc_header_def HeaderIdentity_def HeaderSigner_def
        HeaderSignature_def no_header_def)
next
  case (Some p)
  then show ?thesis using assms
    by (simp add: ReadProof_Some WriteProof_def header_set_def HeaderIdentity_def HeaderSigner_def HeaderSignature_def EncodeID_def)
qed

lemma checkMediaType_own: "checkMediaType E MediaType = Inr ()"
proof -
  have "ParseMediaType E (''application'' @ CHR ''/'' # ''msgpack'') = Some (''application'' @ CHR ''/'' # ''msgpack'')"
    by (rule ParseMediaType_plain) (simp_all add: token_char_def tspecials_def is_upper_def)
  then show ?thesis by (simp add: checkMediaType_def MediaType_def)
qed

lemma cacheUntil_public:
  assumes "0 \<le> s" and "s * second < 2 ^ 63"
  shows "cacheUntil e now (''public, max-age='' @ itoa s) = min e (now + s * second)"
proof -
  let ?x = "''max-age='' @ itoa s"
  have comma: "CHR '','' \<notin> set ?x"
    using nat_digits_digits [of "nat s"] assms(1) by (auto simp: itoa_def list_all_iff is_digit_def)
  have sp: "split_on (CHR '','') (''public, max-age='' @ itoa s) = [''public'', CHR '' '' # ?x]"
    using comma split_on_append [of "CHR '',''" "''public''" "CHR '' '' # ?x"]
      split_on_no_sep [of "CHR '',''" "CHR '' '' # ?x"] by simp
  have pub: "trim_space ''public'' = ''public''"
    by (rule trim_space_plain_all) (auto simp: plain_char_def is_ascii_char_def space1_def)
  have "cacheUntil e now (''public, max-age='' @ itoa s) = cache_parts e now (split_on (CHR '','') (''public, max-age='' @ itoa s))"
    by (simp add: cacheUntil_def)
  also have "\<dots> = cache_parts e now [CHR '' '' # ?x]"
    unfolding sp by (subst cache_parts.simps, subst pub) simp
  also have "\<dots> = cache_parts e now [?x]"
    by (simp only: cache_parts.simps trim_space_space)
  also have "\<dots> = cacheUntil e now ?x"
    using split_on_no_sep [OF comma] by (simp add: cacheUntil_def del: cache_parts.simps)
  also have "\<dots> = min e (now + s * second)"
    by (rule cacheUntil_max_age [OF assms])
  finally show ?thesis .
qed

section \<open>What is published is fetched\<close>

text \<open>The well-known request for a domain the publisher holds.\<close>

lemma ServeHTTP_own:
  assumes "NormalizeDomain E d = Inr d" and "hd_publisher t = Some p" and "pu_manifest p d = Some pub"
    and "pb_raw pub \<noteq> []" and "rq_method rq = ''GET''" and "rq_path rq = WellKnownPath"
    and "rq_query rq = [(SubjectQueryParam, d)]" and "header_get (rq_header rq) ''If-None-Match'' = []"
  shows "ServeHTTP E t rq = \<lparr>an_status = 200, an_header = header_set
      (WriteProof (doc_header (etag_of (pb_id pub)) (cacheSeconds t (pb_expires_at pub))) (pb_proof pub))
      ''Content-Length'' (itoa (int (length (pb_raw pub)))), an_body = pb_raw pub\<rparr>"
proof -
  have "d \<noteq> []" using assms(1) by (auto simp: NormalizeDomain_def Let_def split: if_splits option.splits)
  then have "candidates E rq = Some [d]"
    using assms by (simp add: candidates_def query_get_def)
  then show ?thesis
    using assms by (simp add: ServeHTTP_def lookup_def conditional_def Let_def WellKnownPath_def ResourcePath_def)
qed

text \<open>The correspondent believes the published bytes, with the proof beside them, until the
  earlier of the expiry and the age the authority stated.\<close>

lemma published_fetched:
  assumes normal: "NormalizeDomain E d = Inr d" and host: "AuthorityHost E d a = Inr host"
    and served: "served_by E r W d host t"
    and pub: "hd_publisher t = Some p" "pu_manifest p d = Some pub"
    and size: "0 \<le> op_max_body (re_opts r)" "int (length (pb_raw pub)) \<le> op_max_body (re_opts r)"
    and parsed: "ParseCanonical E (pb_raw pub) d = Inr m"
    and valid: "Validate m (nw_now W) (op_limits (re_opts r)) = Inr ()"
    and consent: "checkAuthorityConsent E m host = Inr ()"
    and prf_ok: "\<And>pf. pb_proof pub = Some pf \<Longrightarrow> proof_sized pf \<and> Check E (Some pf) d (pb_raw pub) = Inr ()"
    and age: "maxAge t < 2 ^ 63"
  shows "fetch E r W d a = Inr
     \<lparr>rs_manifest = m, rs_manifest_id = ManifestIDOf E (pb_raw pub), rs_raw = pb_raw pub,
      rs_fetched_at = nw_now W,
      rs_expires_at = min (mf_expires_at m)
        (nw_now W + truncate_duration (cacheSeconds t (pb_expires_at pub)) second),
      rs_tls_host = host, rs_proof = pb_proof pub, rs_proof_error = None\<rparr>"
proof -
  let ?u = "\<lparr>u_scheme = ''https'', u_host = host, u_path = WellKnownPath, u_query = [(SubjectQueryParam, d)]\<rparr>"
  let ?h = "header_set (WriteProof (doc_header (etag_of (pb_id pub)) (cacheSeconds t (pb_expires_at pub))) (pb_proof pub))
      ''Content-Length'' (itoa (int (length (pb_raw pub))))"
  let ?rp = "\<lparr>rp_status = 200, rp_length = int (length (pb_raw pub)), rp_header = ?h, rp_bytes = pb_raw pub, rp_broken = None\<rparr>"
  obtain tried conn where dial: "DialContext (client_dialer r W d) (host @ '':'' @ re_port r) = (tried, Inr conn)"
    and ex: "nw_exchange W conn host = (\<lambda>rq. Inr (response_of (ServeHTTP E t rq)))"
    using served by (rule served_by_cases)
  have live: "\<not> nw_cancelled W" "list_all is_digit (re_port r)" using served by (auto simp: served_by_def)
  have raw: "pb_raw pub \<noteq> []" using ParseCanonical_size [OF parsed] by simp
  obtain rq where rq: "request_for r ?u = Inr rq" "rq_method rq = ''GET''" "rq_path rq = WellKnownPath"
      "rq_query rq = [(SubjectQueryParam, d)]" "header_get (rq_header rq) ''If-None-Match'' = []"
    using live by (simp add: request_for_def)
  have rp: "response_of (ServeHTTP E t rq) = ?rp"
    using ServeHTTP_own [OF normal pub raw rq(2-5)] by (simp add: response_of_def)
  have "clientFor r W d host rq = Inr ?rp"
    by (simp add: clientFor_def dial [simplified] ex rp client_do_Inr redirect_status_def)
  then have perf: "perform r W d host ?u = Inr ?rp"
    by (simp add: perform_def rq)
  have url: "DiscoveryURL E d a = Inr ?u" using normal host by (simp add: DiscoveryURL_def)
  have n: "nat (op_max_body (re_opts r) + 1) = Suc (nat (op_max_body (re_opts r)))" using size by (simp add: nat_add_distrib)
  have body: "bounded_body E d ?rp (op_max_body (re_opts r)) = Inr (pb_raw pub)"
    using size by (simp add: bounded_body_def header_get_doc checkMediaType_own read_limited_def n)
  have c: "0 \<le> cacheSeconds t (pb_expires_at pub)" "cacheSeconds t (pb_expires_at pub) < 2 ^ 63"
    using age by (auto simp: cacheSeconds_def Let_def maxAge_def MaxCacheAge_def split: if_splits)
  then have s: "0 \<le> cacheSeconds t (pb_expires_at pub) div second"
     "cacheSeconds t (pb_expires_at pub) div second * second < 2 ^ 63"
    using div_mult_le [of second "cacheSeconds t (pb_expires_at pub)"] by (simp_all add: pos_imp_zdiv_nonneg_iff)
  have cache: "cacheUntil (mf_expires_at m) (nw_now W) (cache_control (cacheSeconds t (pb_expires_at pub)))
     = min (mf_expires_at m) (nw_now W + truncate_duration (cacheSeconds t (pb_expires_at pub)) second)"
    unfolding cache_control_def using cacheUntil_public [OF s] c(1) by (simp add: truncate_duration_def)
  have res: "result_of_body E r (nw_now W) d host ?h (pb_raw pub) = Inr (with_proof E ?h d (pb_raw pub)
     \<lparr>rs_manifest = m, rs_manifest_id = ManifestIDOf E (pb_raw pub), rs_raw = pb_raw pub,
      rs_fetched_at = nw_now W,
      rs_expires_at = min (mf_expires_at m)
        (nw_now W + truncate_duration (cacheSeconds t (pb_expires_at pub)) second),
      rs_tls_host = host, rs_proof = None, rs_proof_error = None\<rparr>)"
    by (simp add: result_of_body_def parsed valid consent header_get_doc cache)
  have rd: "ReadProof ?h = Inr (pb_proof pub)" using prf_ok by (intro ReadProof_doc) blast
  have "with_proof E ?h d (pb_raw pub) out = (if pb_proof pub = None then out else out\<lparr>rs_proof := pb_proof pub\<rparr>)" for out
    unfolding with_proof_def rd using prf_ok by (cases "pb_proof pub") auto
  note proved = this
  show ?thesis
    using live url host perf body res by (simp add: fetch_def check_status_def proved)
qed

section \<open>An example\<close>

definition demo_publication :: publication where
  "demo_publication = \<lparr>pb_raw = demo_raw, pb_id = ManifestIDOf inst demo_raw, pb_expires_at = issued + 4 * second,
     pb_proof = Some demo_proof\<rparr>"

definition demo_publisher :: publisher where
  "demo_publisher = \<lparr>pu_manifest = (\<lambda>d. if d = example_com then Some demo_publication else None),
     pu_identity = None\<rparr>"

definition demo_handler :: handler where
  "demo_handler = \<lparr>hd_publisher = Some demo_publisher, hd_max_age = 0, hd_now = issued + second\<rparr>"

definition demo_options :: options where
  "demo_options = \<lparr>op_timeout = 0, op_dial_timeout = 0, op_max_body = 0,
     op_limits = \<lparr>lim_max_lifetime = 0, lim_max_clock_skew = 0\<rparr>, op_allow_private = False,
     op_port_override = [], op_max_concurrent = 0, op_user_agent = []\<rparr>"

definition demo_net :: "unit network" where
  "demo_net = \<lparr>nw_cancelled = False, nw_lookup = (\<lambda>h. Inr [IPv4 (word_of_octets [8, 8, 8, 8])]),
     nw_connect = (\<lambda>a p. Inr ()), nw_exchange = (\<lambda>_ _ rq. Inr (response_of (ServeHTTP inst demo_handler rq))),
     nw_location_ok = (\<lambda>_. True), nw_now = issued + second\<rparr>"

lemma demo_host: "AuthorityHost inst example_com [] = Inr (HostPrefix @ ''.'' @ example_com)"
  by (simp add: AuthorityHost_Inr normalize_example)

lemma demo_address:
  "split_host_port (HostPrefix @ ''.'' @ example_com @ '':443'') = Some (HostPrefix @ ''.'' @ example_com, ''443'')"
  "parse_addr (HostPrefix @ ''.'' @ example_com) = None"
  by code_simp+

lemma demo_resolver_sel:
  "re_policy (New_resolver demo_options) = \<lparr>ap_allow_private = False\<rparr>"
  "re_port (New_resolver demo_options) = ''443''"
  "op_limits (re_opts (New_resolver demo_options)) = DefaultLimits"
  "op_max_body (re_opts (New_resolver demo_options)) = int MaxBodyBytes"
  by (simp_all add: New_resolver_def demo_options_def Let_def authorityPort_def sane_limits_def DefaultLimits_def
      MaxBodyBytes_def)

lemma demo_dials: "DialContext (client_dialer (New_resolver demo_options) demo_net example_com)
   ((HostPrefix @ ''.'' @ example_com) @ '':'' @ ''443'') = ([IPv4 (word_of_octets [8, 8, 8, 8])], Inr ())"
proof -
  have "Permit \<lparr>ap_allow_private = False\<rparr> (IPv4 (word_of_octets [8, 8, 8, 8])) = Inr ()"
    by (subst Permit_v4) (simp_all add: reserved4_def private4_def)
  then show ?thesis
    using demo_address
    by (simp add: DialContext_def client_dialer_def demo_net_def demo_resolver_sel fail_msg_def)
qed

lemma demo_served: "served_by inst (New_resolver demo_options) demo_net example_com (HostPrefix @ ''.'' @ example_com) demo_handler"
  using demo_dials by (simp add: served_by_def demo_resolver_sel is_digit_def) (simp add: demo_net_def)

lemma demo_parsed: "ParseCanonical inst demo_raw example_com = Inr demo_manifest"
  using ParseCanonical_Pack [OF demo_pack inst_laws(2,3,4) demo_raw_size demo_times] by simp

lemma demo_valid: "Validate demo_manifest (issued + second) DefaultLimits = Inr ()"
  by (simp add: Validate_Inr DefaultLimits_def time_sub_def)

lemma demo_no_authority: "mf_authority demo_manifest = []"
  by code_simp

lemma demo_consent: "checkAuthorityConsent inst demo_manifest (HostPrefix @ ''.'' @ example_com) = Inr ()"
  using demo_host by (simp add: checkAuthorityConsent_def demo_no_authority equal_fold_def HostPrefix_def ascii_str_def is_ascii_char_def)

lemma demo_checked: "Check inst (Some demo_proof) example_com demo_raw = Inr ()"
  unfolding demo_proof_def by (rule Check_Sign [OF inst_laws(5) demo_sign demo_fingerprint])

lemma demo_sel:
  "hd_publisher demo_handler = Some demo_publisher" "pu_manifest demo_publisher example_com = Some demo_publication"
  "pb_raw demo_publication = demo_raw" "pb_proof demo_publication = Some demo_proof"
  "pb_expires_at demo_publication = issued + 4 * second" "nw_now demo_net = issued + second"
  "maxAge demo_handler = hour"
  by (simp_all add: demo_handler_def demo_publisher_def demo_publication_def demo_net_def maxAge_def MaxCacheAge_def)

lemma demo_cache: "cacheSeconds demo_handler (issued + 4 * second) = 3 * second"
  by (simp add: cacheSeconds_def Let_def time_sub_def demo_handler_def truncate_duration_def issued_def maxAge_def MaxCacheAge_def)

lemma demo_fetched: "fetch inst (New_resolver demo_options) demo_net example_com [] = Inr
     \<lparr>rs_manifest = demo_manifest, rs_manifest_id = ManifestIDOf inst demo_raw, rs_raw = demo_raw,
      rs_fetched_at = issued + second, rs_expires_at = issued + 4 * second,
      rs_tls_host = HostPrefix @ ''.'' @ example_com, rs_proof = Some demo_proof, rs_proof_error = None\<rparr>"
  using published_fetched [OF normalize_example demo_host demo_served, of demo_publisher demo_publication demo_manifest]
    demo_parsed demo_valid demo_consent demo_checked demo_proof_sized demo_raw_size
  by (simp add: demo_sel demo_resolver_sel demo_cache [simplified] truncate_duration_def)

text \<open>An authority that publishes nothing.\<close>

definition gone_net :: "unit network" where
  "gone_net = demo_net\<lparr>nw_exchange := (\<lambda>_ _ rq. Inr (response_of miss))\<rparr>"

lemma gone_fetch: "\<exists>e. fetch inst (New_resolver demo_options) gone_net example_com [] = Inl e \<and> ClassOf e = Some FailureAbsent"
proof -
  have d: "DialContext (client_dialer (New_resolver demo_options) gone_net example_com)
   ((HostPrefix @ ''.'' @ example_com) @ '':'' @ ''443'') = ([IPv4 (word_of_octets [8, 8, 8, 8])], Inr ())"
    using demo_dials by (simp add: client_dialer_def gone_net_def)
  have url: "DiscoveryURL inst example_com [] = Inr \<lparr>u_scheme = ''https'', u_host = HostPrefix @ ''.'' @ example_com,
      u_path = WellKnownPath, u_query = [(SubjectQueryParam, example_com)]\<rparr>"
    using demo_host normalize_example by (simp add: DiscoveryURL_def)
  show ?thesis
    using d demo_host
    by (simp add: fetch_def url perform_def request_for_def demo_resolver_sel is_digit_def clientFor_def client_do_def
        redirect_status_def check_status_def)
      (simp add: gone_net_def demo_net_def response_of_def check_status_def redirect_status_def)
qed

text \<open>A service that holds the manifest.\<close>

definition installed_world :: "(memstore, nat) service" where
  "installed_world = new_service every_callback (snd (InstallManifest inst example_com demo_result (NewMemStore (\<lambda>n. issued + second))))
     0 (\<lambda>n. issued + second) 4 second 8 second"

lemma installed_peer: "\<exists>p. bk_peers (book_at book_of installed_world) = [example_com \<mapsto> p]
   \<and> pr_domain p = example_com \<and> pr_policy p = PolicyAuto \<and> pr_effective p = Some (installed_record demo_result)"
proof -
  have m: "mf_domain (rs_manifest demo_result) = example_com" by (simp add: demo_result_def)
  show ?thesis
    by (auto simp: installed_world_def new_service_def book_at_def book_of_def InstallManifest_def with_domain_def
      normalize_example m upsertLocked_def NewMemStore_def ms_now_def put_peer_def New_peer_def zero_peer_def Install_def Let_def)
qed

lemma installed_readable: "readable inst (book_at book_of installed_world)"
proof -
  have "faithful inst example_com demo_result"
    using demo_parsed by (simp add: faithful_def demo_result_def)
  from faithful_reads_back [OF this] show ?thesis using installed_peer by (auto simp: readable_def split: if_splits)
qed

lemma installed_usable: "bk_peers (book_at book_of installed_world) d = Some p \<Longrightarrow>
  Usable (Some p) (sv_clock installed_world (sv_ticks installed_world)) \<noteq> None"
  using installed_peer
  by (auto simp: Usable_def installed_world_def new_service_def installed_record_def demo_result_def split: if_splits)

definition demo_request :: request where
  "demo_request = \<lparr>rq_method = ''GET'', rq_host = HostPrefix @ ''.'' @ example_com, rq_path = WellKnownPath,
     rq_query = [(SubjectQueryParam, example_com)], rq_header = no_header\<rparr>"

lemma demo_request_served: "an_status (ServeHTTP inst demo_handler demo_request) = 200"
  using ServeHTTP_own [OF normalize_example, of demo_handler demo_publisher demo_publication demo_request] demo_raw_size
  by (simp add: demo_handler_def demo_publisher_def demo_publication_def demo_request_def)

end
