(* ===== verification/Sealing.thy ===== *)
theory Sealing
  imports Outbound Message_Examples Publication
begin

text \<open>
  From the outbound path to the envelope: what \<^verbatim>\<open>Service\<close> hands out (\<^verbatim>\<open>peer/service.go\<close>) is a
  result \<^verbatim>\<open>Seal\<close> (\<^verbatim>\<open>envelope/envelope.go\<close>) takes without complaint, and the owner of the key opens
  what was sealed.
\<close>

section \<open>What sealing needs beside the manifest\<close>

text \<open>HKDF yields any length up to 255 blocks; a header packs.\<close>

definition hkdf_law :: "externs \<Rightarrow> bool" where
  "hkdf_law E \<longleftrightarrow> (\<forall>secret salt info n. n \<le> 255 * 32
     \<longrightarrow> (\<exists>key. ex_hkdf E secret salt info n = Some key \<and> length key = n))"

definition headers_pack :: "externs \<Rightarrow> bool" where
  "headers_pack E \<longleftrightarrow> (\<forall>h. ex_pack E (sorted_map_of (header_fields h)) \<noteq> None)"

text \<open>Random bytes were read, and the key agrees with the ephemeral one (it is no point of low
  order).\<close>

definition can_agree :: "externs \<Rightarrow> entropy \<Rightarrow> bytes \<Rightarrow> bool" where
  "can_agree E rnd pk \<longleftrightarrow> (\<exists>eph ephPub shared nonce. en_ephemeral rnd = Some eph \<and> ex_x_public E eph = Some ephPub
     \<and> ex_ecdh E eph pk = Some shared \<and> en_nonce rnd = Some nonce \<and> length nonce = nonceLen)"

section \<open>A faithful answer can be sealed to\<close>

lemma faithful_packs:
  assumes "faithful E d res" and "d \<noteq> []"
  shows "Pack E (rs_manifest res) = Inr (rs_raw res)" and "mf_domain (rs_manifest res) = d"
  using ParseCanonical_facts(1,2) [of E "rs_raw res" d "rs_manifest res"] assms
  by (auto simp: faithful_def)

lemma Seal_faithful:
  assumes f: "faithful E d res" "d \<noteq> []" and t: "0 \<le> now" "now < mf_expires_at (rs_manifest res)"
    and laws: "dh_law E" "hkdf_law E" "headers_pack E" and v: "ex_x_valid E (kd_public_key (mf_key (rs_manifest res)))"
    and a: "can_agree E rnd (kd_public_key (mf_key (rs_manifest res)))"
  shows "\<exists>e. Seal E now rnd res plain = Inr e \<and> eh_domain (ev_header e) = d"
proof -
  let ?m = "rs_manifest res"
  note p = faithful_packs [OF f]
  then have k: "kd_algorithm (mf_key ?m) = AlgX25519" "kd_encryption (mf_key ?m) = EncAES256GCM"
      "length (kd_public_key (mf_key ?m)) = pubKeyLen" "canonical_domain E (mf_domain ?m)"
    by (auto simp: Pack_Inr KeyIDOf_Inr checkSuite_Inr pubKeyLen_def pubKeyLenX25519_def)
  have i: "rs_manifest_id res = ManifestIDOf E (rs_raw res)" using f(1) by (simp add: faithful_def)
  from a obtain eph ephPub shared nonce where e: "en_ephemeral rnd = Some eph" "ex_x_public E eph = Some ephPub"
    "ex_ecdh E eph (kd_public_key (mf_key ?m)) = Some shared" "en_nonce rnd = Some nonce"
    by (auto simp: can_agree_def)
  have l: "length ephPub = pubKeyLen" using laws(1) e(2) unfolding dh_law_def by blast
  define h where "h = \<lparr>eh_version = EnvelopeVersion, eh_suite = SuiteX25519HKDFSHA256AES256GCM,
      eh_domain = mf_domain ?m, eh_kid = kd_kid (mf_key ?m), eh_manifest_id = rs_manifest_id res,
      eh_algorithm = kd_algorithm (mf_key ?m), eh_encryption = kd_encryption (mf_key ?m), eh_ephemeral = ephPub\<rparr>"
  obtain aad where aad: "AAD E h = Inr aad"
    using laws(3) l k p(2) f(2) by (auto simp: headers_pack_def AAD_Inr ValidateHeader_Inr h_def)
  have "(32 :: nat) \<le> 255 * 32" by simp
  then obtain key where "ex_hkdf E shared (ephPub @ kd_public_key (mf_key ?m)) hkdfInfo 32 = Some key" "length key = 32"
    using laws(2) unfolding hkdf_law_def by blast
  then have key: "deriveAEAD E shared ephPub (kd_public_key (mf_key ?m)) = Inr key"
    by (simp add: deriveAEAD_Inr aeadKeyLen_def)
  show ?thesis
    using p k i t v e aad key f(2) by (simp add: Seal_def Let_def h_def [symmetric]) (simp add: h_def)
qed

context protected_service
begin

lemma answer_opens:
  assumes c: "canonical_domain E d" "NormalizeDomain E domain = Inr d" "d \<noteq> []" and rd: "readable E (book_at view w)"
    and run: "run_state (resolveEncrypting E S R domain acc) w = (Inr res, w')"
    and t: "0 \<le> now" "now < mf_expires_at (rs_manifest res)"
    and laws: "dh_law E" "aead_law E" "hkdf_law E" "headers_pack E"
    and priv: "ex_x_public E priv = Some (kd_public_key (mf_key (rs_manifest res)))" "length priv = pubKeyLen"
    and a: "can_agree E rnd (kd_public_key (mf_key (rs_manifest res)))"
  shows "\<exists>e. Seal E now rnd res plain = Inr e \<and> eh_domain (ev_header e) = d \<and> Open E priv (Some e) = Inr plain"
proof -
  have f: "faithful E d res"
    using tripleD [OF encrypting_honest [OF c(1,2)] rd run] by (simp add: honest_def)
  have v: "ex_x_valid E (kd_public_key (mf_key (rs_manifest res)))"
    using laws(1) priv(1) unfolding dh_law_def by blast
  obtain e where e: "Seal E now rnd res plain = Inr e" "eh_domain (ev_header e) = d"
    using Seal_faithful [OF f c(3) t laws(1,3,4) v a] by blast
  have "Open E priv (Some e) = Inr plain"
    by (rule Open_Seal [OF laws(1,2) e(1) priv]) (use a in \<open>auto simp: can_agree_def\<close>)
  with e show ?thesis by blast
qed

end

section \<open>On the concrete instance\<close>

lemma inst_hkdf_law: "hkdf_law inst"
  by (auto simp: hkdf_law_def inst_hkdf_def min_def)

lemma inst_headers_pack: "headers_pack inst"
  by (simp add: headers_pack_def)

lemma demo_agrees: "can_agree inst demo_entropy demo_private"
  by (simp add: can_agree_def demo_entropy_def inst_public_def inst_ecdh_def nonceLen_def)

text \<open>A service that holds the manifest of the example and whose authority is down.\<close>

definition down_world :: "(memstore, unit) service" where
  "down_world = new_service every_callback (snd (InstallManifest inst example_com demo_result (NewMemStore (\<lambda>n. issued + second))))
     () (\<lambda>n. issued + second) 4 second 8 second"

lemma down_book: "book_at book_of down_world = book_at book_of installed_world"
  by (simp add: down_world_def installed_world_def new_service_def book_at_def)

lemma down_answer:
  "fst (run_state (resolveEncrypting inst demo_store demo_resolver example_com False) down_world) = 
     resultOf inst (installed_record demo_result) example_com"
proof -
  have m: "mf_domain (rs_manifest demo_result) = example_com" by (simp add: demo_result_def)
  define p where "p = Install (New_peer example_com) demo_result (issued + second)"
  have w: "sv_store down_world = \<lparr>ms_peers = [(example_com, p)], ms_caps = [], ms_clock = (\<lambda>n. issued + second), ms_ticks = 1\<rparr>"
    by (simp add: down_world_def new_service_def InstallManifest_def with_domain_def normalize_example m
      upsertLocked_def NewMemStore_def ms_now_def put_peer_def p_def Let_def New_peer_def zero_peer_def)
  have u: "Usable (Some (Reconcile p t)) (issued + second) = Some (installed_record demo_result)" for t
    by (simp add: Usable_def p_def Install_def Let_def New_peer_def zero_peer_def installed_record_def demo_result_def)
  have r: "fst (NeedsRefresh (Some (Reconcile p t)) (issued + second)) = False" for t
  proof -
    have "\<not> refreshAt demo_result \<le> issued + second"
      by (simp add: refreshAt_def Let_def demo_result_def half_def time_sub_def RefreshBefore_def issued_def)
    then show ?thesis
      by (simp add: NeedsRefresh_def p_def Install_def Let_def New_peer_def zero_peer_def installed_record_def demo_result_def
        Reconcile_def)
  qed
  have ck: "sv_clock down_world n = issued + second" for n
    by (simp add: down_world_def new_service_def)
  have dm: "pr_domain p = example_com" "pr_policy p = PolicyAuto"
    by (simp_all add: p_def New_peer_def zero_peer_def Install_def Let_def)
  have "faithful inst example_com demo_result"
    using demo_parsed by (simp add: faithful_def demo_result_def)
  then obtain res where ok: "resultOf inst (installed_record demo_result) example_com = Inr res"
    using faithful_reads_back [of inst example_com demo_result] by (auto simp: reads_back_def)
  show ?thesis
    by (simp add: ok resolveEncrypting_def normalize_example resolveForEncryption_def on_store_def run_state_bind w
      mem_store_def GetPeer_def with_domain_def ms_now_def clonePeer_def svc_now_def u r dm ck)
qed

lemma down_answers:
  "\<exists>res w'. run_state (resolveEncrypting inst demo_store demo_resolver example_com False) down_world = (Inr res, w')
     \<and> rs_manifest res = demo_manifest"
proof -
  have "resultOf inst (installed_record demo_result) example_com
      = Inr (demo_result\<lparr>rs_expires_at := mf_expires_at demo_manifest, rs_proof := None\<rparr>)"
    using demo_parsed demo_raw_size by (simp add: resultOf_def parseStored_def installed_record_def demo_result_def)
  with down_answer have "fst (run_state (resolveEncrypting inst demo_store demo_resolver example_com False) down_world)
      = Inr (demo_result\<lparr>rs_expires_at := mf_expires_at demo_manifest, rs_proof := None\<rparr>)" (is "fst ?rw = Inr ?res")
    by (rule trans)
  then have "?rw = (Inr ?res, snd ?rw)" by (simp add: prod_eq_iff)
  moreover have "rs_manifest ?res = demo_manifest" by (simp add: demo_result_def)
  ultimately show ?thesis by blast
qed

lemma down_service: "protected_service inst demo_store book_of demo_resolver"
  by (intro protected_service.intro demo_contract resolver_contract.intro)
    (auto simp: demo_resolver_def Failf_def)

end
