(* ===== verification/Contact.thy ===== *)
theory Contact
  imports Threads Sealing
begin

text \<open>
  What a first contact achieves (\<^verbatim>\<open>peer/service.go\<close>): over a store that works and a resolver that
  answers with a proof, the outbound path hands out the fetched manifest and leaves the domain
  latched, pinned to the signer and with that manifest in force.
\<close>

section \<open>A store that works\<close>

definition works :: "'s store_ops \<Rightarrow> ('s \<Rightarrow> book) \<Rightarrow> string \<Rightarrow> bool" where
  "works S view d \<longleftrightarrow> (\<forall>s. is_ok (fst (so_get S d s))) \<and> (\<forall>s t. is_ok (fst (so_mark_validated S d t s)))
     \<and> (\<forall>s st. is_ok (fst (so_set_identity S d st s)))
     \<and> (\<forall>s r. mf_domain (rs_manifest r) = d \<longrightarrow> \<not> peer_disabled (view s) d \<longrightarrow> is_ok (fst (so_install S d r s)))"

lemma mem_works: "canonical_domain E d \<Longrightarrow> works (mem_store E) book_of d"
  by (auto simp: works_def mem_store_def mem_op_defs with_domain_canonical Let_def upsert_book book_peer_disabled
      split: option.splits prod.splits)

lemma triple_works:
  assumes "\<And>s. outcome view d s (f s) P" and "\<And>s. I (view s) \<Longrightarrow> is_ok (fst (f s))"
    and "\<And>x b b'. I b \<Longrightarrow> P x b b' \<Longrightarrow> Q x b'"
  shows "triple (\<lambda>w. I (book_at view w)) (on_store f) (\<lambda>r w. \<exists>x. r = Inr x \<and> Q x (book_at view w))"
proof (rule tripleI)
  fix w r w'
  assume i: "I (book_at view w)" and run: "run_state (on_store f) w = (r, w')"
  obtain r' s' where f: "f (sv_store w) = (r', s')" by fastforce
  from run f have r: "r = r'" and w: "w' = w\<lparr>sv_store := s'\<rparr>"
    by (auto simp: on_store_def Let_def)
  show "\<exists>x. r = Inr x \<and> Q x (book_at view w')"
    using assms(1) [of "sv_store w"] assms(2) [of "sv_store w"] assms(3) i unfolding f
    by (cases r') (auto simp: r w book_at_def outcome_def)
qed

lemma triple_Inr:
  "(\<And>x. triple (P x) (g x) Q)
     \<Longrightarrow> triple (\<lambda>w. \<exists>x. r = Inr x \<and> P x w) (case r of Inl e \<Rightarrow> h e | Inr y \<Rightarrow> g y) Q"
  by (cases r) (auto simp: triple_def)

section \<open>A first contact\<close>

text \<open>Until the resolver is asked, nothing is stored and the state of the network is the caller's.\<close>

abbreviation (input) unknown_at :: "('s \<Rightarrow> book) \<Rightarrow> string \<Rightarrow> 'r \<Rightarrow> ('s, 'r) service \<Rightarrow> bool" where
  "unknown_at view d n w \<equiv> sv_net w = n \<and> bk_peers (book_at view w) d = None"

definition established :: "string \<Rightarrow> fetch_result \<Rightarrow> id_proof \<Rightarrow> book \<Rightarrow> bool" where
  "established d res pf b \<longleftrightarrow> pinned_as b d (pf_fingerprint pf) (pf_public_key pf)
     \<and> effective_of b d = Some (installed_record res) \<and> cp_ever_validated (bk_caps b d)"

context store_contract
begin

lemma established_soft: "kept_by_soft (established d res pf)"
  unfolding kept_by_soft_def
proof (intro allI impI)
  fix b b' assume e: "established d res pf b" and s: "soft_step b b'"
  have "cp_ever_validated (bk_caps b' d)"
    using latched_kept s e by (auto simp: established_def kept_by_steps_def intro: step_soft)
  then show "established d res pf b'"
    using soft_step_pin [OF s, of d "pf_fingerprint pf" "pf_public_key pf"] e by (simp add: established_def)
qed

lemma get_unknown:
  assumes c: "canonical_domain E d" and ok: "works S view d"
  shows "triple (\<lambda>w. bk_peers (book_at view w) d = None) (on_store (so_get S d))
     (\<lambda>r w. \<exists>x. r = Inr x \<and> x = None \<and> bk_peers (book_at view w) d = None)"
  by (rule triple_works [OF get [OF c], where I = "\<lambda>b. bk_peers b d = None"])
    (use ok in \<open>auto simp: works_def\<close>)

lemma settle_first:
  assumes c: "canonical_domain E d" and ok: "works S view d"
    and pf: "valid_proof res = Some pf" and fr: "fresh zero_identity res" and m: "mf_domain (rs_manifest res) = d"
  shows "triple (\<lambda>w. bk_peers (book_at view w) d = None) (settle E S R d a acc res)
     (\<lambda>r w. r = Inr res \<and> established d res pf (book_at view w))"
proof -
  let ?v = "DecideIdentity None res zero32 False False"
  let ?new = "\<lambda>b. bk_peers b d = None \<and> cp_ever_validated (bk_caps b d)"
  let ?pinned = "\<lambda>b. pinned_as b d (pf_fingerprint pf) (pf_public_key pf) \<and> cp_ever_validated (bk_caps b d)
      \<and> \<not> peer_disabled b d"
  note v = first_contact_decision [OF pf fr]
  have pr: "rs_proof res = Some pf" using pf by (simp add: valid_proof_def split: if_splits)
  have st: "id_status (ApplyIdentity zero_identity ?v res t) = IdentityPinned
      \<and> id_fingerprint (ApplyIdentity zero_identity ?v res t) = pf_fingerprint pf
      \<and> id_pinned_key (ApplyIdentity zero_identity ?v res t) = pf_public_key pf" for t
    by (simp add: v ApplyIdentity_def Let_def pr zero_identity_def zero_verdict_def)
  have mark: "triple (\<lambda>w. bk_peers (book_at view w) d = None) (on_store (so_mark_validated S d t))
      (\<lambda>r w. \<exists>x. r = Inr x \<and> ?new (book_at view w))" for t
    by (rule triple_works [OF mark [OF c], where I = "\<lambda>b. bk_peers b d = None"])
      (use ok in \<open>auto simp: works_def\<close>)
  have set: "triple (\<lambda>w. ?new (book_at view w)) (on_store (so_set_identity S d (ApplyIdentity zero_identity ?v res t)))
      (\<lambda>r w. \<exists>x. r = Inr x \<and> ?pinned (book_at view w))" for t
    by (rule triple_works [OF set_identity [OF c], where I = ?new])
      (use ok st [of t] in \<open>auto simp: works_def identity_stored_def pinned_as_def peer_disabled_def\<close>)
  have inst: "triple (\<lambda>w. ?pinned (book_at view w)) (on_store (so_install S d res))
      (\<lambda>r w. \<exists>x. r = Inr x \<and> established d res pf (book_at view w))"
    by (rule triple_works [OF install [OF c], where I = ?pinned])
      (use ok m in \<open>auto simp: works_def established_def pinned_as_def effective_of_def book_peer_def\<close>)
  have installed: "triple (\<lambda>w. ?pinned (book_at view w)) (install_accepted S d res)
      (\<lambda>r w. r = Inr res \<and> established d res pf (book_at view w))"
    unfolding install_accepted_def
    by (rule triple_bind [OF inst], rule triple_Inr,
        rule triple_keep [OF keeps_clear [OF c established_soft]], rule triple_return) simp
  have commit: "triple (\<lambda>w. ?new (book_at view w)) (commit E S R d a acc res None ?v)
      (\<lambda>r w. r = Inr res \<and> established d res pf (book_at view w))"
    unfolding commit_def identityOf_def option.case
    by (rule triple_keep [OF keeps_local(1) [where I = ?new]], rule triple_bind [OF set], rule triple_Inr)
      (simp add: v installed)
  have tail: "triple (\<lambda>w. bk_peers (book_at view w) d = None)
      (do { v \<leftarrow> State_Monad.return ?v; m \<leftarrow> on_store (so_mark_validated S d (rs_fetched_at res));
            case m of Inl e \<Rightarrow> persistenceHold d ''capability latch'' e | Inr _ \<Rightarrow> commit E S R d a acc res None v })
      (\<lambda>r w. r = Inr res \<and> established d res pf (book_at view w))"
    by (simp, rule triple_bind [OF mark], rule triple_Inr, rule commit)
  show ?thesis
    unfolding settle_def Let_def
  proof (rule triple_bind [OF get_unknown [OF c ok]])
    fix g :: "gerr + peer option"
    show "triple (\<lambda>w. \<exists>x. g = Inr x \<and> x = None \<and> bk_peers (book_at view w) d = None)
      (do { v \<leftarrow> decide (case g of Inl _ \<Rightarrow> None | Inr p \<Rightarrow> p) res;
            m \<leftarrow> on_store (so_mark_validated S d (rs_fetched_at res));
            case m of Inl e \<Rightarrow> persistenceHold d ''capability latch'' e
            | Inr _ \<Rightarrow> commit E S R d a acc res (case g of Inl _ \<Rightarrow> None | Inr p \<Rightarrow> p) v })
      (\<lambda>r w. r = Inr res \<and> established d res pf (book_at view w))"
      using tail by (cases "g = Inr None") (auto simp: decide_def triple_def)
  qed
qed

text \<open>A resolver that answers at the subject's own endpoint.\<close>

lemma get_unknown_net:
  assumes c: "canonical_domain E d" and ok: "works S view d"
  shows "triple (unknown_at view d n) (on_store (so_get S d))
     (\<lambda>r w. \<exists>x. r = Inr x \<and> x = None \<and> unknown_at view d n w)"
proof (rule tripleI)
  fix w r w' assume u: "unknown_at view d n w" and run: "run_state (on_store (so_get S d)) w = (r, w')"
  have "sv_net w' = sv_net w" using run by (auto simp: on_store_def Let_def split: prod.splits)
  then show "\<exists>x. r = Inr x \<and> x = None \<and> unknown_at view d n w'"
    using tripleD [OF get_unknown [OF c ok] _ run] u by simp
qed

lemma resolve_first:
  assumes c: "canonical_domain E d" and ok: "works S view d"
    and net: "fst (rv_resolve R d [] n) = Inr res"
    and pf: "valid_proof res = Some pf" and fr: "fresh zero_identity res" and m: "mf_domain (rs_manifest res) = d"
  shows "triple (unknown_at view d n) (resolve E S R d force acc)
     (\<lambda>r w. r = Inr res \<and> established d res pf (book_at view w))"
proof -
  let ?P = "unknown_at view d n"
  have cached: "triple ?P (if force then State_Monad.return None else cached_answer E S d)
      (\<lambda>r w. r = None \<and> ?P w)"
    unfolding cached_answer_def
    by (intro triple_if triple_return, simp, rule triple_bind [OF get_unknown_net [OF c ok]], rule triple_Inr)
      (auto simp: triple_def)
  have hint: "triple ?P (authorityHint S d) (\<lambda>a w. a = [] \<and> ?P w)"
    unfolding authorityHint_def
    by (rule triple_bind [OF get_unknown_net [OF c ok]]) (auto simp: triple_def)
  have fetched: "triple ?P (on_net (rv_resolve R d []))
      (\<lambda>r w. \<exists>x. r = Inr x \<and> x = res \<and> bk_peers (book_at view w) d = None)"
    by (rule tripleI) (use net in \<open>auto simp: on_net_def book_at_def Let_def split: prod.splits\<close>)
  have go: "triple ?P (do { r \<leftarrow> on_net (rv_resolve R d []);
       case r of Inl e \<Rightarrow> h e | Inr x \<Rightarrow> settle E S R d [] acc x })
      (\<lambda>r w. r = Inr res \<and> established d res pf (book_at view w))" for h
    by (rule triple_bind [OF fetched], rule triple_Inr, rule triple_pure) (simp add: settle_first [OF c ok pf fr m])
  show ?thesis
    unfolding resolve_def
    by (rule triple_bind [OF cached], rule triple_pure, simp, rule triple_bind [OF hint], rule triple_pure, simp, rule go)
qed

lemma first_contact:
  assumes c: "canonical_domain E d" and n: "NormalizeDomain E domain = Inr d" and ok: "works S view d"
    and net: "fst (rv_resolve R d [] n) = Inr res"
    and pf: "valid_proof res = Some pf" and fr: "fresh zero_identity res" and m: "mf_domain (rs_manifest res) = d"
  shows "triple (unknown_at view d n) (ResolveForEncryption E S R domain)
     (\<lambda>r w. r = Inr res \<and> established d res pf (book_at view w))"
proof -
  let ?P = "unknown_at view d n"
  have now: "keeps ?P svc_now"
    by (rule keepsI) (auto simp: svc_now_def book_at_def)
  have r: "triple ?P (resolveForEncryption E S R d False)
      (\<lambda>rp w. fst rp = Inr res \<and> established d res pf (book_at view w))"
    unfolding resolveForEncryption_def
    by (rule triple_bind [OF get_unknown_net [OF c ok]], rule triple_Inr, rule triple_pure, simp add: Usable_def,
        rule triple_keep [OF now], rule triple_bind [OF resolve_first [OF c ok net pf fr m]], rule triple_return) simp
  show ?thesis
    unfolding ResolveForEncryption_def resolveEncrypting_def n sum.case
    by (rule triple_bind [OF r], rule triple_pure) (auto simp: triple_def split: prod.splits)
qed

end

text \<open>The promise of an established record: it reads as protected, and its manifest is the answer to
  later calls until it expires, whatever the authority then does.\<close>

lemma established_usable:
  assumes "established d res pf b" and "bk_peers b d = Some p" and "pr_policy p \<noteq> PolicyDisabled"
    and "now < mf_expires_at (rs_manifest res)"
  shows "Usable (Some p) now = Some (installed_record res)"
  using assms by (auto simp: established_def effective_of_def Usable_def installed_record_def)

section \<open>A published key protects the first mail\<close>

text \<open>What a correspondent makes of a publication: the published bytes with their proof, kept until
  the earlier of the expiry and the age the authority stated.\<close>

definition published_result ::
  "externs \<Rightarrow> handler \<Rightarrow> publication \<Rightarrow> manifest \<Rightarrow> string \<Rightarrow> time \<Rightarrow> fetch_result" where
  "published_result E t pub m host now =
     \<lparr>rs_manifest = m, rs_manifest_id = ManifestIDOf E (pb_raw pub), rs_raw = pb_raw pub, rs_fetched_at = now,
      rs_expires_at = min (mf_expires_at m) (now + truncate_duration (cacheSeconds t (pb_expires_at pub)) second),
      rs_tls_host = host, rs_proof = pb_proof pub, rs_proof_error = None\<rparr>"

text \<open>The publisher's side in order: its handler serves the host of the domain, and holds a canonical,
  valid, consented manifest with a proof that checks, at least a second before it expires.\<close>

definition publishes ::
  "externs \<Rightarrow> options \<Rightarrow> 'c network \<Rightarrow> string \<Rightarrow> handler \<Rightarrow> publication \<Rightarrow> manifest \<Rightarrow> id_proof \<Rightarrow> bool" where
  "publishes E opts W d t pub m pf \<longleftrightarrow>
     (\<exists>host p. AuthorityHost E d [] = Inr host \<and> served_by E (New_resolver opts) W d host t
        \<and> hd_publisher t = Some p \<and> pu_manifest p d = Some pub \<and> checkAuthorityConsent E m host = Inr ())
     \<and> int (length (pb_raw pub)) \<le> op_max_body (re_opts (New_resolver opts))
     \<and> ParseCanonical E (pb_raw pub) d = Inr m
     \<and> Validate m (nw_now W) (op_limits (re_opts (New_resolver opts))) = Inr ()
     \<and> pb_proof pub = Some pf \<and> proof_sized pf \<and> Check E (Some pf) d (pb_raw pub) = Inr ()
     \<and> second \<le> cacheSeconds t (pb_expires_at pub) \<and> maxAge t < 2 ^ 63"

lemma truncate_left: "second \<le> x \<Longrightarrow> 0 < truncate_duration x second"
  using zdiv_mono1 [of second x second] by (simp add: truncate_duration_def)

lemma published_facts:
  assumes p: "publishes E opts (net n) d t pub m pf" and c: "NormalizeDomain E d = Inr d"
  obtains host where "fst (rv_resolve (net_resolver E (New_resolver opts) net) d [] n) = Inr (published_result E t pub m host (nw_now (net n)))"
    and "fresh zero_identity (published_result E t pub m host (nw_now (net n)))"
    and "valid_proof (published_result E t pub m host (nw_now (net n))) = Some pf"
    and "faithful E d (published_result E t pub m host (nw_now (net n)))"
proof -
  let ?r = "New_resolver opts" and ?W = "net n"
  from p obtain host q where h: "AuthorityHost E d [] = Inr host" "served_by E ?r ?W d host t"
    "hd_publisher t = Some q" "pu_manifest q d = Some pub" "checkAuthorityConsent E m host = Inr ()"
    by (auto simp: publishes_def)
  from p have f: "int (length (pb_raw pub)) \<le> op_max_body (re_opts ?r)" "ParseCanonical E (pb_raw pub) d = Inr m"
    "Validate m (nw_now ?W) (op_limits (re_opts ?r)) = Inr ()" "pb_proof pub = Some pf" "proof_sized pf"
    "Check E (Some pf) d (pb_raw pub) = Inr ()" "second \<le> cacheSeconds t (pb_expires_at pub)" "maxAge t < 2 ^ 63"
    by (auto simp: publishes_def)
  have "0 \<le> op_max_body (re_opts ?r)" using New_resolver_safe(4) [of opts] by simp
  with published_fetched [OF c h(1-4) _ f(1-3) h(5) _ f(8)] f(4-6)
  have "fetch E ?r ?W d [] = Inr (published_result E t pub m host (nw_now ?W))"
    by (simp add: published_result_def)
  then have "fst (rv_resolve (net_resolver E ?r net) d [] n) = Inr (published_result E t pub m host (nw_now ?W))"
    using c by (simp add: net_resolver_def Resolve_def resolve_names_def)
  moreover have "nw_now ?W < mf_expires_at m" using f(3) by (auto simp: Validate_def split: if_splits)
  then have "fresh zero_identity (published_result E t pub m host (nw_now ?W))"
    using truncate_left [OF f(7)] by (simp add: fresh_def published_result_def zero_identity_def)
  ultimately show thesis
    by (rule that) (use f in \<open>simp_all add: valid_proof_def faithful_def published_result_def\<close>)
qed

text \<open>
  The second is needed.  The lifetime a cache may keep an answer and the end of the manifest are one
  field of the result, and an answer nobody may keep, as a handler gives in the last second of a
  manifest or with an age below a second, is refused as an expired one although the manifest is valid.
\<close>

lemma uncached_is_refused:
  assumes "pb_proof pub = Some pf" and "zero_time < now" and "now < mf_expires_at m"
    and "0 \<le> cacheSeconds t (pb_expires_at pub)" and "cacheSeconds t (pb_expires_at pub) < second"
  shows "\<not> vd_accept (DecideIdentity None (published_result E t pub m host now) zero32 False False)
     \<and> vd_reason (DecideIdentity None (published_result E t pub m host now) zero32 False False) = ''replay/expired''"
proof -
  have "truncate_duration (cacheSeconds t (pb_expires_at pub)) second = 0"
    using assms(4,5) by (simp add: truncate_duration_def)
  then show ?thesis
    using assms(1-3) by (simp add: DecideIdentity_def Let_def published_result_def afterIdentityAuthorization_def
        checkReplay_def zero_identity_def zero_verdict_def)
qed

section \<open>On the concrete instance\<close>

definition good_resolver :: "unit resolver_ops" where
  "good_resolver = \<lparr>rv_resolve = (\<lambda>d a r. (Inr demo_result, r)), rv_chain = None\<rparr>"

definition fresh_world :: "(memstore, unit) service" where
  "fresh_world = new_service every_callback (NewMemStore (\<lambda>n. issued)) () (\<lambda>n. issued) 4 second 8 second"

lemma fresh_world_empty: "bk_peers (book_at book_of fresh_world) d = None"
  by (simp add: fresh_world_def new_service_def NewMemStore_def book_at_def book_of_def)

lemma good_answer: "fst (rv_resolve good_resolver d a n) = Inr demo_result"
  by (simp add: good_resolver_def)

lemma demo_proven: "valid_proof demo_result = Some demo_proof" "fresh zero_identity demo_result"
  "mf_domain (rs_manifest demo_result) = example_com"
  by (simp_all add: valid_proof_def fresh_def demo_result_def zero_identity_def)

text \<open>The correspondent of a domain that publishes.\<close>

definition young_world :: "(memstore, nat) service" where
  "young_world = new_service every_callback (NewMemStore (\<lambda>n. issued + second)) 0 (\<lambda>n. issued + second) 4 second 8 second"

lemma young_world_empty: "bk_peers (book_at book_of young_world) d = None"
  by (simp add: young_world_def new_service_def NewMemStore_def book_at_def book_of_def)

lemma demo_publishes: "publishes inst demo_options demo_net example_com demo_handler demo_publication demo_manifest demo_proof"
  using demo_host demo_served demo_parsed demo_valid demo_consent demo_checked demo_proof_sized demo_raw_size
  by (auto simp: publishes_def demo_sel demo_resolver_sel demo_cache [simplified] intro!: exI [of _ demo_publisher])

end
