(* ===== verification/Interleaving.thy ===== *)
theory Interleaving
  imports Threads
begin

text \<open>
  Any number of goroutines over one store (\<^verbatim>\<open>peer/service.go\<close> with \<^verbatim>\<open>peer/memstore.go\<close>).  \<open>Threads\<close> runs one
  goroutine among others it knows nothing of; here the others are goroutines too.  A schedule says
  whose turn it is; the goroutine whose turn it is makes its next store call, which is the one its
  program makes after what it and the others have done so far.  Every goroutine decides only on
  what it has seen, so the calls made are those of a run of each, and each ends within a fixed
  number of turns.  What the requests keep among others who keep it, every interleaving keeps.
\<close>

section \<open>One goroutine, replayed\<close>

text \<open>The state after some calls, with what the others do before each.\<close>

fun weave :: "(nat \<Rightarrow> 's \<Rightarrow> 's) \<Rightarrow> ('s \<Rightarrow> 's) list \<Rightarrow> 's \<Rightarrow> 's" where
  "weave others [] s = s"
| "weave others (f # fs) s = weave (\<lambda>n. others (Suc n)) fs (f (others 0 s))"

lemma weave_append: "weave g (fs @ hs) s = weave (\<lambda>n. g (length fs + n)) hs (weave g fs s)"
  by (induction fs arbitrary: g s) simp_all

lemma weave_snoc: "weave g (fs @ [f]) s = f (g (length fs) (weave g fs s))"
  by (simp add: weave_append)

lemma weave_cong: "(\<And>n. n < length fs \<Longrightarrow> g n = h n) \<Longrightarrow> weave g fs s = weave h fs s"
proof (induction fs arbitrary: g h s)
  case (Cons f fs)
  have "weave (\<lambda>n. g (Suc n)) fs x = weave (\<lambda>n. h (Suc n)) fs x" for x
    by (rule Cons.IH) (use Cons.prems in simp)
  then show ?case using Cons.prems [of 0] by simp
qed simp

text \<open>A state a goroutine comes to by making the given calls.\<close>

definition after_calls :: "('s \<Rightarrow> 's) list \<Rightarrow> 's crowd \<Rightarrow> 's crowd \<Rightarrow> bool" where
  "after_calls L c c' \<longleftrightarrow> cw_calls c' = cw_calls c @ L \<and> cw_store c' = weave (cw_others c) L (cw_store c)
     \<and> cw_others c' = (\<lambda>n. cw_others c (length L + n))"

lemma after_none [simp]: "after_calls [] c c"
  by (simp add: after_calls_def)

lemma after_more: "after_calls L c c' \<Longrightarrow> after_calls M c' c'' \<Longrightarrow> after_calls (L @ M) c c''"
  by (auto simp: after_calls_def weave_append add.assoc)

lemma after_among: "after_calls [\<lambda>s. snd (f s)] c (snd (among f c))"
  by (auto simp: after_calls_def among_def split: prod.splits)

text \<open>Two states that differ only in what the others are going to do from turn \<open>n\<close> on.\<close>

definition alike :: "nat \<Rightarrow> ('s crowd, 'r) service \<Rightarrow> ('s crowd, 'r) service \<Rightarrow> bool" where
  "alike n w w' \<longleftrightarrow> (\<exists>g. w' = w\<lparr>sv_store := (sv_store w)\<lparr>cw_others := g\<rparr>\<rparr>
     \<and> (\<forall>k < n. g k = cw_others (sv_store w) k))"

text \<open>A program decides its calls on what it has seen: with the others alike for \<open>n\<close> turns, it makes
  the same \<open>n\<close> calls and the next, or ends alike.\<close>

definition same_so_far ::
  "nat \<Rightarrow> ('s \<Rightarrow> 's) list \<Rightarrow> 'a \<times> ('s crowd, 'r) service \<Rightarrow> ('s \<Rightarrow> 's) list \<Rightarrow> 'a \<times> ('s crowd, 'r) service \<Rightarrow> bool" where
  "same_so_far n L av L' av' \<longleftrightarrow>
     length L \<le> n \<and> L' = L \<and> fst av' = fst av \<and> alike (n - length L) (snd av) (snd av')
     \<or> n < length L \<and> n < length L' \<and> take (Suc n) L' = take (Suc n) L"

definition causal :: "('s crowd, 'r, 'a) svc \<Rightarrow> bool" where
  "causal m \<longleftrightarrow> (\<forall>w. \<exists>L. after_calls L (sv_store w) (sv_store (snd (run_state m w)))
     \<and> (\<forall>n w'. alike n w w' \<longrightarrow> (\<exists>L'. after_calls L' (sv_store w') (sv_store (snd (run_state m w')))
          \<and> same_so_far n L (run_state m w) L' (run_state m w'))))"

named_theorems causal_rules "composition of causal programs"

lemma after_unique: "after_calls L c c' \<Longrightarrow> after_calls M c c' \<Longrightarrow> L = M"
  by (simp add: after_calls_def)

lemma causal_calls: "causal m \<Longrightarrow> \<exists>L. after_calls L (sv_store w) (sv_store (snd (run_state m w)))"
  by (auto simp: causal_def)

lemma causal_alike:
  assumes "causal m" and "after_calls L (sv_store w) (sv_store (snd (run_state m w)))" and "alike n w w'"
  shows "\<exists>L'. after_calls L' (sv_store w') (sv_store (snd (run_state m w')))
     \<and> same_so_far n L (run_state m w) L' (run_state m w')"
proof -
  from assms(1) obtain M where M: "after_calls M (sv_store w) (sv_store (snd (run_state m w)))"
    and all: "\<forall>n w'. alike n w w' \<longrightarrow> (\<exists>L'. after_calls L' (sv_store w') (sv_store (snd (run_state m w')))
         \<and> same_so_far n M (run_state m w) L' (run_state m w'))"
    unfolding causal_def by blast
  have "M = L" using M assms(2) by (rule after_unique)
  with all assms(3) show ?thesis by blast
qed

text \<open>Programs that do not touch the store.\<close>

lemma causal_local:
  assumes "\<And>w s. run_state m (w\<lparr>sv_store := s\<rparr>) = (fst (run_state m w), (snd (run_state m w))\<lparr>sv_store := s\<rparr>)"
  shows "causal m"
  unfolding causal_def
proof (intro allI exI [of _ "[]"] conjI impI)
  fix w
  have st: "sv_store (snd (run_state m w)) = sv_store w"
    using assms [where w = w and s = "sv_store w"]
    by (metis fst_conv snd_conv service.surjective service.select_convs(1) service.update_convs(1))
  then show "after_calls [] (sv_store w) (sv_store (snd (run_state m w)))" by simp
  fix n w' assume "alike n w w'"
  then obtain g where w': "w' = w\<lparr>sv_store := (sv_store w)\<lparr>cw_others := g\<rparr>\<rparr>"
    and g: "\<forall>k < n. g k = cw_others (sv_store w) k" by (auto simp: alike_def)
  show "after_calls [] (sv_store w') (sv_store (snd (run_state m w')))"
    by (simp add: w' assms)
  show "same_so_far n [] (run_state m w) [] (run_state m w')"
    using g by (auto simp: same_so_far_def alike_def w' assms st)
qed

lemma causal_return [causal_rules]: "causal (State_Monad.return a)"
  by (rule causal_local) simp

lemma causal_still [causal_rules]:
  "causal svc_now" "causal (on_net f)" "causal (on_adm g)" "causal (emit e)" "causal (schedule d)"
  by (auto intro!: causal_local simp: svc_now_def on_net_def on_adm_def emit_def schedule_def Let_def split: prod.splits)

lemma causal_among [causal_rules]:
  fixes f :: "'s \<Rightarrow> 'a \<times> 's"
  shows "causal (on_store (among f) :: ('s crowd, 'r, 'a) svc)"
proof -
  have calls: "after_calls [\<lambda>s. snd (f s)] (sv_store w) (sv_store (snd (run_state (on_store (among f)) w)))" for w :: "('s crowd, 'r) service"
    using after_among [of f "sv_store w"] by (auto simp: on_store_def Let_def split: prod.splits)
  have same: "same_so_far n [\<lambda>s. snd (f s)] (run_state (on_store (among f)) w) [\<lambda>s. snd (f s)] (run_state (on_store (among f)) w')"
    if al: "alike n w w'" for n and w w' :: "('s crowd, 'r) service"
  proof (cases n)
    case (Suc m)
    obtain g where w': "w' = w\<lparr>sv_store := (sv_store w)\<lparr>cw_others := g\<rparr>\<rparr>"
      and g: "\<forall>k < n. g k = cw_others (sv_store w) k" using al by (auto simp: alike_def)
    then have "g 0 = cw_others (sv_store w) 0" "\<forall>k < m. g (Suc k) = cw_others (sv_store w) (Suc k)"
      using Suc by auto
    then show ?thesis
      using Suc by (auto simp: same_so_far_def alike_def w' on_store_def among_def Let_def
          intro!: exI [of _ "\<lambda>n. g (Suc n)"] split: prod.splits)
  qed (simp add: same_so_far_def)
  show ?thesis
    unfolding causal_def using calls same by blast
qed

lemma causal_bind [causal_rules]:
  assumes m: "causal m" and f: "\<And>a. causal (f a)"
  shows "causal (State_Monad.bind m f)"
  unfolding causal_def
proof (intro allI)
  fix w
  obtain a v where run: "run_state m w = (a, v)" by fastforce
  obtain L where L: "after_calls L (sv_store w) (sv_store v)"
    using causal_calls [OF m, of w] run by auto
  obtain M where M: "after_calls M (sv_store v) (sv_store (snd (run_state (f a) v)))"
    using causal_calls [OF f] by blast
  have both: "run_state (State_Monad.bind m f) w = run_state (f a) v"
    by (simp add: run_state_bind run)
  have "\<exists>K. after_calls K (sv_store w') (sv_store (snd (run_state (State_Monad.bind m f) w')))
      \<and> same_so_far n (L @ M) (run_state (State_Monad.bind m f) w) K (run_state (State_Monad.bind m f) w')"
    if al: "alike n w w'" for n w'
  proof -
    obtain a' v' where run': "run_state m w' = (a', v')" by fastforce
    obtain L' where L': "after_calls L' (sv_store w') (sv_store v')" and s: "same_so_far n L (a, v) L' (a', v')"
      using causal_alike [OF m _ al, of L] L run run' by auto
    have both': "run_state (State_Monad.bind m f) w' = run_state (f a') v'"
      by (simp add: run_state_bind run')
    show ?thesis
    proof (cases "length L \<le> n")
      case True
      with s have eq: "L' = L" "a' = a" and al': "alike (n - length L) v v'"
        by (auto simp: same_so_far_def)
      obtain M' where M': "after_calls M' (sv_store v') (sv_store (snd (run_state (f a) v')))"
        and s': "same_so_far (n - length L) M (run_state (f a) v) M' (run_state (f a) v')"
        using causal_alike [OF f M al'] by blast
      have "same_so_far n (L @ M) (run_state (f a) v) (L @ M') (run_state (f a) v')"
        using s' True by (auto simp: same_so_far_def Suc_diff_le)
      then show ?thesis
        using after_more [OF L' M'] unfolding both both' eq by blast
    next
      case False
      with s have t: "n < length L" "n < length L'" "take (Suc n) L' = take (Suc n) L"
        by (auto simp: same_so_far_def)
      obtain M' where M': "after_calls M' (sv_store v') (sv_store (snd (run_state (f a') v')))"
        using causal_calls [OF f] by blast
      have "same_so_far n (L @ M) (run_state (f a) v) (L' @ M') (run_state (f a') v')"
        using t by (simp add: same_so_far_def)
      then show ?thesis
        using after_more [OF L' M'] unfolding both both' by blast
    qed
  qed
  then show "\<exists>L. after_calls L (sv_store w) (sv_store (snd (run_state (State_Monad.bind m f) w)))
     \<and> (\<forall>n w'. alike n w w' \<longrightarrow> (\<exists>L'. after_calls L' (sv_store w') (sv_store (snd (run_state (State_Monad.bind m f) w')))
          \<and> same_so_far n L (run_state (State_Monad.bind m f) w) L' (run_state (State_Monad.bind m f) w')))"
    using after_more [OF L M] unfolding both by blast
qed

lemma causal_cases [causal_rules]:
  "(b \<Longrightarrow> causal m) \<Longrightarrow> (\<not> b \<Longrightarrow> causal n) \<Longrightarrow> causal (if b then m else n)"
  "(\<And>e. x = Inl e \<Longrightarrow> causal (h e)) \<Longrightarrow> (\<And>y. x = Inr y \<Longrightarrow> causal (g y))
     \<Longrightarrow> causal (case x of Inl e \<Rightarrow> h e | Inr y \<Rightarrow> g y)"
  "(z = None \<Longrightarrow> causal m) \<Longrightarrow> (\<And>y. z = Some y \<Longrightarrow> causal (k y))
     \<Longrightarrow> causal (case z of None \<Rightarrow> m | Some y \<Rightarrow> k y)"
  "(\<And>a b. p = (a, b) \<Longrightarrow> causal (l a b)) \<Longrightarrow> causal (case p of (a, b) \<Rightarrow> l a b)"
  "(xs = [] \<Longrightarrow> causal m) \<Longrightarrow> (\<And>y ys. xs = y # ys \<Longrightarrow> causal (c y ys))
     \<Longrightarrow> causal (case xs of [] \<Rightarrow> m | y # ys \<Rightarrow> c y ys)"
  by simp (cases x, simp, simp, cases z, simp, simp, cases p, simp, cases xs, simp, simp)

lemma causal_ops [causal_rules]:
  "causal (on_store (so_get (crowd_store S) d))" "causal (on_store (so_put_observation (crowd_store S) d ob))"
  "causal (on_store (so_install (crowd_store S) d res))" "causal (on_store (so_record_failure (crowd_store S) d fe))"
  "causal (on_store (so_record_issue (crowd_store S) d code t))" "causal (on_store (so_clear_issue (crowd_store S) d code))"
  "causal (on_store (so_forget (crowd_store S) d))" "causal (on_store (so_set_identity (crowd_store S) d st))"
  "causal (on_store (so_capability (crowd_store S) d))" "causal (on_store (so_mark_validated (crowd_store S) d tm))"
  by (simp_all add: crowd_sel causal_among)

section \<open>Every program of the service decides on what it has seen\<close>

lemma causal_small [causal_rules]:
  "causal (emit_err d r)" "causal (persistenceHold d what e)" "causal (decide p res)"
  "causal (raise (crowd_store S) d code t)" "causal (authorityHint (crowd_store S) d)"
  "causal (cached_answer E (crowd_store S) d)" "causal (policyFailure (crowd_store S) p d e)"
  "causal (scheduleIfBehind (crowd_store S) d)"
  unfolding emit_err_def persistenceHold_def decide_def raise_def authorityHint_def cached_answer_def
    policyFailure_def scheduleIfBehind_def
  by (intro causal_rules)+

lemma causal_clear [causal_rules]: "causal (clear_issues (crowd_store S) d cs)"
  by (induction cs) (auto simp: clear_issues.simps intro!: causal_rules)

lemma causal_follow [causal_rules]:
  "causal (install_successor (crowd_store S) d st res)" "causal (follow_doc E (crowd_store S) d q pf res dc)"
  "causal (followRotation E (crowd_store S) R d a prev res)"
proof -
  show 1: "causal (install_successor (crowd_store S) d st res)" for d st res
    unfolding install_successor_def by (intro causal_rules)
  show 2: "causal (follow_doc E (crowd_store S) d q pf res dc)" for d q pf res dc
    unfolding follow_doc_def by (intro causal_rules 1)
  show "causal (followRotation E (crowd_store S) R d a prev res)"
    unfolding followRotation_def by (intro causal_rules 2)
qed

lemma causal_resolve [causal_rules]:
  "causal (refuse E (crowd_store S) d prev res v acc)" "causal (install_accepted (crowd_store S) d res)"
  "causal (commit E (crowd_store S) R d a acc res prev v)" "causal (settle E (crowd_store S) R d a acc res)"
  "causal (resolve E (crowd_store S) R d force acc)" "causal (resolveForEncryption E (crowd_store S) R d acc)"
  "causal (resolveEncrypting E (crowd_store S) R domain acc)"
proof -
  show 1: "causal (refuse E (crowd_store S) d prev res v acc)" for d prev res v acc
    unfolding refuse_def by (intro causal_rules)
  show 2: "causal (install_accepted (crowd_store S) d res)" for d res
    unfolding install_accepted_def by (intro causal_rules)
  show 3: "causal (commit E (crowd_store S) R d a acc res prev v)" for d a acc res prev v
    unfolding commit_def by (intro causal_rules 1 2)
  show 4: "causal (settle E (crowd_store S) R d a acc res)" for d a acc res
    unfolding settle_def Let_def by (intro causal_rules 3)
  show 5: "causal (resolve E (crowd_store S) R d force acc)" for d force acc
    unfolding resolve_def by (intro causal_rules 4)
  show 6: "causal (resolveForEncryption E (crowd_store S) R d acc)" for d acc
    unfolding resolveForEncryption_def by (intro causal_rules 5)
  show "causal (resolveEncrypting E (crowd_store S) R domain acc)"
    unfolding resolveEncrypting_def by (intro causal_rules 6)
qed

lemma causal_observe [causal_rules]:
  "causal (observe (crowd_store S) d ob)" "causal (refresh E (crowd_store S) R d)"
  "causal (worker_turn E (crowd_store S) R)"
proof -
  show "causal (observe (crowd_store S) d ob)"
    unfolding observe_def by (intro causal_rules)
  show "causal (refresh E (crowd_store S) R d)"
    unfolding refresh_def by (intro causal_rules)
  have taken: "causal (State (\<lambda>w. case sv_queue w of [] \<Rightarrow> (None, w)
      | d # q \<Rightarrow> (Some d, w\<lparr>sv_queue := q, sv_pending := remove1 d (sv_pending w)\<rparr>)))"
    by (rule causal_local) (auto split: list.splits)
  show "causal (worker_turn E (crowd_store S) R)"
    unfolding worker_turn_def by (intro causal_rules taken)
qed

section \<open>The calls of a goroutine are bounded\<close>

definition makes :: "nat \<Rightarrow> ('s crowd, 'r, 'a) svc \<Rightarrow> bool" where
  "makes n m \<longleftrightarrow> (\<forall>w. \<exists>L. after_calls L (sv_store w) (sv_store (snd (run_state m w))) \<and> length L \<le> n)"

named_theorems makes_rules "composition of bounds on calls"

lemma makes_mono: "makes k m \<Longrightarrow> k \<le> n \<Longrightarrow> makes n m"
  unfolding makes_def by (meson order_trans)

lemma makes_local: "(\<And>w. sv_store (snd (run_state m w)) = sv_store w) \<Longrightarrow> makes 0 m"
  by (simp add: makes_def)

lemma makes_still [makes_rules]:
  "makes 0 (State_Monad.return a)" "makes 0 svc_now" "makes 0 (on_net f)" "makes 0 (on_adm g)"
  "makes 0 (emit e)" "makes 0 (schedule d)"
  by (auto intro!: makes_local simp: svc_now_def on_net_def on_adm_def emit_def schedule_def Let_def split: prod.splits)

lemma makes_bind [makes_rules]:
  assumes m: "makes k m" and f: "\<And>a. makes n (f a)"
  shows "makes (k + n) (State_Monad.bind m f)"
  unfolding makes_def
proof
  fix w
  obtain a v where run: "run_state m w = (a, v)" by fastforce
  obtain L where L: "after_calls L (sv_store w) (sv_store v)" "length L \<le> k"
    using m run unfolding makes_def by (metis snd_conv)
  obtain M where M: "after_calls M (sv_store v) (sv_store (snd (run_state (f a) v)))" "length M \<le> n"
    using f unfolding makes_def by blast
  show "\<exists>L. after_calls L (sv_store w) (sv_store (snd (run_state (State_Monad.bind m f) w))) \<and> length L \<le> k + n"
    using after_more [OF L(1) M(1)] L(2) M(2)
    by (intro exI [of _ "L @ M"]) (simp add: run)
qed

lemma makes_cases [makes_rules]:
  "makes k m \<Longrightarrow> makes n p \<Longrightarrow> makes (max k n) (if b then m else p)"
  "(\<And>e. makes k (h e)) \<Longrightarrow> (\<And>y. makes n (g y)) \<Longrightarrow> makes (max k n) (case x of Inl e \<Rightarrow> h e | Inr y \<Rightarrow> g y)"
  "makes k m \<Longrightarrow> (\<And>y. makes n (s y)) \<Longrightarrow> makes (max k n) (case z of None \<Rightarrow> m | Some y \<Rightarrow> s y)"
  "(\<And>a b. makes k (l a b)) \<Longrightarrow> makes k (case q of (a, b) \<Rightarrow> l a b)"
  "makes k m \<Longrightarrow> (\<And>y ys. makes n (c y ys)) \<Longrightarrow> makes (max k n) (case xs of [] \<Rightarrow> m | y # ys \<Rightarrow> c y ys)"
  by (auto split: sum.splits option.splits prod.splits list.splits
      intro: makes_mono [OF _ max.cobounded1] makes_mono [OF _ max.cobounded2])

lemma makes_among:
  fixes f :: "'s \<Rightarrow> 'a \<times> 's"
  shows "makes 1 (on_store (among f) :: ('s crowd, 'r, 'a) svc)"
  unfolding makes_def
proof
  fix w :: "('s crowd, 'r) service"
  show "\<exists>L. after_calls L (sv_store w) (sv_store (snd (run_state (on_store (among f)) w))) \<and> length L \<le> 1"
    using after_among [of f "sv_store w"]
    by (intro exI [of _ "[\<lambda>s. snd (f s)]"]) (auto simp: on_store_def Let_def split: prod.splits)
qed

lemma makes_ops [makes_rules]:
  "makes 1 (on_store (so_get (crowd_store S) d))" "makes 1 (on_store (so_put_observation (crowd_store S) d ob))"
  "makes 1 (on_store (so_install (crowd_store S) d res))" "makes 1 (on_store (so_record_failure (crowd_store S) d fe))"
  "makes 1 (on_store (so_record_issue (crowd_store S) d code t))" "makes 1 (on_store (so_clear_issue (crowd_store S) d code))"
  "makes 1 (on_store (so_forget (crowd_store S) d))" "makes 1 (on_store (so_set_identity (crowd_store S) d st))"
  "makes 1 (on_store (so_capability (crowd_store S) d))" "makes 1 (on_store (so_mark_validated (crowd_store S) d tm))"
  unfolding crowd_sel by (rule makes_among)+

lemma makes_small [makes_rules]:
  "makes 0 (emit_err d r)"
  "makes 0 (persistenceHold d what e)"
  "makes 0 (decide p res)"
  "makes 1 (raise (crowd_store S) d code t)"
  "makes 1 (authorityHint (crowd_store S) d)"
  "makes 1 (cached_answer E (crowd_store S) d)"
  "makes 1 (policyFailure (crowd_store S) p d e)"
  "makes 1 (scheduleIfBehind (crowd_store S) d)"
  subgoal unfolding emit_err_def by (rule makes_mono, (rule makes_rules)+) simp
  subgoal unfolding persistenceHold_def by (rule makes_mono, (rule makes_rules)+) simp
  subgoal unfolding decide_def by (rule makes_mono, (rule makes_rules)+) simp
  subgoal unfolding raise_def by (rule makes_mono, (rule makes_rules)+) simp
  subgoal unfolding authorityHint_def by (rule makes_mono, (rule makes_rules)+) simp
  subgoal unfolding cached_answer_def by (rule makes_mono, (rule makes_rules)+) simp
  subgoal unfolding policyFailure_def by (rule makes_mono, (rule makes_rules)+) simp
  subgoal unfolding scheduleIfBehind_def by (rule makes_mono, (rule makes_rules)+) simp
  done

lemma makes_clear [makes_rules]: "makes (length cs) (clear_issues (crowd_store S) d cs)"
proof (induction cs)
  case (Cons c cs)
  show ?case
    by (rule makes_mono, unfold clear_issues.simps, (rule makes_rules Cons.IH)+) simp
qed (simp add: clear_issues.simps makes_rules)

lemma makes_follow [makes_rules]:
  "makes 5 (install_successor (crowd_store S) d st res)" "makes 5 (follow_doc E (crowd_store S) d q pf res dc)"
  "makes 5 (followRotation E (crowd_store S) R d a prev res)"
proof -
  show 1: "makes 5 (install_successor (crowd_store S) d st res)" for d st res
    unfolding install_successor_def by (rule makes_mono, (rule makes_rules)+) simp
  show 2: "makes 5 (follow_doc E (crowd_store S) d q pf res dc)" for d q pf res dc
    unfolding follow_doc_def by (rule makes_mono, (rule makes_rules 1)+) simp
  show "makes 5 (followRotation E (crowd_store S) R d a prev res)"
    unfolding followRotation_def by (rule makes_mono, (rule makes_rules 2)+) simp
qed

lemma makes_resolve [makes_rules]:
  "makes 2 (refuse E (crowd_store S) d prev res v acc)" "makes 7 (install_accepted (crowd_store S) d res)"
  "makes 8 (commit E (crowd_store S) R d a acc res prev v)" "makes 10 (settle E (crowd_store S) R d a acc res)"
  "makes 12 (resolve E (crowd_store S) R d force acc)" "makes 13 (resolveForEncryption E (crowd_store S) R d acc)"
  "makes 14 (resolveEncrypting E (crowd_store S) R domain acc)" "makes 13 (refresh E (crowd_store S) R d)"
  "makes 3 (observe (crowd_store S) d ob)" "makes 12 (worker_turn E (crowd_store S) R)"
proof -
  show 1: "makes 2 (refuse E (crowd_store S) d prev res v acc)" for d prev res v acc
    unfolding refuse_def by (rule makes_mono, (rule makes_rules)+) simp
  show 2: "makes 7 (install_accepted (crowd_store S) d res)" for d res
    unfolding install_accepted_def by (rule makes_mono, (rule makes_rules)+) simp
  show 3: "makes 8 (commit E (crowd_store S) R d a acc res prev v)" for d a acc res prev v
    unfolding commit_def by (rule makes_mono, (rule makes_rules 1 2)+) simp
  show 4: "makes 10 (settle E (crowd_store S) R d a acc res)" for d a acc res
    unfolding settle_def Let_def by (rule makes_mono, (rule makes_rules 3)+) simp
  show 5: "makes 12 (resolve E (crowd_store S) R d force acc)" for d force acc
    unfolding resolve_def by (rule makes_mono, (rule makes_rules 4)+) simp
  show 6: "makes 13 (resolveForEncryption E (crowd_store S) R d acc)" for d acc
    unfolding resolveForEncryption_def by (rule makes_mono, (rule makes_rules 5)+) simp
  show "makes 14 (resolveEncrypting E (crowd_store S) R domain acc)"
    unfolding resolveEncrypting_def by (rule makes_mono, (rule makes_rules 6)+) simp
  show "makes 13 (refresh E (crowd_store S) R d)"
    unfolding refresh_def by (rule makes_mono, (rule makes_rules 5)+) simp
  show "makes 3 (observe (crowd_store S) d ob)"
    unfolding observe_def by (rule makes_mono, (rule makes_rules)+) simp
  have taken: "makes 0 (State (\<lambda>w. case sv_queue w of [] \<Rightarrow> (None, w)
      | d # q \<Rightarrow> (Some d, w\<lparr>sv_queue := q, sv_pending := remove1 d (sv_pending w)\<rparr>)))"
    by (rule makes_local) (auto split: list.splits)
  show "makes 12 (worker_turn E (crowd_store S) R)"
    unfolding worker_turn_def by (rule makes_mono, (rule makes_rules 5 taken)+) simp
qed

section \<open>Goroutines\<close>

text \<open>What a caller or a worker asks of the service, and what it gets back.\<close>

datatype request_kind =
  ForEncryption string
| AcceptingUnpinned string
| Refreshing string
| Adding string
| Forgetting string
| SeenDNS string "string list"
| SeenHeader string prose
| Working

datatype reply =
  Handed "gerr + fetch_result"
| Showed "peer option \<times> gerr option"
| Noted "gerr option"
| Forgotten "gerr + unit"
| Worked

definition replying :: "('a \<Rightarrow> reply) \<Rightarrow> ('s, 'r, 'a) svc \<Rightarrow> ('s, 'r, reply) svc" where
  "replying k m = do { r \<leftarrow> m; State_Monad.return (k r) }"

fun serve :: "externs \<Rightarrow> 's store_ops \<Rightarrow> 'r resolver_ops \<Rightarrow> request_kind \<Rightarrow> ('s, 'r, reply) svc" where
  "serve E S R (ForEncryption d) = replying Handed (ResolveForEncryption E S R d)"
| "serve E S R (AcceptingUnpinned d) = replying Handed (ResolveAcceptingUnpinned E S R d)"
| "serve E S R (Refreshing d) = replying Showed (Refresh E S R d)"
| "serve E S R (Adding d) = replying Showed (AddPeer E S R d)"
| "serve E S R (Forgetting d) = replying Forgotten (Forget E S d)"
| "serve E S R (SeenDNS d txt) = replying Noted (ObserveDNS E S d txt)"
| "serve E S R (SeenHeader h c) = replying Noted (ObserveHeader E S h c)"
| "serve E S R Working = replying (\<lambda>_. Worked) (worker_turn E S R)"

lemma causal_serve: "causal (serve E (crowd_store S) R rq)"
proof -
  have l: "causal (case xs of [] \<Rightarrow> m | x # ys \<Rightarrow> n)" if "causal m" "causal n" for xs :: "'b list" and m n :: "('c crowd, 'd, 'e) svc"
    using that by (cases xs) simp_all
  show ?thesis
    by (cases rq)
      (simp_all only: serve.simps replying_def ResolveForEncryption_def ResolveAcceptingUnpinned_def Refresh_def AddPeer_def
        Forget_def ObserveDNS_def ObserveHeader_def, (intro causal_rules l)+)
qed

lemma makes_serve: "makes 14 (serve E (crowd_store S) R rq)"
  by (cases rq)
    (simp_all only: serve.simps replying_def ResolveForEncryption_def ResolveAcceptingUnpinned_def Refresh_def AddPeer_def
      Forget_def ObserveDNS_def ObserveHeader_def, (rule makes_mono, (rule makes_rules)+, simp)+)

section \<open>Interleaving\<close>

text \<open>The calls made so far, in order: whose each is, and what it does to the store.\<close>

type_synonym 's calls = "(nat \<times> ('s \<Rightarrow> 's)) list"

definition state_after :: "'s \<Rightarrow> 's calls \<Rightarrow> 's" where
  "state_after s h = fold (\<lambda>(i, f). f) h s"

definition own :: "nat \<Rightarrow> 's calls \<Rightarrow> ('s \<Rightarrow> 's) list" where
  "own i h = map snd (filter (\<lambda>c. fst c = i) h)"

text \<open>What the others did between the calls of one goroutine.\<close>

fun others_of :: "nat \<Rightarrow> 's calls \<Rightarrow> nat \<Rightarrow> 's \<Rightarrow> 's" where
  "others_of i [] n s = s"
| "others_of i ((j, f) # h) n s =
     (if j = i then (case n of 0 \<Rightarrow> s | Suc m \<Rightarrow> others_of i h m s)
      else if n = 0 then others_of i h 0 (f s) else others_of i h n s)"

text \<open>A goroutine with its request and its own part of the process; its run, if after the calls made
  so far it has the store for itself.\<close>

type_synonym ('s, 'r) goroutines = "nat \<Rightarrow> request_kind \<times> ('s crowd, 'r) service"

definition started :: "'s \<Rightarrow> 's calls \<Rightarrow> nat \<Rightarrow> ('s crowd, 'r) service \<Rightarrow> ('s crowd, 'r) service" where
  "started s h i w = w\<lparr>sv_store := \<lparr>cw_store = s, cw_others = others_of i h, cw_calls = []\<rparr>\<rparr>"

definition replay ::
  "externs \<Rightarrow> 's store_ops \<Rightarrow> 'r resolver_ops \<Rightarrow> ('s, 'r) goroutines \<Rightarrow> 's \<Rightarrow> 's calls \<Rightarrow> nat
     \<Rightarrow> reply \<times> ('s crowd, 'r) service" where
  "replay E S R gs s h i = run_state (serve E (crowd_store S) R (fst (gs i))) (started s h i (snd (gs i)))"

abbreviation calls_of :: "reply \<times> ('s crowd, 'r) service \<Rightarrow> ('s \<Rightarrow> 's) list" where
  "calls_of run \<equiv> cw_calls (sv_store (snd run))"

text \<open>The scheduler gives one goroutine its next call; one that has ended makes none.\<close>

definition take_turn ::
  "externs \<Rightarrow> 's store_ops \<Rightarrow> 'r resolver_ops \<Rightarrow> ('s, 'r) goroutines \<Rightarrow> 's \<Rightarrow> 's calls \<Rightarrow> nat \<Rightarrow> 's calls" where
  "take_turn E S R gs s h i =
     (let cs = calls_of (replay E S R gs s h i); k = length (own i h)
      in if k < length cs then h @ [(i, cs ! k)] else h)"

definition interleaved ::
  "externs \<Rightarrow> 's store_ops \<Rightarrow> 'r resolver_ops \<Rightarrow> ('s, 'r) goroutines \<Rightarrow> 's \<Rightarrow> nat list \<Rightarrow> 's calls" where
  "interleaved E S R gs s sched = foldl (take_turn E S R gs s) [] sched"

lemma own_simps [simp]: "own i [] = []" "own i (h @ [(j, f)]) = (if j = i then own i h @ [f] else own i h)"
  "own i ((j, f) # h) = (if j = i then f # own i h else own i h)"
  by (auto simp: own_def)

lemma others_snoc: "others_of i (h @ [(j, f)]) n s =
    (if j = i \<or> n \<noteq> length (own i h) then others_of i h n s else f (others_of i h n s))"
proof (induction h arbitrary: n s)
  case (Cons c h)
  then show ?case by (cases c) (auto split: nat.splits)
qed (auto split: nat.splits)

lemma state_after_split:
  "state_after s h = others_of i h (length (own i h)) (weave (others_of i h) (own i h) s)"
proof (induction h arbitrary: s)
  case (Cons c h)
  obtain j f where c: "c = (j, f)" by fastforce
  have tail: "state_after s (c # h) = state_after (f s) h" by (simp add: state_after_def c)
  show ?case
  proof (cases "j = i")
    case True
    then show ?thesis unfolding tail Cons.IH by (simp add: c)
  next
    case False
    then have "others_of i (c # h) (Suc n) = others_of i h (Suc n)" for n
      by (simp add: c fun_eq_iff)
    then show ?thesis
      unfolding tail Cons.IH using False by (cases "own i h") (simp_all add: c)
  qed
qed (simp add: state_after_def)

section \<open>An interleaving is a run of every goroutine\<close>

lemma started_sel [simp]:
  "sv_store (started s h i w) = \<lparr>cw_store = s, cw_others = others_of i h, cw_calls = []\<rparr>"
  by (simp add: started_def)

lemma replay_from:
  assumes "after_calls L (sv_store (started s h i (snd (gs i)))) (sv_store (snd (replay E S R gs s h i)))"
  shows "calls_of (replay E S R gs s h i) = L"
  using assms by (simp add: after_calls_def)

lemma replay_calls:
  "after_calls (calls_of (replay E S R gs s h i)) (sv_store (started s h i (snd (gs i))))
     (sv_store (snd (replay E S R gs s h i)))"
  using causal_calls [OF causal_serve [of E S R "fst (gs i)"], of "started s h i (snd (gs i))"] replay_from [of _ s h i gs E S R]
  by (auto simp: replay_def [symmetric] simp del: started_sel)

lemma replay_bound: "length (calls_of (replay E S R gs s h i)) \<le> 14"
proof -
  obtain L where L: "after_calls L (sv_store (started s h i (snd (gs i)))) (sv_store (snd (replay E S R gs s h i)))"
    and "length L \<le> 14"
    using makes_serve [of E S R "fst (gs i)"] unfolding replay_def makes_def by blast
  then show ?thesis using replay_from [OF L] by simp
qed

text \<open>A call of another goroutine changes nothing in what this one has done.\<close>

lemma replay_other:
  assumes "i \<noteq> j"
  shows "take (Suc (length (own i h))) (calls_of (replay E S R gs s (h @ [(j, f)]) i))
     = take (Suc (length (own i h))) (calls_of (replay E S R gs s h i))"
proof -
  let ?n = "length (own i h)" and ?h' = "h @ [(j, f)]"
  have "started s ?h' i w = started s h i w\<lparr>sv_store := (sv_store (started s h i w))\<lparr>cw_others := others_of i ?h'\<rparr>\<rparr>" for w
    by (simp add: started_def)
  then have al: "alike ?n (started s h i (snd (gs i))) (started s ?h' i (snd (gs i)))"
    unfolding alike_def using assms by (auto simp: others_snoc fun_eq_iff intro!: exI [of _ "others_of i ?h'"])
  obtain L' where L': "after_calls L' (sv_store (started s ?h' i (snd (gs i)))) (sv_store (snd (replay E S R gs s ?h' i)))"
    and same: "same_so_far ?n (calls_of (replay E S R gs s h i)) (replay E S R gs s h i) L' (replay E S R gs s ?h' i)"
    using causal_alike [OF causal_serve [of E S R "fst (gs i)"] _ al] replay_calls [of E S R gs s h i]
    unfolding replay_def by blast
  have "L' = calls_of (replay E S R gs s ?h' i)"
    using replay_from [OF L'] by simp
  with same show ?thesis by (auto simp: same_so_far_def)
qed

lemma replay_own: "replay E S R gs s (h @ [(i, f)]) i = replay E S R gs s h i"
proof -
  have "others_of i (h @ [(i, f)]) = others_of i h" by (simp add: others_snoc fun_eq_iff)
  then show ?thesis by (simp add: replay_def started_def)
qed

lemma own_calls:
  "own i (interleaved E S R gs s sched) =
     take (length (own i (interleaved E S R gs s sched))) (calls_of (replay E S R gs s (interleaved E S R gs s sched) i))"
proof (induction sched rule: rev_induct)
  case (snoc j sched)
  let ?h = "interleaved E S R gs s sched"
  let ?cs = "\<lambda>i. calls_of (replay E S R gs s ?h i)"
  have step: "interleaved E S R gs s (sched @ [j]) =
      (if length (own j ?h) < length (?cs j) then ?h @ [(j, ?cs j ! length (own j ?h))] else ?h)"
    by (simp add: interleaved_def take_turn_def Let_def)
  show ?case
  proof (cases "length (own j ?h) < length (?cs j)")
    case True
    show ?thesis
    proof (cases "i = j")
      case True
      then show ?thesis
        using \<open>length (own j ?h) < length (?cs j)\<close> snoc.IH
        by (simp add: step replay_own take_Suc_conv_app_nth)
    next
      case False
      let ?h' = "?h @ [(j, ?cs j ! length (own j ?h))]"
      have "take (length (own i ?h)) (calls_of (replay E S R gs s ?h' i)) = take (length (own i ?h)) (?cs i)"
        using arg_cong [OF replay_other [OF False, of ?h E S R gs s], of "take (length (own i ?h))"]
        by (simp add: min_def)
      then show ?thesis using True False snoc.IH by (simp add: step)
    qed
  next
    case False
    then show ?thesis using snoc.IH by (simp add: step)
  qed
qed (simp add: interleaved_def)

lemma own_made: "length (own i (interleaved E S R gs s sched))
    \<le> length (calls_of (replay E S R gs s (interleaved E S R gs s sched) i))"
  using arg_cong [OF own_calls [of i E S R gs s sched], of length] by simp

lemma own_bound: "length (own i (interleaved E S R gs s sched)) \<le> 14"
  using own_made replay_bound by (rule order_trans)

text \<open>A goroutine that is given a turn makes a call or has ended.\<close>

lemma own_grows:
  assumes "length (own i h) < length (calls_of (replay E S R gs s h i))"
  shows "length (own i (take_turn E S R gs s h i)) = Suc (length (own i h))"
  using assms by (simp add: take_turn_def Let_def)

lemma own_other: "own j (take_turn E S R gs s h i) = own j h \<or> j = i"
  by (simp add: take_turn_def Let_def)

definition ended :: "'s calls \<Rightarrow> nat \<Rightarrow> reply \<times> ('s crowd, 'r) service \<Rightarrow> bool" where
  "ended h i run \<longleftrightarrow> length (own i h) = length (calls_of run)"

lemma ended_turn:
  assumes "h = interleaved E S R gs s sched" and "ended h i (replay E S R gs s h i)"
  shows "ended (take_turn E S R gs s h j) i (replay E S R gs s (take_turn E S R gs s h j) i)"
proof (cases "j = i")
  case True
  then show ?thesis using assms by (simp add: take_turn_def Let_def ended_def)
next
  case False
  show ?thesis
  proof (cases "length (own j h) < length (calls_of (replay E S R gs s h j))")
    case True
    let ?cs = "calls_of (replay E S R gs s h i)"
    let ?h' = "h @ [(j, calls_of (replay E S R gs s h j) ! length (own j h))]"
    let ?cs' = "calls_of (replay E S R gs s ?h' i)"
    have l: "length (own i h) = length ?cs" using assms(2) by (simp add: ended_def)
    have "take (Suc (length ?cs)) ?cs' = ?cs"
      using replay_other [of i j h E S R gs s] False unfolding l by simp
    from arg_cong [OF this, of length] have "length ?cs' = length ?cs"
      by (simp add: min_def split: if_splits)
    then show ?thesis using True False l by (simp add: ended_def take_turn_def Let_def)
  next
    case f: False
    then show ?thesis using assms by (simp add: ended_def take_turn_def Let_def)
  qed
qed

lemma enough_turns:
  "ended (interleaved E S R gs s sched) i (replay E S R gs s (interleaved E S R gs s sched) i)
     \<or> count_list sched i \<le> length (own i (interleaved E S R gs s sched))"
proof (induction sched rule: rev_induct)
  case (snoc j sched)
  let ?h = "interleaved E S R gs s sched"
  have step: "interleaved E S R gs s (sched @ [j]) = take_turn E S R gs s ?h j"
    by (simp add: interleaved_def)
  show ?case
  proof (cases "ended ?h i (replay E S R gs s ?h i)")
    case True
    show ?thesis unfolding step using ended_turn [OF refl True] by blast
  next
    case False
    then have lt: "length (own i ?h) < length (calls_of (replay E S R gs s ?h i))"
      using own_made [of i E S R gs s sched] by (simp add: ended_def)
    have "count_list sched i \<le> length (own i ?h)" using snoc.IH False by blast
    then have "count_list (sched @ [j]) i \<le> length (own i (take_turn E S R gs s ?h j))"
      using own_grows [OF lt] own_other [of i E S R gs s ?h j] by (cases "j = i") auto
    then show ?thesis unfolding step by blast
  qed
qed (simp add: interleaved_def)

lemma turns_suffice:
  assumes "14 \<le> count_list sched i"
  shows "ended (interleaved E S R gs s sched) i (replay E S R gs s (interleaved E S R gs s sched) i)"
proof (rule ccontr)
  assume n: "\<not> ?thesis"
  then have "length (own i (interleaved E S R gs s sched)) < 14"
    using own_made [of i E S R gs s sched] replay_bound [of E S R gs s "interleaved E S R gs s sched" i]
    by (simp add: ended_def)
  with enough_turns [of E S R gs s sched i] n assms show False by linarith
qed

section \<open>What every request keeps\<close>

definition queue_ok :: "externs \<Rightarrow> ('s, 'r) service \<Rightarrow> bool" where
  "queue_ok E w \<longleftrightarrow> list_all (canonical_domain E) (sv_queue w)"

text \<open>What a predicate of the store needs, for one domain, to be kept by all that is asked about it.\<close>

definition kept_about ::
  "externs \<Rightarrow> 's store_ops \<Rightarrow> 'r resolver_ops \<Rightarrow> ('s \<Rightarrow> bool) \<Rightarrow> string \<Rightarrow> bool" where
  "kept_about E S R J d \<longleftrightarrow> soft_ops S d J
     \<and> (\<forall>force acc. keeps (\<lambda>w. J (sv_store w)) (resolve E S R d force acc))
     \<and> (\<forall>acc. keeps (\<lambda>w. J (sv_store w)) (resolveForEncryption E S R d acc))"

definition forgets :: "externs \<Rightarrow> request_kind \<Rightarrow> string \<Rightarrow> bool" where
  "forgets E rq d \<longleftrightarrow> (\<exists>domain. rq = Forgetting domain \<and> NormalizeDomain E domain = Inr d)"

lemma kept_about_hard: "hard_ops S d J \<Longrightarrow> kept_about E S R J d"
  by (simp add: kept_about_def hard_soft hard_keeps)

lemma keeps_replying: "keeps P m \<Longrightarrow> keeps P (replying k m)"
  unfolding replying_def by (intro triple_rules)

lemma keeps_list:
  "keeps P m \<Longrightarrow> (\<And>y ys. keeps P (c y ys)) \<Longrightarrow> keeps P (case xs of [] \<Rightarrow> m | y # ys \<Rightarrow> c y ys)"
  by (cases xs) simp_all

lemma serve_keeps:
  fixes S :: "'s store_ops" and R :: "'r resolver_ops"
  assumes idna: "idna_ldh E"
    and about: "\<And>d. canonical_domain E d \<Longrightarrow> kept_about E S R J d"
    and forget: "\<And>d. canonical_domain E d \<Longrightarrow> forgets E rq d \<Longrightarrow> op_keeps J (so_forget S d)"
  shows "triple (\<lambda>w. J (sv_store w) \<and> queue_ok E w) (serve E S R rq) (\<lambda>_ w. J (sv_store w))"
proof -
  note norm = canonical_normalized [OF idna]
  have ops: "keeps (\<lambda>w :: ('s, 'r) service. J (sv_store w)) (on_store (so_get S d))"
    "keeps (\<lambda>w :: ('s, 'r) service. J (sv_store w)) (on_store (so_put_observation S d ob))"
    "keeps (\<lambda>w :: ('s, 'r) service. J (sv_store w)) (policyFailure S p d e)"
    "keeps (\<lambda>w :: ('s, 'r) service. J (sv_store w)) (resolve E S R d force acc)"
    "keeps (\<lambda>w :: ('s, 'r) service. J (sv_store w)) (resolveForEncryption E S R d acc)"
    if "canonical_domain E d" for d ob p e force acc
    using about [OF that] soft_ops_keep(1,2) [of S d J] soft_keeps(6) [of S d J]
    by (auto simp: kept_about_def)
  have weak: "triple (\<lambda>w. J (sv_store w) \<and> queue_ok E w) m (\<lambda>_ w. J (sv_store w))"
    if "keeps (\<lambda>w. J (sv_store w)) m" for m :: "('s, 'r, reply) svc"
    using that unfolding keeps_def by (rule triple_weaken) auto
  have sched: "keeps (\<lambda>w :: ('s, 'r) service. J (sv_store w)) (schedule d)" for d
    by (auto intro!: keepsI simp: schedule_def split: if_splits)
  have seen: "keeps (\<lambda>w :: ('s, 'r) service. J (sv_store w)) (observe S d ob)" if "canonical_domain E d" for d ob
    unfolding observe_def scheduleIfBehind_def by (intro triple_rules ops sched that)
  have fresh: "keeps (\<lambda>w :: ('s, 'r) service. J (sv_store w)) (refresh E S R d)" if "canonical_domain E d" for d
    unfolding refresh_def by (intro triple_rules ops that)
  have enc: "keeps (\<lambda>w :: ('s, 'r) service. J (sv_store w)) (resolveEncrypting E S R domain acc)" for domain acc
    unfolding resolveEncrypting_def by (intro triple_rules ops) (auto dest: norm)
  show ?thesis
  proof (cases rq)
    case (Forgetting domain)
    have "keeps (\<lambda>w :: ('s, 'r) service. J (sv_store w)) (Forget E S domain)"
      unfolding Forget_def
      by (intro triple_rules keeps_op [OF forget]) (auto simp: Forgetting forgets_def dest: norm)
    then show ?thesis by (simp add: Forgetting weak keeps_replying)
  next
    case (SeenDNS domain recs)
    have "keeps (\<lambda>w :: ('s, 'r) service. J (sv_store w)) (ObserveDNS E S domain recs)"
      unfolding ObserveDNS_def by (intro triple_rules keeps_list ops seen) (auto dest: norm)
    then show ?thesis by (simp add: SeenDNS weak keeps_replying)
  next
    case (SeenHeader h c)
    have "keeps (\<lambda>w :: ('s, 'r) service. J (sv_store w)) (ObserveHeader E S h c)"
      unfolding ObserveHeader_def
      by (intro triple_rules seen) (use ParseHeader_ok [OF idna] in \<open>simp add: advertisement_ok_def\<close>)
    then show ?thesis by (simp add: SeenHeader weak keeps_replying)
  next
    case (Adding domain)
    have "keeps (\<lambda>w :: ('s, 'r) service. J (sv_store w)) (AddPeer E S R domain)"
      unfolding AddPeer_def by (intro triple_rules ops fresh) (auto dest: norm)
    then show ?thesis by (simp add: Adding weak keeps_replying)
  next
    case (Refreshing domain)
    have "keeps (\<lambda>w :: ('s, 'r) service. J (sv_store w)) (Refresh E S R domain)"
      unfolding Refresh_def by (intro triple_rules fresh) (auto dest: norm)
    then show ?thesis by (simp add: Refreshing weak keeps_replying)
  next
    case Working
    have taken: "triple (\<lambda>w :: ('s, 'r) service. J (sv_store w) \<and> queue_ok E w)
       (State (\<lambda>w. case sv_queue w of [] \<Rightarrow> (None, w)
          | d # q \<Rightarrow> (Some d, w\<lparr>sv_queue := q, sv_pending := remove1 d (sv_pending w)\<rparr>)))
       (\<lambda>r w. (\<forall>d. r = Some d \<longrightarrow> canonical_domain E d) \<and> J (sv_store w))"
      by (auto simp: triple_def queue_ok_def split: list.splits)
    have "triple (\<lambda>w. J (sv_store w) \<and> queue_ok E w) (worker_turn E S R) (\<lambda>_ w. J (sv_store w))"
      unfolding worker_turn_def
      by (rule triple_bind [OF taken], rule triple_pure, rule keeps_triple, intro triple_rules ops) simp
    then show ?thesis
      unfolding Working serve.simps replying_def by (rule triple_bind) (rule triple_return)
  qed (simp_all add: weak keeps_replying ResolveForEncryption_def ResolveAcceptingUnpinned_def enc)
qed

section \<open>What every interleaving keeps\<close>

definition calls_keep :: "('s \<Rightarrow> bool) \<Rightarrow> 's calls \<Rightarrow> bool" where
  "calls_keep J h \<longleftrightarrow> (\<forall>(i, f) \<in> set h. \<forall>s. J s \<longrightarrow> J (f s))"

lemma calls_keep_simps [simp]:
  "calls_keep J []" "calls_keep J ((i, f) # h) \<longleftrightarrow> (\<forall>s. J s \<longrightarrow> J (f s)) \<and> calls_keep J h"
  "calls_keep J (h @ [(i, f)]) \<longleftrightarrow> (\<forall>s. J s \<longrightarrow> J (f s)) \<and> calls_keep J h"
  by (auto simp: calls_keep_def)

lemma others_keep: "calls_keep J h \<Longrightarrow> J s \<Longrightarrow> J (others_of i h n s)"
  by (induction i h n s rule: others_of.induct) (auto split: nat.splits)

lemma state_after_keeps: "calls_keep J h \<Longrightarrow> J s \<Longrightarrow> J (state_after s h)"
proof (induction h arbitrary: s)
  case (Cons c h)
  then show ?case by (cases c) (simp add: state_after_def)
qed (simp add: state_after_def)

lemma started_keeps: "calls_keep J h \<Longrightarrow> J s \<Longrightarrow> crowd_keeps J (sv_store (started s h i w))"
  using others_keep by (auto simp: crowd_keeps_def)

text \<open>A promise that each request keeps among others who keep it is kept by every interleaving, and
  what a request achieves under it among others it achieves in every interleaving.\<close>

lemma interleaved_keeps:
  assumes J: "J s" and q: "\<And>i. queue_ok E (snd (gs i))"
    and kept: "\<And>i. triple (\<lambda>w. crowd_keeps J (sv_store w) \<and> queue_ok E w) (serve E (crowd_store S) R (fst (gs i)))
      (\<lambda>_ w. crowd_keeps J (sv_store w))"
  shows "calls_keep J (interleaved E S R gs s sched)"
proof (induction sched rule: rev_induct)
  case (snoc i sched)
  let ?h = "interleaved E S R gs s sched"
  have "crowd_keeps J (sv_store (started s ?h i (snd (gs i)))) \<and> queue_ok E (started s ?h i (snd (gs i)))"
    using started_keeps [OF snoc.IH J] q [of i] by (simp add: queue_ok_def started_def)
  then have "crowd_keeps J (sv_store (snd (replay E S R gs s ?h i)))"
    using kept [of i] by (simp add: replay_def triple_def del: started_sel)
  then have "\<forall>f \<in> set (calls_of (replay E S R gs s ?h i)). \<forall>s. J s \<longrightarrow> J (f s)"
    by (simp add: crowd_keeps_def)
  then show ?case
    using snoc.IH by (auto simp: interleaved_def take_turn_def Let_def)
qed (simp add: interleaved_def)

lemma interleaved_holds:
  assumes J: "J s" and q: "\<And>i. queue_ok E (snd (gs i))"
    and kept: "\<And>i. triple (\<lambda>w. crowd_keeps J (sv_store w) \<and> queue_ok E w) (serve E (crowd_store S) R (fst (gs i)))
      (\<lambda>_ w. crowd_keeps J (sv_store w))"
    and out: "triple (\<lambda>w. crowd_keeps J (sv_store w)) (serve E (crowd_store S) R (fst (gs i))) (\<lambda>r w. Q r)"
  shows "J (state_after s (interleaved E S R gs s sched)) \<and> Q (fst (replay E S R gs s (interleaved E S R gs s sched) i))"
proof
  note k = interleaved_keeps [OF J q kept]
  show "J (state_after s (interleaved E S R gs s sched))"
    by (rule state_after_keeps [OF k J])
  have "crowd_keeps J (sv_store (started s (interleaved E S R gs s sched) i (snd (gs i))))"
    by (rule started_keeps [OF k J])
  then show "Q (fst (replay E S R gs s (interleaved E S R gs s sched) i))"
    using out by (simp add: replay_def triple_def del: started_sel)
qed

section \<open>Protection and lineage in every interleaving\<close>

context store_contract
begin

lemma forget_guarded: "canonical_domain E d' \<Longrightarrow> op_keeps (\<lambda>s. guarded d (view s)) (so_forget S d')"
proof (rule op_keeps_outcome [OF forget])
  fix x and b b' :: book assume g: "guarded d b" and f: "bk_caps b' = bk_caps b \<and> (\<forall>d''. d'' \<noteq> d' \<longrightarrow> bk_peers b' d'' = bk_peers b d'')
     \<and> (bk_peers b' d' = None \<or> bk_peers b' d' = map_option Forget_peer (bk_peers b d'))"
  then have "peer_disabled b' d \<longrightarrow> peer_disabled b d"
    by (cases "d = d'") (auto simp: peer_disabled_def Forget_keeps)
  then show "guarded d b'" using g f by (simp add: guarded_def)
qed

lemma serve_guarded:
  assumes "idna_ldh E"
  shows "triple (\<lambda>w. crowd_keeps (\<lambda>s. guarded d (view s)) (sv_store w) \<and> queue_ok E w)
     (serve E (crowd_store S) R rq) (\<lambda>_ w. crowd_keeps (\<lambda>s. guarded d (view s)) (sv_store w))"
proof (rule serve_keeps [OF assms])
  fix d' assume c: "canonical_domain E d'"
  show "kept_about E (crowd_store S) R (crowd_keeps (\<lambda>s. guarded d (view s))) d'"
    by (intro kept_about_hard crowd_hard hard_kept [OF c guarded_kept])
  show "op_keeps (crowd_keeps (\<lambda>s. guarded d (view s))) (so_forget (crowd_store S) d')"
    unfolding crowd_sel by (intro among_op forget_guarded c)
qed

lemma interleaved_guarded:
  assumes "idna_ldh E" and net: "resolver_calm R" and c: "canonical_domain E d" and n: "NormalizeDomain E domain = Inr d"
    and g: "guarded d (view s)" and q: "\<And>i. queue_ok E (snd (gs i))" and rq: "fst (gs i) = ForEncryption domain"
  shows "guarded d (view (state_after s (interleaved E S R gs s sched)))
     \<and> (\<exists>r. fst (replay E S R gs s (interleaved E S R gs s sched) i) = Handed r \<and> (\<forall>e. r = Inl e \<longrightarrow> is_required e))"
proof (rule interleaved_holds [where J = "\<lambda>s. guarded d (view s)", OF g q serve_guarded [OF assms(1)]])
  show "triple (\<lambda>w. crowd_keeps (\<lambda>s. guarded d (view s)) (sv_store w)) (serve E (crowd_store S) R (fst (gs i)))
      (\<lambda>r w. \<exists>x. r = Handed x \<and> (\<forall>e. x = Inl e \<longrightarrow> is_required e))"
    unfolding rq serve.simps replying_def ResolveForEncryption_def
    by (rule triple_bind [OF guarded_store.no_downgrade [OF guarded_store.among_others [OF guarded_view] c n net]],
        rule triple_return) blast
qed

text \<open>Nothing that is asked about another domain touches the lineage of this one.\<close>

lemma other_hard:
  assumes c: "canonical_domain E d'" and ne: "d' \<noteq> d"
  shows "hard_ops S d' (\<lambda>s. lineage_book E d eff x (view s))"
  unfolding hard_ops_def
proof (intro conjI allI soft_kept [OF c lineage_soft])
  show "op_keeps (\<lambda>s. lineage_book E d eff x (view s)) (so_install S d' r)" for r
    by (rule op_keeps_outcome [OF install [OF c]]) (use ne in \<open>auto simp: lineage_book_def\<close>)
  show "op_keeps (\<lambda>s. lineage_book E d eff x (view s)) (so_set_identity S d' st)" for st
    by (rule op_keeps_outcome [OF set_identity [OF c]])
      (use ne in \<open>auto simp: lineage_book_def dest!: identity_stored_sel\<close>)
qed

lemma other_forget:
  "canonical_domain E d' \<Longrightarrow> d' \<noteq> d \<Longrightarrow> op_keeps (\<lambda>s. lineage_book E d eff x (view s)) (so_forget S d')"
  by (rule op_keeps_outcome [OF forget]) (auto simp: lineage_book_def)

end

context reliable_store
begin

lemma crowd_lineage: "lineage_store E (crowd_store S) (\<lambda>d eff x. crowd_keeps (\<lambda>s. lineage_book E d eff x (view s)))"
  by (rule lineage_store.among_lineage [OF lineage_view])

lemma about_lineage:
  assumes c: "canonical_domain E d'"
  shows "kept_about E (crowd_store S) R (crowd_keeps (\<lambda>s. lineage_book E d eff x (view s))) d'"
proof (cases "d' = d")
  case True
  with c have c: "canonical_domain E d" by simp
  show ?thesis
    unfolding kept_about_def True keeps_def
    by (intro conjI allI lineage_store.l_soft [OF crowd_lineage c]
        triple_post [OF lineage_store.resolve_lineage [OF crowd_lineage c]]
        triple_post [OF lineage_store.outbound_lineage [OF crowd_lineage c]]) simp_all
qed (intro kept_about_hard crowd_hard other_hard c)

lemma serve_lineage:
  assumes "idna_ldh E" and "\<not> forgets E rq d"
  shows "triple (\<lambda>w. crowd_keeps (\<lambda>s. lineage_book E d eff x (view s)) (sv_store w) \<and> queue_ok E w)
     (serve E (crowd_store S) R rq) (\<lambda>_ w. crowd_keeps (\<lambda>s. lineage_book E d eff x (view s)) (sv_store w))"
proof (rule serve_keeps [OF assms(1) about_lineage])
  fix d' assume "canonical_domain E d'" and "forgets E rq d'"
  with assms(2) show "op_keeps (crowd_keeps (\<lambda>s. lineage_book E d eff x (view s))) (so_forget (crowd_store S) d')"
    unfolding crowd_sel by (intro among_op other_forget) auto
qed

lemma interleaved_lineage:
  assumes "idna_ldh E" and c: "canonical_domain E d" and n: "NormalizeDomain E domain = Inr d"
    and l: "lineage_book E d eff x (view s)" and q: "\<And>i. queue_ok E (snd (gs i))"
    and f: "\<And>i. \<not> forgets E (fst (gs i)) d" and rq: "fst (gs i) = ForEncryption domain"
  shows "lineage_book E d eff x (view (state_after s (interleaved E S R gs s sched)))
     \<and> (\<exists>r. fst (replay E S R gs s (interleaved E S R gs s sched) i) = Handed r \<and> lineage_answer E d eff x r)"
proof (rule interleaved_holds [where J = "\<lambda>s. lineage_book E d eff x (view s)", OF l q serve_lineage [OF assms(1) f]])
  show "triple (\<lambda>w. crowd_keeps (\<lambda>s. lineage_book E d eff x (view s)) (sv_store w)) (serve E (crowd_store S) R (fst (gs i)))
      (\<lambda>r w. \<exists>y. r = Handed y \<and> lineage_answer E d eff x y)"
    unfolding rq serve.simps replying_def ResolveForEncryption_def
    by (rule triple_bind [OF lineage_store.encrypting_lineage [OF crowd_lineage c n]], rule triple_return) simp
qed

end

section \<open>A crowd at work\<close>

text \<open>Two senders, a refresh and an operator who adds the domain, by turns.\<close>

definition demo_goroutines :: "(memstore, unit) goroutines" where
  "demo_goroutines i =
     (if i = 0 \<or> i = 1 then ForEncryption example_com
      else if i = 2 then Refreshing example_com else Adding example_com, busy_world)"

definition demo_schedule :: "nat list" where
  "demo_schedule = concat (replicate 14 [0, 1, 2, 3])"

lemma demo_queues: "queue_ok E (snd (demo_goroutines i))"
  by (simp add: demo_goroutines_def queue_ok_def busy_world_def new_service_def)

lemma demo_spares: "\<not> forgets E (fst (demo_goroutines i)) d"
  by (simp add: demo_goroutines_def forgets_def)

lemma demo_sender: "fst (demo_goroutines 0) = ForEncryption example_com"
  by (simp add: demo_goroutines_def)

lemma demo_turns: "14 \<le> count_list demo_schedule 0"
  by (simp add: demo_schedule_def numeral_eq_Suc)

end
