(* ===== verification/Alerting.thy ===== *)
theory Alerting
  imports Threads
begin

text \<open>
  The alert of an operator (\<open>raise\<close> of \<^verbatim>\<open>peer/service.go\<close>, \<open>CoalesceIssue\<close> of \<^verbatim>\<open>issues.go\<close>): a condition
  worth waking someone for is reported, to a host that set \<^verbatim>\<open>OnAlert\<close>, when it first goes on record
  for a domain, and not again while it stays there.
\<close>

section \<open>What wakes an operator\<close>

fun is_alert :: "event \<Rightarrow> bool" where
  "is_alert (EvAlert d c t) = True"
| "is_alert _ = False"

definition alerts :: "('s, 'r) service \<Rightarrow> event list" where
  "alerts w = filter is_alert (sv_log w)"

definition on_record :: "book \<Rightarrow> string \<Rightarrow> issue_code \<Rightarrow> bool" where
  "on_record b d c \<longleftrightarrow> c \<in> pi_code ` set (pr_issues (book_peer b d))"

definition has_room :: "book \<Rightarrow> string \<Rightarrow> bool" where
  "has_room b d \<longleftrightarrow> length (pr_issues (book_peer b d)) < MaxPeerIssues"

lemma book_peer_put [simp]: "book_peer (book_put d p b) d = p"
  by (simp add: book_peer_def)

lemma coalesce_keeps: "c \<in> pi_code ` set is \<Longrightarrow> c \<in> pi_code ` set (fst (CoalesceIssue is c t now))"
proof (cases "bump_first c t now is")
  case (Some os)
  then have "pi_code ` set os = pi_code ` set is"
    using bump_first_codes [OF Some] by (metis list.set_map)
  then show "c \<in> pi_code ` set is \<Longrightarrow> c \<in> pi_code ` set (fst (CoalesceIssue is c t now))"
    by (simp add: CoalesceIssue_def Some)
next
  case None
  then show "c \<in> pi_code ` set is \<Longrightarrow> c \<in> pi_code ` set (fst (CoalesceIssue is c t now))"
    using bump_first_None [of c t now "is"] by simp
qed

lemma coalesce_room:
  assumes "length is < MaxPeerIssues"
  shows "c \<in> pi_code ` set (fst (CoalesceIssue is c t now))"
proof (cases "bump_first c t now is")
  case None
  then show ?thesis
    using assms by (simp add: CoalesceIssue_def evict_short)
next
  case (Some os)
  then have "c \<in> pi_code ` set is" using bump_first_None [of c t now "is"] by simp
  then show ?thesis by (rule coalesce_keeps)
qed

context store_contract
begin

text \<open>The log of alerts and what is on record for one condition of one domain.\<close>

lemma raise_once:
  assumes c: "canonical_domain E d" and ok: "\<And>c t s. is_ok (fst (so_record_issue S d c t s))"
  shows "triple (\<lambda>w. (sv_callbacks w = cb \<and> alerts w = A)
       \<and> on_record (book_at view w) d code = k \<and> has_room (book_at view w) d = room)
     (raise S d code t)
     (\<lambda>_ w. (sv_callbacks w = cb
         \<and> alerts w = A @ (if \<not> k \<and> issue_alerts code \<and> cb_alert cb then [EvAlert d code t] else []))
       \<and> (k \<or> room \<longrightarrow> on_record (book_at view w) d code))"
proof (rule tripleI)
  fix w u w'
  assume pre: "(sv_callbacks w = cb \<and> alerts w = A)
      \<and> on_record (book_at view w) d code = k \<and> has_room (book_at view w) d = room"
    and run: "run_state (raise S d code t) w = (u, w')"
  obtain first s' where f: "so_record_issue S d code t (sv_store w) = (Inr first, s')"
    using ok [of code t "sv_store w"] by (cases "so_record_issue S d code t (sv_store w)") (auto simp: is_ok_iff)
  from record_issue [OF c, of "sv_store w" code t] obtain now where
    b: "view s' = book_put d ((book_peer (view (sv_store w)) d)\<lparr>pr_issues :=
        fst (CoalesceIssue (pr_issues (book_peer (view (sv_store w)) d)) code t now)\<rparr>) (view (sv_store w))"
    and first: "first \<longleftrightarrow> \<not> k"
    using pre by (auto simp: f outcome_def on_record_def book_at_def)
  have w': "w' = (if first \<and> issue_alerts code \<and> cb_alert cb then w\<lparr>sv_store := s', sv_log := sv_log w @ [EvAlert d code t]\<rparr> else w\<lparr>sv_store := s'\<rparr>)"
    using run f pre by (auto simp: raise_def on_store_def emit_def split: if_splits)
  have "on_record (view s') d code" if "k \<or> room"
    using that pre coalesce_keeps coalesce_room by (auto simp: on_record_def has_room_def b book_at_def)
  then show "(sv_callbacks w' = cb
         \<and> alerts w' = A @ (if \<not> k \<and> issue_alerts code \<and> cb_alert cb then [EvAlert d code t] else []))
       \<and> (k \<or> room \<longrightarrow> on_record (book_at view w') d code)"
    using pre first by (auto simp: w' alerts_def book_at_def)
qed

lemma keeps_alerts:
  "keeps (\<lambda>w. (sv_callbacks w = cb \<and> alerts w = A) \<and> Q (book_at view w)) svc_now"
  "\<not> is_alert e \<Longrightarrow> keeps (\<lambda>w. (sv_callbacks w = cb \<and> alerts w = A) \<and> Q (book_at view w)) (emit e)"
  "keeps (\<lambda>w. (sv_callbacks w = cb \<and> alerts w = A) \<and> Q (book_at view w)) (emit_err d r)"
  by (auto intro!: keepsI simp: svc_now_def emit_def emit_err_def alerts_def book_at_def split: sum.splits if_splits)

lemma keeps_alerts_store:
  assumes "keeps (\<lambda>w. Q (book_at view w)) (on_store f :: ('s, 'r, 'a) svc)"
  shows "keeps (\<lambda>w. (sv_callbacks w = cb \<and> alerts w = A) \<and> Q (book_at view w)) (on_store f :: ('s, 'r, 'a) svc)"
proof (rule keepsI)
  fix w w' :: "('s, 'r) service" and a assume pre: "(sv_callbacks w = cb \<and> alerts w = A) \<and> Q (book_at view w)" and run: "run_state (on_store f) w = (a, w')"
  have "sv_log w' = sv_log w \<and> sv_callbacks w' = sv_callbacks w" using run by (auto simp: on_store_def Let_def split: prod.splits)
  moreover have "Q (book_at view w')"
    by (rule tripleD [OF keeps_triple [OF assms] _ run]) (use pre in simp)
  ultimately show "(sv_callbacks w' = cb \<and> alerts w' = A) \<and> Q (book_at view w')"
    using pre by (simp add: alerts_def)
qed

lemma refuse_once:
  assumes c: "canonical_domain E d" and ok: "\<And>c t s. is_ok (fst (so_record_issue S d c t s))"
    and code: "code = issueOf (vd_reason v)"
  shows "triple (\<lambda>w. (sv_callbacks w = cb \<and> alerts w = A)
       \<and> on_record (book_at view w) d code = k \<and> has_room (book_at view w) d = room)
     (refuse E S d prev res v acc)
     (\<lambda>_ w. (sv_callbacks w = cb
         \<and> alerts w = A @ (if \<not> k \<and> issue_alerts code \<and> cb_alert cb then [EvAlert d code (vd_alert v)] else []))
       \<and> (k \<or> room \<longrightarrow> on_record (book_at view w) d code))"
proof -
  let ?Q = "\<lambda>b. on_record b d code = k \<and> has_room b d = room"
  have fail: "keeps (\<lambda>w. ?Q (book_at view w)) (on_store (so_record_failure S d e))" for e
    by (rule keeps_store [OF record_failure [OF c]]) (auto simp: on_record_def has_room_def Fail_peer_def split: if_splits)
  show ?thesis
    unfolding refuse_def code
    by (rule triple_keep [OF keeps_alerts_store [OF fail [unfolded code]]], rule triple_keep [OF keeps_alerts(3)],
        rule triple_bind [OF raise_once [OF c ok]], rule keeps_triple, intro keeps_rules keeps_alerts) simp_all
qed

text \<open>Among other goroutines: the store decides the first under its lock, so while the others keep the
  condition on record nobody is woken again, however the calls fall.\<close>

lemma record_again:
  assumes c: "canonical_domain E d"
  shows "op_triple (\<lambda>s. on_record (view s) d code) (so_record_issue S d code t) (\<lambda>r. r \<noteq> Inr True)"
proof (rule op_outcome [OF record_issue [OF c]])
  fix first and b b' :: book
  assume "on_record b d code" and "\<exists>now. b' = book_put d ((book_peer b d)\<lparr>pr_issues :=
      fst (CoalesceIssue (pr_issues (book_peer b d)) code t now)\<rparr>) b \<and> (first \<longleftrightarrow> code \<notin> pi_code ` set (pr_issues (book_peer b d)))"
  then show "Inr first \<noteq> Inr True \<and> on_record b' d code"
    using coalesce_keeps by (auto simp: on_record_def)
qed simp

lemma raise_among_silent:
  assumes c: "canonical_domain E d" and J: "crowd_keeps (\<lambda>s. on_record (view s) d code) (sv_store w)"
    and run: "run_state (raise (crowd_store S) d code t) w = (u, w')"
  shows "alerts w' = alerts w \<and> on_record (view (cw_store (sv_store w'))) d code"
proof -
  let ?J = "crowd_keeps (\<lambda>s. on_record (view s) d code)"
  obtain r s' where f: "so_record_issue (crowd_store S) d code t (sv_store w) = (r, s')" by fastforce
  have "op_triple ?J (so_record_issue (crowd_store S) d code t) (\<lambda>r. r \<noteq> Inr True)"
    unfolding crowd_sel by (rule among_op [OF record_again [OF c]])
  with J f have "r \<noteq> Inr True" and s': "?J s'" by (auto simp: op_triple_def dest!: spec [of _ "sv_store w"])
  then have "alerts w' = alerts w \<and> sv_store w' = s'"
    using run f by (auto simp: raise_def on_store_def emit_def alerts_def split: sum.splits if_splits)
  with s' show ?thesis by (simp add: crowd_keeps_def)
qed

end

section \<open>On the concrete instance\<close>

lemma mem_records: "canonical_domain E d \<Longrightarrow> is_ok (fst (so_record_issue (mem_store E) d c t s))"
  by (simp add: mem_store_def mem_op_defs with_domain_canonical Let_def split: prod.splits)

definition other_signer :: verdict where
  "other_signer = zero_verdict\<lparr>vd_reason := ''pinned/valid-proof-other-signer'', vd_alert := say ''another signer''\<rparr>"

lemma other_signer_code: "issueOf (vd_reason other_signer) = IssueSignerChanged"
  by (simp add: other_signer_def issueOf_def starts_with_def)

lemma demo_no_issues: "\<not> on_record (book_at book_of demo_world) example_com c" "has_room (book_at book_of demo_world) example_com"
  "alerts demo_world = []"
  by (simp_all add: on_record_def has_room_def alerts_def demo_world_def new_service_def book_at_def book_of_def
      book_peer_def demo_mem_eq zero_peer_def MaxPeerIssues_def)

lemma demo_callbacks [simp]: "sv_callbacks demo_world = every_callback" "cb_alert every_callback"
  by (simp_all add: demo_world_def new_service_def every_callback_def)

end
