(* ===== verification/Succession.thy ===== *)
theory Succession
  imports Contact
begin

text \<open>
  A key rotation from end to end (\<^verbatim>\<open>followRotation\<close> of \<^verbatim>\<open>peer/service.go\<close>, \<^verbatim>\<open>resolver/resolver.go\<close>,
  \<^verbatim>\<open>wellknown/wellknown.go\<close>): the document a domain serves is fetched, its chain leads from the pin to
  the new signer, and the pin and the manifest move.
\<close>

section \<open>The identity document of a domain, served and fetched\<close>

lemma ServeHTTP_identity:
  assumes "NormalizeDomain E d = Inr d" and "hd_publisher t = Some p" and "pu_identity p = Some doc_of"
    and "doc_of d = Some raw" and "raw \<noteq> []" and "rq_method rq = ''GET''" and "rq_path rq = ResourcePath"
    and "rq_query rq = [(SubjectQueryParam, d)]" and "header_get (rq_header rq) ''If-None-Match'' = []"
  shows "ServeHTTP E t rq = \<lparr>an_status = 200, an_header = header_set
      (doc_header (etag_of (ex_sha256 E raw)) (maxAge t)) ''Content-Length'' (itoa (int (length raw))), an_body = raw\<rparr>"
proof -
  have "d \<noteq> []" using assms(1) by (auto simp: NormalizeDomain_def Let_def split: if_splits option.splits)
  then have "candidates E rq = Some [d]"
    using assms by (simp add: candidates_def query_get_def)
  then show ?thesis
    using assms by (simp add: ServeHTTP_def serveIdentity_def conditional_def Let_def)
qed

text \<open>The handler of the host serves a document that parses for the domain and consents to the host.\<close>

definition publishes_identity ::
  "externs \<Rightarrow> options \<Rightarrow> 'c network \<Rightarrow> string \<Rightarrow> handler \<Rightarrow> bytes \<Rightarrow> doc \<Rightarrow> bool" where
  "publishes_identity E opts W d t raw dc \<longleftrightarrow>
     (\<exists>host p doc_of. AuthorityHost E d [] = Inr host \<and> served_by E (New_resolver opts) W d host t
        \<and> hd_publisher t = Some p \<and> pu_identity p = Some doc_of \<and> doc_of d = Some raw
        \<and> CheckAuthority E dc host = Inr ())
     \<and> raw \<noteq> [] \<and> length raw \<le> MaxChainBytes \<and> ParseDoc E d raw = Inr dc"

lemma published_identity_fetched:
  assumes pub: "publishes_identity E opts W d t raw dc" and normal: "NormalizeDomain E d = Inr d"
  shows "ResolveIdentityChain E (New_resolver opts) W d [] = Inr raw"
proof -
  let ?r = "New_resolver opts"
  from pub obtain host p doc_of where host: "AuthorityHost E d [] = Inr host" and served: "served_by E ?r W d host t"
    and t: "hd_publisher t = Some p" "pu_identity p = Some doc_of" "doc_of d = Some raw"
    and consent: "CheckAuthority E dc host = Inr ()" and raw: "raw \<noteq> []" "length raw \<le> MaxChainBytes"
    and parsed: "ParseDoc E d raw = Inr dc"
    by (auto simp: publishes_identity_def)
  let ?u = "\<lparr>u_scheme = ''https'', u_host = host, u_path = ResourcePath, u_query = [(SubjectQueryParam, d)]\<rparr>"
  let ?rp = "\<lparr>rp_status = 200, rp_length = int (length raw), rp_header = header_set
      (doc_header (etag_of (ex_sha256 E raw)) (maxAge t)) ''Content-Length'' (itoa (int (length raw))), rp_bytes = raw, rp_broken = None\<rparr>"
  obtain tried conn where dial: "DialContext (client_dialer ?r W d) (host @ '':'' @ re_port ?r) = (tried, Inr conn)"
    and ex: "nw_exchange W conn host = (\<lambda>rq. Inr (response_of (ServeHTTP E t rq)))"
    using served by (rule served_by_cases)
  have live: "\<not> nw_cancelled W" "list_all is_digit (re_port ?r)" using served by (auto simp: served_by_def)
  obtain rq where rq: "request_for ?r ?u = Inr rq" "rq_method rq = ''GET''" "rq_path rq = ResourcePath"
      "rq_query rq = [(SubjectQueryParam, d)]" "header_get (rq_header rq) ''If-None-Match'' = []"
    using live by (simp add: request_for_def)
  have rp: "response_of (ServeHTTP E t rq) = ?rp"
    using ServeHTTP_identity [OF normal t raw(1) rq(2-5)] by (simp add: response_of_def)
  have "clientFor ?r W d host rq = Inr ?rp"
    by (simp add: clientFor_def dial [simplified] ex rp client_do_Inr redirect_status_def)
  then have perf: "perform ?r W d host ?u = Inr ?rp"
    by (simp add: perform_def rq)
  have n: "nat (int MaxChainBytes + 1) = Suc MaxChainBytes" by simp
  have "header_get (rp_header ?rp) ''Content-Type'' = MediaType"
    by (simp add: doc_header_def)
  then have body: "bounded_body E d ?rp (int MaxChainBytes) = Inr raw"
    using raw(2) checkMediaType_own [of E] by (simp add: bounded_body_def read_limited_def n)
  show ?thesis
    using live normal host perf body parsed consent by (simp add: ResolveIdentityChain_def)
qed

section \<open>A step at a turn of the network\<close>

definition at_turn :: "('s \<Rightarrow> book) \<Rightarrow> 'r \<Rightarrow> (nat \<Rightarrow> time) \<Rightarrow> (book \<Rightarrow> bool) \<Rightarrow> ('s, 'r) service \<Rightarrow> bool" where
  "at_turn view n ck I w \<longleftrightarrow> sv_net w = n \<and> sv_clock w = ck \<and> I (book_at view w)"

lemma turn_store:
  assumes "\<And>s. outcome view d s (f s) P" and "\<And>s. I (view s) \<Longrightarrow> is_ok (fst (f s))"
    and "\<And>x b b'. I b \<Longrightarrow> P x b b' \<Longrightarrow> Q x b'"
  shows "triple (at_turn view n ck I) (on_store f) (\<lambda>r w. \<exists>x. r = Inr x \<and> at_turn view n ck (Q x) w)"
proof (rule tripleI)
  fix w r w' assume pre: "at_turn view n ck I w" and run: "run_state (on_store f) w = (r, w')"
  have "sv_net w' = sv_net w \<and> sv_clock w' = sv_clock w"
    using run by (auto simp: on_store_def Let_def split: prod.splits)
  moreover have "\<exists>x. r = Inr x \<and> Q x (book_at view w')"
    using tripleD [OF triple_works [of view d f P I Q, OF assms] _ run] pre by (simp add: at_turn_def)
  ultimately show "\<exists>x. r = Inr x \<and> at_turn view n ck (Q x) w'"
    using pre by (auto simp: at_turn_def)
qed

lemma turn_now: "triple (at_turn view n ck I) svc_now (\<lambda>t w. (\<exists>k. t = ck k) \<and> at_turn view n ck I w)"
  by (auto simp: triple_def svc_now_def at_turn_def book_at_def)

lemma turn_net: "f n = (r, m) \<Longrightarrow> triple (at_turn view n ck I) (on_net f) (\<lambda>x w. x = r \<and> at_turn view m ck I w)"
  by (auto simp: triple_def on_net_def at_turn_def book_at_def Let_def)

lemma turn_off: "triple (\<lambda>w. I (book_at view w)) m Q \<Longrightarrow> triple (at_turn view n ck I) m Q"
  by (erule triple_weaken) (auto simp: at_turn_def)

section \<open>A published rotation is followed\<close>

definition pinned_open :: "string \<Rightarrow> bytes \<Rightarrow> bytes \<Rightarrow> book \<Rightarrow> bool" where
  "pinned_open d fp key b \<longleftrightarrow> pinned_as b d fp key \<and> \<not> peer_disabled b d"

definition no_route :: "string \<Rightarrow> book \<Rightarrow> bool" where
  "no_route d b \<longleftrightarrow> (\<forall>p. bk_peers b d = Some p \<longrightarrow> newest_authority (pr_observations p) zero_time [] = [])"

definition succeeded :: "string \<Rightarrow> fetch_result \<Rightarrow> bytes \<Rightarrow> bytes \<Rightarrow> book \<Rightarrow> bool" where
  "succeeded d res fp key b \<longleftrightarrow> pinned_as b d fp key \<and> effective_of b d = Some (installed_record res)"

lemma newest_status: "newest_authority (map (\<lambda>ob. ob\<lparr>ob_status := f ob\<rparr>) obs) t h = newest_authority obs t h"
  by (induction obs arbitrary: t h) simp_all

lemma newest_Reconcile [simp]:
  "newest_authority (pr_observations (Reconcile p now)) t h = newest_authority (pr_observations p) t h"
  by (simp add: Reconcile_def Let_def newest_status split: option.splits)

lemma decide_other:
  assumes "id_status (pr_identity p) = IdentityPinned" and "valid_proof res = Some pf"
    and "pf_fingerprint pf \<noteq> id_fingerprint (pr_identity p)"
  shows "vd_reason (DecideIdentity (Some p) res f has c) = ''pinned/valid-proof-other-signer''
     \<and> \<not> vd_accept (DecideIdentity (Some p) res f has c)"
  using assms by (auto simp: DecideIdentity_def Let_def valid_proof_def zero_verdict_def split: if_splits)

context store_contract
begin

lemma get_pinned_open:
  assumes c: "canonical_domain E d" and ok: "works S view d"
  shows "triple (at_turn view n ck (pinned_open d fp key)) (on_store (so_get S d))
     (\<lambda>r w. (\<exists>p. r = Inr (Some p) \<and> id_status (pr_identity p) = IdentityPinned
          \<and> id_fingerprint (pr_identity p) = fp \<and> id_pinned_key (pr_identity p) = key)
        \<and> at_turn view n ck (pinned_open d fp key) w)"
proof -
  let ?Q = "\<lambda>x b. (\<exists>p. x = Some p \<and> id_status (pr_identity p) = IdentityPinned
      \<and> id_fingerprint (pr_identity p) = fp \<and> id_pinned_key (pr_identity p) = key) \<and> pinned_open d fp key b"
  have "triple (at_turn view n ck (pinned_open d fp key)) (on_store (so_get S d))
     (\<lambda>r w. \<exists>x. r = Inr x \<and> at_turn view n ck (?Q x) w)"
    by (rule turn_store [OF get [OF c]]) (use ok in \<open>auto simp: works_def pinned_open_def pinned_as_def\<close>)
  then show ?thesis by (rule triple_post) (auto simp: at_turn_def)
qed

lemma hint_pinned_open:
  assumes c: "canonical_domain E d" and ok: "works S view d"
  shows "triple (at_turn view n ck (\<lambda>b. pinned_open d fp key b \<and> no_route d b)) (authorityHint S d)
     (\<lambda>a w. a = [] \<and> at_turn view n ck (pinned_open d fp key) w)"
proof -
  let ?P = "\<lambda>b. pinned_open d fp key b \<and> no_route d b"
  let ?Q = "\<lambda>x b. (\<exists>p. x = Some p \<and> newest_authority (pr_observations p) zero_time [] = []) \<and> pinned_open d fp key b"
  have "triple (at_turn view n ck ?P) (on_store (so_get S d)) (\<lambda>r w. \<exists>x. r = Inr x \<and> at_turn view n ck (?Q x) w)"
    by (rule turn_store [OF get [OF c]])
      (use ok in \<open>auto simp: works_def pinned_open_def pinned_as_def no_route_def\<close>)
  then show ?thesis
    unfolding authorityHint_def
    by (rule triple_bind) (auto simp: triple_def at_turn_def split: sum.splits option.splits)
qed

lemma install_successor_done:
  assumes c: "canonical_domain E d" and ok: "works S view d" and m: "mf_domain (rs_manifest res) = d"
    and st: "id_status st = IdentityPinned" "id_fingerprint st = fp'" "id_pinned_key st = key'"
  shows "triple (at_turn view n ck (pinned_open d fp key)) (install_successor S d st res)
     (\<lambda>r w. r = Some res \<and> succeeded d res fp' key' (book_at view w))"
proof -
  have set: "triple (at_turn view n ck (pinned_open d fp key)) (on_store (so_set_identity S d st))
      (\<lambda>r w. \<exists>x. r = Inr x \<and> at_turn view n ck (pinned_open d fp' key') w)"
    by (rule turn_store [OF set_identity [OF c]])
      (use ok st in \<open>auto simp: works_def pinned_open_def identity_stored_def pinned_as_def peer_disabled_def\<close>)
  have inst: "triple (at_turn view n ck (pinned_open d fp' key')) (on_store (so_install S d res))
      (\<lambda>r w. \<exists>x. r = Inr x \<and> at_turn view n ck (succeeded d res fp' key') w)"
    by (rule turn_store [OF install [OF c]])
      (use ok m in \<open>auto simp: works_def pinned_open_def succeeded_def pinned_as_def effective_of_def book_peer_def\<close>)
  have soft: "kept_by_soft (succeeded d res fp' key')"
    unfolding succeeded_def by (rule pinned_soft)
  have rest: "triple (at_turn view n ck (succeeded d res fp' key'))
      (do { clear_issues S d cs; emit e; State_Monad.return (Some res) })
      (\<lambda>r w. r = Some res \<and> succeeded d res fp' key' (book_at view w))" for cs e
    by (rule turn_off, rule triple_keep [OF keeps_clear [OF c soft]], rule triple_keep [OF keeps_local(4)], rule triple_return) simp
  show ?thesis
    unfolding install_successor_def
    by (rule triple_bind [OF set], rule triple_Inr, rule triple_bind [OF inst], rule triple_Inr, rule rest)
qed

end

text \<open>What a correspondent that holds a pin needs of the network: an answer proven by another
  identity, and a document whose chain leads from the pin to that identity.\<close>

definition leads_to ::
  "externs \<Rightarrow> 'r resolver_ops \<Rightarrow> string \<Rightarrow> (nat \<Rightarrow> time) \<Rightarrow> 'r \<Rightarrow> fetch_result \<Rightarrow> id_proof \<Rightarrow> bytes \<Rightarrow> bytes \<Rightarrow> chain_result \<Rightarrow> bool" where
  "leads_to E R d ck n res pf fp key walked \<longleftrightarrow>
     (\<exists>m f raw dc. rv_resolve R d [] n = (Inr res, m) \<and> rv_chain R = Some f \<and> fst (f d [] m) = Inr raw
        \<and> ParseDoc E d raw = Inr dc \<and> (\<forall>k. WalkChain E fp key (dc_chain dc) (ck k) = (walked, None)))
     \<and> valid_proof res = Some pf \<and> pf_fingerprint pf \<noteq> fp \<and> key \<noteq> [] \<and> mf_domain (rs_manifest res) = d
     \<and> \<not> cr_revoked walked \<and> cr_applied walked \<noteq> 0 \<and> cr_fingerprint walked = pf_fingerprint pf"

context store_contract
begin

lemma follow_doc_done:
  assumes c: "canonical_domain E d" and ok: "works S view d" and m: "mf_domain (rs_manifest res) = d"
    and p: "id_fingerprint (pr_identity p) = fp" "id_pinned_key (pr_identity p) = key"
    and walk: "\<And>k. WalkChain E fp key (dc_chain dc) (ck k) = (walked, None)"
    and w: "\<not> cr_revoked walked" "cr_applied walked \<noteq> 0" "cr_fingerprint walked = pf_fingerprint pf"
  shows "triple (at_turn view n ck (pinned_open d fp key)) (follow_doc E S d p pf res dc)
     (\<lambda>r w. r = Some res \<and> succeeded d res (pf_fingerprint pf) (cr_public_key walked) (book_at view w))"
proof -
  have go: "triple (\<lambda>w. (\<exists>k. t = ck k) \<and> at_turn view n ck (pinned_open d fp key) w)
      (install_successor S d (rotated_identity (pr_identity p) walked res t) res)
      (\<lambda>r w. r = Some res \<and> succeeded d res (pf_fingerprint pf) (cr_public_key walked) (book_at view w))" for t
    by (rule triple_pure, rule install_successor_done [OF c ok m])
      (simp_all add: rotated_identity_def Let_def w(3))
  show ?thesis
    unfolding follow_doc_def p
  proof (rule triple_bind [OF turn_now], rule triple_pure)
    fix now assume "\<exists>k. now = ck k"
    then have "WalkChain E fp key (dc_chain dc) now = (walked, None)" using walk by auto
    then show "triple (at_turn view n ck (pinned_open d fp key))
       (case WalkChain E fp key (dc_chain dc) now of
          (walked, None) \<Rightarrow>
            if cr_revoked walked then do { raise S d IssueRevoked (say ''the pinned identity was revoked: %s''); State_Monad.return None }
            else if cr_applied walked = 0 \<or> cr_fingerprint walked \<noteq> pf_fingerprint pf then State_Monad.return None
            else do { t \<leftarrow> svc_now; install_successor S d (rotated_identity (pr_identity p) walked res t) res }
        | (walked, Some e) \<Rightarrow>
            do { raise S d IssueSignerChanged (Some (Wrapped ''identity chain did not verify: %s'' e)); State_Monad.return None })
       (\<lambda>r w. r = Some res \<and> succeeded d res (pf_fingerprint pf) (cr_public_key walked) (book_at view w))"
      using w by simp (rule triple_bind [OF turn_now go])
  qed
qed

lemma commit_follows:
  assumes c: "canonical_domain E d" and ok: "works S view d" and m: "mf_domain (rs_manifest res) = d"
    and p: "id_status (pr_identity p) = IdentityPinned" "id_fingerprint (pr_identity p) = fp" "id_pinned_key (pr_identity p) = key"
    and v: "vd_reason v = ''pinned/valid-proof-other-signer''" "\<not> vd_accept v"
    and pf: "valid_proof res = Some pf" and key: "key \<noteq> []"
    and chain: "rv_chain R = Some f" "fst (f d [] n) = Inr raw" "ParseDoc E d raw = Inr dc"
    and walk: "\<And>k. WalkChain E fp key (dc_chain dc) (ck k) = (walked, None)"
    and w: "\<not> cr_revoked walked" "cr_applied walked \<noteq> 0" "cr_fingerprint walked = pf_fingerprint pf"
  shows "triple (at_turn view n ck (pinned_open d fp key)) (commit E S R d [] acc res (Some p) v)
     (\<lambda>r w. r = Inr res \<and> succeeded d res (pf_fingerprint pf) (cr_public_key walked) (book_at view w))"
proof -
  obtain n' where f: "f d [] n = (Inr raw, n')" using chain(2) by (metis prod.collapse)
  have pr: "rs_proof res = Some pf" using pf by (simp add: valid_proof_def split: if_splits)
  have set: "triple (at_turn view n ck (pinned_open d fp key))
      (on_store (so_set_identity S d (ApplyIdentity (pr_identity p) v res t)))
      (\<lambda>r w. \<exists>x. r = Inr x \<and> at_turn view n ck (pinned_open d fp key) w)" for t
    by (rule turn_store [OF set_identity [OF c]])
      (use ok p ApplyIdentity_pinned [OF p(1), of v res t] in
        \<open>auto simp: works_def pinned_open_def identity_stored_def pinned_as_def peer_disabled_def same_pin_def\<close>)
  have follow: "triple (at_turn view n ck (pinned_open d fp key)) (followRotation E S R d [] (Some p) res)
      (\<lambda>r w. r = Some res \<and> succeeded d res (pf_fingerprint pf) (cr_public_key walked) (book_at view w))"
    unfolding followRotation_def chain(1) pr using key p(3) chain(3)
    by simp (rule triple_bind [OF turn_net [where f = "f d []", OF f]], rule triple_pure,
      simp add: follow_doc_done [OF c ok m p(2,3) walk w])
  show ?thesis
    unfolding commit_def identityOf_def option.case
    by (rule triple_bind [OF turn_now], rule triple_pure, rule triple_bind [OF set], rule triple_Inr)
      (simp add: v, rule triple_bind [OF follow], auto simp: triple_def)
qed

lemma settle_follows:
  assumes c: "canonical_domain E d" and ok: "works S view d" and m: "mf_domain (rs_manifest res) = d"
    and pf: "valid_proof res = Some pf" "pf_fingerprint pf \<noteq> fp" and key: "key \<noteq> []"
    and chain: "rv_chain R = Some f" "fst (f d [] n) = Inr raw" "ParseDoc E d raw = Inr dc"
    and walk: "\<And>k. WalkChain E fp key (dc_chain dc) (ck k) = (walked, None)"
    and w: "\<not> cr_revoked walked" "cr_applied walked \<noteq> 0" "cr_fingerprint walked = pf_fingerprint pf"
  shows "triple (at_turn view n ck (pinned_open d fp key)) (settle E S R d [] acc res)
     (\<lambda>r w. r = Inr res \<and> succeeded d res (pf_fingerprint pf) (cr_public_key walked) (book_at view w))"
    (is "triple ?P _ ?Q")
proof -
  have mark: "triple ?P (on_store (so_mark_validated S d t)) (\<lambda>r w. \<exists>x. r = Inr x \<and> ?P w)" for t
    by (rule turn_store [OF mark [OF c]])
      (use ok in \<open>auto simp: works_def pinned_open_def pinned_as_def peer_disabled_def\<close>)
  show ?thesis
    unfolding settle_def Let_def
  proof (rule triple_bind [OF get_pinned_open [OF c ok]], rule triple_pure)
    fix g :: "gerr + peer option"
    assume "\<exists>p. g = Inr (Some p) \<and> id_status (pr_identity p) = IdentityPinned
          \<and> id_fingerprint (pr_identity p) = fp \<and> id_pinned_key (pr_identity p) = key"
    then obtain p where g: "g = Inr (Some p)" and p: "id_status (pr_identity p) = IdentityPinned"
      "id_fingerprint (pr_identity p) = fp" "id_pinned_key (pr_identity p) = key" by blast
    have ne: "pf_fingerprint pf \<noteq> id_fingerprint (pr_identity p)" using pf(2) p(2) by simp
    note v = decide_other [OF p(1) pf(1) ne]
    have go: "triple ?P (do { m \<leftarrow> on_store (so_mark_validated S d (rs_fetched_at res));
            case m of Inl e \<Rightarrow> persistenceHold d ''capability latch'' e
            | Inr _ \<Rightarrow> commit E S R d [] acc res (Some p) (DecideIdentity (Some p) res h has cu) }) ?Q" for h has cu
      using v by (intro triple_bind [OF mark] triple_Inr commit_follows [OF c ok m p _ _ pf(1) key chain walk w]) auto
    show "triple ?P
      (do { v \<leftarrow> decide (case g of Inl _ \<Rightarrow> None | Inr p \<Rightarrow> p) res;
            m \<leftarrow> on_store (so_mark_validated S d (rs_fetched_at res));
            case m of Inl e \<Rightarrow> persistenceHold d ''capability latch'' e
            | Inr _ \<Rightarrow> commit E S R d [] acc res (case g of Inl _ \<Rightarrow> None | Inr p \<Rightarrow> p) v }) ?Q"
      unfolding g sum.case decide_def option.case State_Monad.bind_assoc
      by (rule triple_bind [OF turn_now], rule triple_pure, simp only: State_Monad.bind_left_identity, rule go)
  qed
qed

lemma resolve_follows:
  assumes c: "canonical_domain E d" and ok: "works S view d"
    and l: "leads_to E R d ck n res pf fp key walked"
  shows "triple (at_turn view n ck (\<lambda>b. pinned_open d fp key b \<and> no_route d b)) (resolve E S R d True acc)
     (\<lambda>r w. r = Inr res \<and> succeeded d res (pf_fingerprint pf) (cr_public_key walked) (book_at view w))"
proof -
  from l obtain m f raw dc where net: "rv_resolve R d [] n = (Inr res, m)"
    and chain: "rv_chain R = Some f" "fst (f d [] m) = Inr raw" "ParseDoc E d raw = Inr dc"
    and walk: "\<And>k. WalkChain E fp key (dc_chain dc) (ck k) = (walked, None)"
    and rest: "valid_proof res = Some pf" "pf_fingerprint pf \<noteq> fp" "key \<noteq> []" "mf_domain (rs_manifest res) = d"
     "\<not> cr_revoked walked" "cr_applied walked \<noteq> 0" "cr_fingerprint walked = pf_fingerprint pf"
    by (auto simp: leads_to_def)
  show ?thesis
    unfolding resolve_def
    by (simp, rule triple_bind [OF hint_pinned_open [OF c ok]], rule triple_pure, simp,
        rule triple_bind [OF turn_net [where f = "rv_resolve R d []", OF net]], rule triple_pure,
        simp add: settle_follows [OF c ok rest(4,1-3) chain walk rest(5-7)])
qed

lemma refresh_follows:
  assumes c: "canonical_domain E d" and n: "NormalizeDomain E domain = Inr d" and ok: "works S view d"
    and l: "leads_to E R d ck n res pf fp key walked"
  shows "triple (at_turn view n ck (\<lambda>b. pinned_open d fp key b \<and> no_route d b)) (Refresh E S R domain)
     (\<lambda>r w. (\<exists>p. r = (Some p, None) \<and> pr_effective p = Some (installed_record res))
        \<and> succeeded d res (pf_fingerprint pf) (cr_public_key walked) (book_at view w))"
proof -
  let ?s = "succeeded d res (pf_fingerprint pf) (cr_public_key walked)"
  have read: "triple (\<lambda>w. ?s (book_at view w)) (on_store (so_get S d))
      (\<lambda>r w. \<exists>x. r = Inr x \<and> (\<exists>p. x = Some p \<and> pr_effective p = Some (installed_record res)) \<and> ?s (book_at view w))"
    by (rule triple_works [OF get [OF c]])
      (use ok in \<open>auto simp: works_def succeeded_def pinned_as_def effective_of_def\<close>)
  show ?thesis
    unfolding Refresh_def n sum.case refresh_def
    by (rule triple_bind [OF resolve_follows [OF c ok l]], rule triple_pure, rule triple_bind [OF read])
      (auto simp: triple_def)
qed

end

section \<open>A rotation, published\<close>

text \<open>The domain of the examples signs its manifest with the next key and publishes the statement by
  which the old one hands over.\<close>

definition next_fp :: bytes where
  "next_fp = inst_sha256 (enc (fingerprint_preimage example_com (ed_public next_key)))"

lemma next_fingerprint: "FingerprintOf inst example_com (ed_public next_key) = Inr next_fp"
  by (simp add: FingerprintOf_Inr normalize_example ed_public_length next_fp_def)

lemma next_fp_differs: "next_fp \<noteq> demo_fp"
  by code_simp

definition next_sig :: bytes where
  "next_sig = inst_sign next_key (ManifestContext @ example_com @ demo_raw)"

lemma next_sign: "SignManifest inst next_key example_com demo_raw = Inr next_sig"
  by (simp add: SignManifest_Inr transcript_Inr normalize_example demo_raw_size next_sig_def)

definition next_proof :: id_proof where
  "next_proof = \<lparr>pf_public_key = ed_public next_key, pf_fingerprint = next_fp, pf_signature = next_sig\<rparr>"

lemma next_checked: "Check inst (Some next_proof) example_com demo_raw = Inr ()"
  unfolding next_proof_def by (rule Check_Sign [OF inst_laws(5) next_sign next_fingerprint])

lemma next_proof_sized: "proof_sized next_proof"
  by (simp add: proof_sized_def next_proof_def ed_public_length next_fp_def next_sig_def inst_sign_def
      PublicKeySize_def SignatureSize_def)

definition next_doc :: doc where
  "next_doc = \<lparr>dc_type = DocType, dc_version = Version, dc_domain = example_com, dc_active_fp = next_fp,
     dc_active_pk = ed_public next_key, dc_alg = Alg, dc_status = StatusActive, dc_updated_at = issued,
     dc_authority = [], dc_chain = [demo_rotation]\<rparr>"

definition next_doc_raw :: bytes where
  "next_doc_raw = enc (sorted_map_of (doc_fields example_com next_doc))"

lemma next_doc_ok: "doc_ok inst next_doc"
  by (simp add: doc_ok_def next_doc_def next_fingerprint MaxChainEntries_def)

lemma next_doc_packed: "PackDoc inst next_doc = Inr next_doc_raw"
  by (simp add: PackDoc_Inr next_doc_def normalize_example next_doc_raw_def MaxChainEntries_def)

lemma rotation_lengths:
  "length (st_new_pk demo_rotation) = 32" "st_reason demo_rotation = []" "st_version demo_rotation = Version"
  "st_new_alg demo_rotation = Alg" "length (st_old_signature demo_rotation) = 64" "length (st_new_signature demo_rotation) = 64"
  by (simp_all add: demo_rotation_def SignRotation_def example_fingerprint ed_public_length example_signing
      Let_def inst_sign_def PublicKeySize_def)

lemma nat_digits_length: "n < 10 ^ Suc k \<Longrightarrow> length (nat_digits n) \<le> Suc k"
proof (induction k arbitrary: n)
  case (Suc k)
  then have "n div 10 < 10 ^ Suc k" by (simp add: less_mult_imp_div_less)
  from Suc.IH [OF this] show ?case by (subst nat_digits.simps) simp
qed (simp add: nat_digits.simps)

lemma word_digits: "length (nat_digits (unat (w :: 64 word))) \<le> 20"
proof -
  have "unat w < 2 ^ 64" using unsigned_less [of w, where ?'a = nat] by simp
  also have "(2 :: nat) ^ 64 \<le> 10 ^ Suc 19" by simp
  finally show ?thesis using nat_digits_length [of "unat w" 19] by simp
qed

lemma next_doc_short: "next_doc_raw \<noteq> [] \<and> length next_doc_raw < 4000"
proof -
  have "length next_doc_raw < 4000"
    using word_digits [of "unix_of_time issued"] word_digits [of "unix_of_time zero_time"]
    by (simp add: next_doc_raw_def length_enc_map doc_fields_def next_doc_def packStatement_def packed_fields_def
        length_enc_str rotation_lengths next_fp_def demo_fp_def ed_public_length
        DocType_def Version_def Alg_def StatusActive_def RotationType_def PublicKeySize_def)
  moreover have "next_doc_raw \<noteq> []" by (simp add: next_doc_raw_def sorted_map_of_def)
  ultimately show ?thesis by simp
qed

lemma next_doc_parsed: "ParseDoc inst example_com next_doc_raw = Inr next_doc"
proof -
  have "length next_doc_raw \<le> MaxChainBytes"
    using next_doc_short by (simp add: MaxChainBytes_def)
  from ParseDoc_PackDoc [OF next_doc_ok next_doc_packed inst_laws(4,2) this inst_laws(3)] demo_storable
  show ?thesis by (simp add: next_doc_def)
qed

definition next_publication :: publication where
  "next_publication = demo_publication\<lparr>pb_proof := Some next_proof\<rparr>"

definition next_publisher :: publisher where
  "next_publisher = \<lparr>pu_manifest = (\<lambda>d. if d = example_com then Some next_publication else None),
     pu_identity = Some (\<lambda>d. if d = example_com then Some next_doc_raw else None)\<rparr>"

definition next_handler :: handler where
  "next_handler = demo_handler\<lparr>hd_publisher := Some next_publisher\<rparr>"

definition next_net :: "unit network" where
  "next_net = demo_net\<lparr>nw_exchange := (\<lambda>_ _ rq. Inr (response_of (ServeHTTP inst next_handler rq)))\<rparr>"

lemma next_served: "served_by inst (New_resolver demo_options) next_net example_com (HostPrefix @ ''.'' @ example_com) next_handler"
proof -
  have "client_dialer (New_resolver demo_options) next_net example_com = client_dialer (New_resolver demo_options) demo_net example_com"
    by (simp add: client_dialer_def next_net_def)
  then show ?thesis
    using demo_dials by (simp add: served_by_def demo_resolver_sel is_digit_def) (simp add: next_net_def demo_net_def)
qed

lemma next_sel:
  "hd_publisher next_handler = Some next_publisher" "pu_manifest next_publisher example_com = Some next_publication"
  "pu_identity next_publisher = Some (\<lambda>d. if d = example_com then Some next_doc_raw else None)"
  "pb_raw next_publication = demo_raw" "pb_proof next_publication = Some next_proof"
  "pb_expires_at next_publication = issued + 4 * second" "nw_now next_net = issued + second"
  "maxAge next_handler = hour" "cacheSeconds next_handler (issued + 4 * second) = 3 * second"
  using demo_cache by (simp_all add: next_handler_def next_publisher_def next_publication_def next_net_def demo_sel
    maxAge_def MaxCacheAge_def cacheSeconds_def demo_handler_def)

lemma next_publishes: "publishes inst demo_options next_net example_com next_handler next_publication demo_manifest next_proof"
  using demo_host next_served demo_parsed demo_valid demo_consent next_checked next_proof_sized demo_raw_size
  by (auto simp: publishes_def next_sel [simplified] demo_resolver_sel intro!: exI [of _ next_publisher])

lemma next_publishes_identity: "publishes_identity inst demo_options next_net example_com next_handler next_doc_raw next_doc"
proof -
  have "CheckAuthority inst next_doc (HostPrefix @ ''.'' @ example_com) = Inr ()"
    using demo_host by (simp add: CheckAuthority_Inr next_doc_def equal_fold_def HostPrefix_def ascii_str_def is_ascii_char_def)
  moreover have "length next_doc_raw \<le> MaxChainBytes" using next_doc_short by (simp add: MaxChainBytes_def)
  ultimately show ?thesis
    using demo_host next_served next_doc_parsed next_doc_short
    by (auto simp: publishes_identity_def next_sel intro!: exI [of _ next_publisher])
qed

text \<open>A correspondent pinned to the old key.\<close>

definition old_world :: "(memstore, nat) service" where
  "old_world = new_service every_callback (snd (SetIdentity inst example_com
       (zero_identity\<lparr>id_status := IdentityPinned, id_fingerprint := demo_fp, id_pinned_key := ed_public demo_key\<rparr>)
       (NewMemStore (\<lambda>n. issued + second)))) 0 (\<lambda>n. issued + second) 4 second 8 second"

lemma old_world_sel: "sv_net old_world = 0" "sv_clock old_world k = issued + second"
  by (simp_all add: old_world_def new_service_def)

lemma old_world_pinned: "pinned_open example_com demo_fp (ed_public demo_key) (book_at book_of old_world)"
  "no_route example_com (book_at book_of old_world)"
  by (simp_all add: old_world_def new_service_def SetIdentity_def with_domain_def normalize_example NewMemStore_def
      put_peer_def pinned_open_def no_route_def pinned_as_def peer_disabled_def book_at_def book_of_def zero_peer_def)

end
