(* ===== verification/Spec2Isabelle.thy ===== *)
theory Spec2Isabelle
  imports Health Component Flight Contact Interleaving Alerting Succession
begin

text \<open>
  A model of \<^verbatim>\<open>mailkey\<close>, the Go implementation of MKDP1: a mail domain publishes a signed
  manifest with its current encryption key at a well-known HTTPS resource; a sending domain
  discovers it, decides whether to trust it, keeps it, seals mail to it, and never falls back
  to clear text for a domain that has published before.

  The program's parts, and the theories that model them (sources under \<^verbatim>\<open>src/\<close>):

  \<^item> \<^verbatim>\<open>mailkey.go\<close>, \<^verbatim>\<open>errors.go\<close>, \<^verbatim>\<open>domain.go\<close>, \<^verbatim>\<open>issues.go\<close>: the data and the errors everything
    speaks (\<open>Types\<close>, \<open>Errors\<close>, \<open>Domain\<close>, \<open>Issues\<close>).
  \<^item> \<^verbatim>\<open>manifest/\<close>: the manifest, its canonical bytes, identifiers and validity (\<open>Manifest\<close>).
  \<^item> \<^verbatim>\<open>discovery/\<close>: the advertisement in a mail header or a TXT record (\<open>Discovery\<close>).
  \<^item> \<^verbatim>\<open>identity/\<close>: fingerprints, proofs (\<open>Identity\<close>), rotation and revocation statements and the
    walk along a chain of them (\<open>Rotation\<close>), the published identity document (\<open>Resource\<close>).
  \<^item> \<^verbatim>\<open>peer/\<close>: the trust matrix (\<open>Peer_Identity\<close>), the peer's state machine (\<open>Peer_State\<close>), its
    health (\<open>Health\<close>), admission of observations (\<open>Admission\<close>), the store interface (\<open>Store\<close>) and
    its reference implementation (\<open>MemStore\<close>), the service (\<open>Service\<close>), its observations, queue
    and workers (\<open>Observing\<close>, \<open>Lifecycle\<close>), one goroutine among others over one store (\<open>Threads\<close>),
    any number of them under a scheduler (\<open>Interleaving\<close>), the operator's alerts (\<open>Alerting\<close>), and from
    the publisher to the stored pin a first contact (\<open>Contact\<close>) and a key rotation (\<open>Succession\<close>).
  \<^item> \<^verbatim>\<open>resolver/\<close>: the address policy and the dialer (\<open>Dial\<close>), one fetch with all its checks
    (\<open>Resolver\<close>, over \<open>Http\<close>), the coalescing of concurrent calls and the slots that manifest and
    identity fetches share (\<open>Flight\<close>).
  \<^item> \<^verbatim>\<open>wellknown/\<close>: the handler that publishes (\<open>Wellknown\<close>).
  \<^item> \<^verbatim>\<open>envelope/\<close> and \<^verbatim>\<open>message/\<close>: sealing, the wire form (\<open>Envelope\<close>), mail headers (\<open>Header\<close>), sealed
    messages (\<open>Message\<close>).
  \<^item> \<^verbatim>\<open>component/\<close>: the settings and the two beans (\<open>Component\<close>).

  How they interact: mail that arrives is observed (\<open>ObserveHeader\<close>, \<open>ObserveDNS\<close>), which may write
  an observation and queue the domain; a worker, an administrator or the outbound path resolves
  it (\<open>resolve\<close>): the route is chosen, the authority is asked, the answer is checked by the
  resolver and judged by the matrix, latch, identity and manifest are stored in this order.  The
  outbound path (\<open>ResolveForEncryption\<close>) answers with a manifest to seal to or with an error, and
  the policy decides whether that error holds the mail.

  How the code is represented.  A struct is a \<^theory_text>\<open>record\<close>, an enumeration a \<^theory_text>\<open>datatype\<close>, an error a
  value of \<open>gerr\<close> (its class, its sentinel and what it wraps; formatted prose is kept as its
  format), a fallible function a sum with the error on the left.  Strings and byte slices are
  character lists.  A time is the number of nanoseconds since Go's zero time, and a duration an
  integer; where the code computes with 64-bit durations or lengths the wrap-around is written
  out (\<open>seconds_duration\<close>, \<open>cacheUntil\<close>), and word arithmetic is used for the wire's integers and for
  addresses.  A method that changes state is a program of the state monad of
  \<^verbatim>\<open>HOL-Library.State_Monad\<close> over the record of its receiver; \<open>service\<close> holds the store, the
  network, the clock, which of the optional callbacks are set and the log of the calls to those, the
  admission filter and the queue.  Goroutines are
  step relations (\<open>async_step\<close>, \<open>life_step\<close>, \<open>flight_step\<close>) or, in \<open>Threads\<close>, a program whose every
  store call is preceded by what the others did; in \<open>Interleaving\<close> the others are programs too, and a
  list of turns says whose store call is next.  Goroutines share the store; the queue, the admission
  filter and the clock of that model are each goroutine's own.  Every definition computes.

  What is outside.  The packages the sources import are fields of the record \<open>externs\<close>: IDNA,
  lower-casing and folding beyond ASCII, the value codec, SHA-256, Ed25519, X25519, HKDF, AES-GCM.  What a
  property needs of them is a named hypothesis: \<open>idna_ldh\<close> (an IDNA result is letters, digits,
  hyphens and dots), \<open>codec_law\<close> (unpacking gives back what was packed), \<open>sha256_len\<close>, \<open>absent_law\<close>
  (what an absent map key reads as), \<open>ed_law\<close>, \<open>dh_law\<close>, \<open>aead_law\<close>, \<open>hkdf_law\<close>, \<open>headers_pack\<close>, \<open>lower_law\<close>.
  \<open>Instance\<close> gives one concrete \<open>externs\<close> with all of them, on which the examples of \<open>Examples\<close>,
  \<open>Publication\<close> and \<open>Message_Examples\<close> are computed.  The network is a function from a turn to
  what name lookup, connecting and one TLS round trip answer; the random bytes and the readings
  of the clock are arguments.

  Interfaces are locales, each interpreted on the model's own definitions:

  \<^item> \<open>store_contract\<close> (\<open>Store\<close>): every operation of a store fails and leaves the book of peers and
    latches alone, or makes the transition of \<open>Peer_State\<close> it stands for.  \<open>mem\<close> is the memory store.
  \<^item> \<open>guarded_store\<close> (\<open>Service\<close>): what the policy needs of a store, a sublocale of the contract; and
    \<open>shared\<close> (\<open>Threads\<close>), the same for a store others use too.
  \<^item> \<open>lineage_store\<close> and \<open>reliable_store\<close> (\<open>Threads\<close>): what keeps a pin's lineage; \<open>reliable\<close> and \<open>family\<close>
    are the memory store, alone and shared.
  \<^item> \<open>resolver_contract\<close> and \<open>protected_service\<close> (\<open>Outbound\<close>): what the service needs of a resolver, and
    both together; \<open>client\<close> and \<open>live\<close> are the repository's own, \<open>bean\<close> and \<open>wired\<close> those of the beans.

  The groups of lemmas.  \<open>Stateful\<close>: triples, what programs keep and what they may return.  In
  \<open>Service\<close>: the transitions the service asks for (\<open>soft_step\<close>, \<open>book_step\<close>), what every program
  keeps (\<open>soft_keeps\<close>, \<open>hard_keeps\<close>), that a protected domain is held (\<open>no_downgrade\<close>), that a pin only
  moves along signed statements (\<open>pinned_outbound\<close>).  In \<open>Outbound\<close>: that what is in force reads back,
  what is handed out is a faithful answer, and no failure is \<^verbatim>\<open>ErrNoKey\<close>.  In \<open>Interleaving\<close>: that a
  program decides its calls on what it has seen (\<open>causal\<close>) and makes a bounded number of them (\<open>makes\<close>),
  so that an interleaving is a run of each of its goroutines (\<open>own_calls\<close>, \<open>turns_suffice\<close>), and that what
  every request keeps among others every interleaving keeps (\<open>interleaved_holds\<close>).  In \<open>Sealing\<close>: that a faithful
  answer can be sealed to and opened.  In \<open>Resolver\<close>, \<open>Wellknown\<close> and \<open>Publication\<close>: what a fetch
  believed, what a handler serves, and that the one reads the other.  In \<open>Manifest\<close>, \<open>Discovery\<close>, \<open>Resource\<close>,
  \<open>Envelope\<close>, \<open>Header\<close> and \<open>Message\<close>: round trips, canonical forms and strict parsing.  In
  \<open>Observing\<close>, \<open>Flight\<close> and \<open>Lifecycle\<close>: invariants over all runs, progress, and measures that bound them.

  Bounds and recursion.  There is no fuel: loops are structural recursion over their input, the
  chain walk recurses on the statements not yet used (at most \<open>MaxChainEntries\<close>), header loops on the
  bytes that are left; the step relations come with measures (\<open>work_left\<close>, \<open>life_left\<close>, and the one of
  \<open>Flight\<close>) that bound every run of internal steps, and a request of the service makes at most fourteen
  store calls whatever others do.

  Not modelled, and why.  The container that injects the beans, and log lines: no state of the
  program.  Context cancellation and timeouts: a network that fails stands for them.  The text of
  error messages (\<^verbatim>\<open>Error()\<close>, \<^verbatim>\<open>short\<close>): only classes, sentinels and wrapping decide anything; the
  identity fetch and the manifest fetch word a body that is too long differently.  Tokens of the
  admission bucket are rationals where the code has \<^verbatim>\<open>float64\<close>.  The cache lifetime computes with
  whole seconds, which differs from the code's float seconds only for ages beyond some ninety
  days with a fraction.  AES-GCM panics on a nonce of the wrong length; the model's cipher is total and the
  length is checked before.  The process clock (\<^verbatim>\<open>time.Now\<close>) and system name lookup are inputs.
  \<^verbatim>\<open>exactKeys\<close> of \<^verbatim>\<open>identity/resource.go\<close> is called by nothing.  The interface for private keys has no
  implementation in the repository.  The scheduler is not assumed fair: what ends is
  stated per turn a goroutine is given.
\<close>

section \<open>Resolution and the outbound path\<close>

text \<open>
  C1 (safety).  A domain that once published a validated manifest and that nobody disabled is
  never answered with an error that lets mail go in the clear: resolution for encryption
  yields a manifest, or an error that matches \<^verbatim>\<open>ErrEncryptionRequired\<close>, whatever a store within
  its contract answers, and whatever a resolver answers that does not itself report \<^verbatim>\<open>ErrDisabled\<close>
  (the resolver bean does when it is switched off); and the domain is still protected afterwards.
\<close>

theorem protected_mail_is_held:
  assumes "store_contract E S view" and "resolver_calm R"
    and "canonical_domain E d" and "NormalizeDomain E domain = Inr d"
    and "guarded d (book_at view w)" and "run_state (resolveEncrypting E S R domain acc) w = (r, w')"
  shows "(case r of Inr res \<Rightarrow> True | Inl e \<Rightarrow> is_required e) \<and> guarded d (book_at view w')"
  using tripleD [OF store_contract.no_downgrade [OF assms(1,3,4,2)] assms(5,6)] by (auto split: sum.splits)

lemma protected_mail_is_held_witness:
  "guarded example_com (book_at book_of demo_world)
   \<and> (case run_state (resolveEncrypting inst demo_store demo_resolver example_com False) demo_world of (r, w') \<Rightarrow>
        (case r of Inr res \<Rightarrow> True | Inl e \<Rightarrow> is_required e) \<and> guarded example_com (book_at book_of w'))"
  using protected_mail_is_held [OF demo_contract demo_resolver_calm demo_canonical normalize_example demo_guarded]
    demo_guarded by (auto split: prod.splits)

text \<open>
  C2 (safety).  For a pinned domain over a store whose reads do not fail, resolution for
  encryption hands out only the manifest that was already cached or one carrying a valid
  proof by an identity reached from the pin through statements each preceding key signed,
  and the record it leaves is pinned to such an identity.
\<close>

theorem pinned_domain_stays_with_its_lineage:
  assumes "store_contract E S view" and "reads_ok E S"
    and "canonical_domain E d" and "NormalizeDomain E domain = Inr d"
    and "pinned_as (book_at view w) d fp key" and "effective_of (book_at view w) d = eff"
    and "run_state (ResolveForEncryption E S R domain) w = (r, w')"
  shows "trusted E d eff (fp, key) (book_at view w') \<and> answer_ok E d eff (fp, key) r"
  using tripleD [OF store_contract.pinned_outbound [OF assms(1,3,2,4)] _ assms(7)] assms(5,6) by blast

lemma pinned_domain_stays_with_its_lineage_witness:
  "case run_state (ResolveForEncryption inst demo_store demo_resolver example_com) demo_world of (r, w') \<Rightarrow>
     trusted inst example_com None (zero32, zero32) (book_at book_of w')
     \<and> answer_ok inst example_com None (zero32, zero32) r"
  using pinned_domain_stays_with_its_lineage [OF demo_contract mem_reads_ok demo_canonical normalize_example
      demo_pinned demo_effective] by (auto split: prod.splits)

text \<open>
  C3 (safety).  A validated fetch is latched before it is used: once a resolver answered, the
  domain's capability records that it published, or the operation reports an error that
  holds the mail.
\<close>

theorem validated_answer_is_latched:
  assumes "store_contract E S view" and "canonical_domain E d"
    and "run_state (settle E S R d authority acc res) w = (r, w')"
  shows "cp_ever_validated (bk_caps (book_at view w') d)
     \<or> (case r of Inr _ \<Rightarrow> False | Inl e \<Rightarrow> is_required e)"
  using tripleD [OF store_contract.settle_latches [OF assms(1,2)] TrueI assms(3)] by (auto split: sum.splits)

lemma validated_answer_is_latched_witness:
  "\<exists>r w'. run_state (settle inst demo_store demo_resolver example_com [] False demo_result) demo_world = (r, w')
     \<and> (cp_ever_validated (bk_caps (book_at book_of w') example_com)
        \<or> (case r of Inr _ \<Rightarrow> False | Inl e \<Rightarrow> is_required e))"
  using validated_answer_is_latched [OF demo_contract demo_canonical] by (metis surj_pair)

text \<open>
  C4 (functional).  A refused identity alerts once: over a store that records conditions, refusing a
  fetch reports the condition to the operator exactly when \<^verbatim>\<open>OnAlert\<close> is set, the condition is one
  worth waking someone for and it is not on record for the domain yet; and when it was on record, or
  the history had room for it (fewer than eight conditions), it is on record afterwards, so that the
  next refusal for it is silent.
\<close>

theorem refused_identity_alerts_once:
  assumes "store_contract E S view" and "canonical_domain E d"
    and "\<And>c t s. is_ok (fst (so_record_issue S d c t s))"
    and "run_state (refuse E S d prev res v acc) w = (r, w')"
  shows "alerts w' = alerts w @
       (if cb_alert (sv_callbacks w) \<and> issue_alerts (issueOf (vd_reason v))
           \<and> \<not> on_record (book_at view w) d (issueOf (vd_reason v))
        then [EvAlert d (issueOf (vd_reason v)) (vd_alert v)] else [])
     \<and> (on_record (book_at view w) d (issueOf (vd_reason v)) \<or> has_room (book_at view w) d
          \<longrightarrow> on_record (book_at view w') d (issueOf (vd_reason v)))"
  using tripleD [OF store_contract.refuse_once [OF assms(1-3) refl] _ assms(4)] by auto

lemma refused_identity_alerts_once_witness:
  "\<exists>r w'. run_state (refuse inst demo_store example_com None demo_result other_signer False) demo_world = (r, w')
     \<and> alerts w' = [EvAlert example_com IssueSignerChanged (vd_alert other_signer)]
     \<and> on_record (book_at book_of w') example_com IssueSignerChanged"
proof -
  obtain r w' where run: "run_state (refuse inst demo_store example_com None demo_result other_signer False) demo_world = (r, w')"
    by fastforce
  show ?thesis
    using refused_identity_alerts_once [OF demo_contract demo_canonical mem_records [OF demo_canonical] run] run
    by (simp add: other_signer_code demo_no_issues)
qed

section \<open>First contact\<close>

text \<open>
  C5 (functional).  A first contact establishes trust: over a store whose calls succeed and a
  resolver that answers at the subject's own endpoint with a valid proof and nothing expired,
  outbound resolution of an unknown domain hands out exactly that answer and leaves the domain
  latched, pinned to the fingerprint and the key of the signer, with that manifest in force.
\<close>

theorem first_contact_establishes_trust:
  assumes "store_contract E S view" and "works S view d"
    and "canonical_domain E d" and "NormalizeDomain E domain = Inr d"
    and "fst (rv_resolve R d [] (sv_net w)) = Inr res"
    and "valid_proof res = Some pf" and "fresh zero_identity res" and "mf_domain (rs_manifest res) = d"
    and "bk_peers (book_at view w) d = None" and "run_state (ResolveForEncryption E S R domain) w = (r, w')"
  shows "r = Inr res \<and> pinned_as (book_at view w') d (pf_fingerprint pf) (pf_public_key pf)
     \<and> effective_of (book_at view w') d = Some (installed_record res)
     \<and> cp_ever_validated (bk_caps (book_at view w') d)"
  using tripleD [OF store_contract.first_contact [OF assms(1,3,4,2,5-8)] _ assms(10)] assms(9)
  by (simp add: established_def)

lemma first_contact_establishes_trust_witness:
  "case run_state (ResolveForEncryption inst demo_store good_resolver example_com) fresh_world of
     (r, w') \<Rightarrow> r = Inr demo_result \<and> pinned_as (book_at book_of w') example_com demo_fp (ed_public demo_key)
        \<and> cp_ever_validated (bk_caps (book_at book_of w') example_com)"
  using first_contact_establishes_trust [OF demo_contract mem_works [OF demo_canonical] demo_canonical normalize_example
      good_answer demo_proven fresh_world_empty]
  by (auto simp: demo_proof_def split: prod.splits)

text \<open>
  C6 (roundtrip).  The first mail to a domain that publishes a key is sealed to it: when the handler
  at the host derived from the domain serves a canonical manifest, within the size limit, valid at
  the moment of the fetch and consenting to that host, with a proof that checks, under a cache
  lifetime of at least a second, a correspondent without a record of the domain, over the memory
  store and the authority client, is handed the published bytes, leaves the domain latched and
  pinned to the signer of the proof, and what it seals until the manifest expires, with randomness
  the key agreement accepts, names the domain and opens with the published key's private half.
\<close>

theorem published_key_protects_the_first_mail:
  assumes "canonical_domain E d" and "NormalizeDomain E domain = Inr d" and "d \<noteq> []"
    and "publishes E opts (net (sv_net w)) d t pub m pf"
    and "bk_peers (book_at book_of w) d = None"
    and "run_state (ResolveForEncryption E (mem_store E) (net_resolver E (New_resolver opts) net) domain) w = (r, w')"
    and "dh_law E" and "aead_law E" and "hkdf_law E" and "headers_pack E"
    and "ex_x_public E priv = Some (kd_public_key (mf_key m))" and "length priv = pubKeyLen"
    and "can_agree E rnd (kd_public_key (mf_key m))" and "0 \<le> now" and "now < mf_expires_at m"
  shows "\<exists>res e. r = Inr res \<and> rs_raw res = pb_raw pub
     \<and> pinned_as (book_at book_of w') d (pf_fingerprint pf) (pf_public_key pf)
     \<and> cp_ever_validated (bk_caps (book_at book_of w') d)
     \<and> Seal E now rnd res plain = Inr e \<and> eh_domain (ev_header e) = d \<and> Open E priv (Some e) = Inr plain"
proof -
  have "NormalizeDomain E d = Inr d" using assms(1) by (simp add: canonical_domain_def)
  then obtain res where f: "fst (rv_resolve (net_resolver E (New_resolver opts) net) d [] (sv_net w)) = Inr res"
    and ok: "fresh zero_identity res" "valid_proof res = Some pf" "faithful E d res"
    and res: "rs_manifest res = m" "rs_raw res = pb_raw pub"
    by (rule published_facts [where net = net and n = "sv_net w", OF assms(4)]) (simp add: published_result_def)
  have m: "mf_domain (rs_manifest res) = d" by (rule faithful_packs(2) [OF ok(3) assms(3)])
  have out: "r = Inr res \<and> established d res pf (book_at book_of w')"
    using tripleD [OF mem.first_contact [OF assms(1,2) mem_works [OF assms(1)] f ok(2,1) m] _ assms(6)] assms(5) by simp
  have "ex_x_valid E (kd_public_key (mf_key m))"
    using assms(7,11) unfolding dh_law_def by blast
  then obtain e where e: "Seal E now rnd res plain = Inr e" "eh_domain (ev_header e) = d"
    using Seal_faithful [OF ok(3) assms(3,14) _ assms(7,9,10)] assms(13,15) res(1) by auto
  have "Open E priv (Some e) = Inr plain"
    by (rule Open_Seal [OF assms(7,8) e(1)]) (use assms(11-13) res(1) in \<open>auto simp: can_agree_def\<close>)
  with out e res(2) show ?thesis by (auto simp: established_def)
qed

lemma published_key_protects_the_first_mail_witness:
  "\<exists>r w' res e. run_state (ResolveForEncryption inst demo_store (net_resolver inst (New_resolver demo_options) (\<lambda>n. demo_net)) example_com) young_world = (r, w')
     \<and> r = Inr res \<and> rs_raw res = demo_raw \<and> Seal inst issued demo_entropy res demo_mail = Inr e
     \<and> Open inst demo_private (Some e) = Inr demo_mail"
proof -
  obtain r w' where run: "run_state (ResolveForEncryption inst demo_store
      (net_resolver inst (New_resolver demo_options) (\<lambda>n. demo_net)) example_com) young_world = (r, w')" by fastforce
  have key: "ex_x_public inst demo_private = Some (kd_public_key (mf_key demo_manifest))"
    "can_agree inst demo_entropy (kd_public_key (mf_key demo_manifest))"
    using demo_agrees by (simp_all add: demo_key_sel inst_public_def)
  show ?thesis
    using published_key_protects_the_first_mail [where plain = demo_mail and now = issued
        and net = "\<lambda>n. demo_net" and w = young_world, OF demo_canonical normalize_example _ demo_publishes
        young_world_empty run inst_dh inst_aead inst_hkdf_law inst_headers_pack key(1) _ key(2)] run
    by (auto simp: pubKeyLen_def issued_def demo_sel)
qed

text \<open>
  C7 (functional).  A published rotation is followed: when the handlers at the host derived from a
  domain serve a canonical, valid, consenting manifest signed by a new identity, with a cache
  lifetime of at least a second, and a consenting identity document whose one statement the old key
  and the new one signed and which is in force at every reading of the clock, then a refresh by a
  correspondent that is pinned to the old identity, has not disabled the domain and has no delegated
  route on record for it, over the memory store and the authority client, fetches both, moves the
  pin to the new fingerprint and key, and puts the published manifest in force, with no human.
\<close>

theorem published_rotation_is_followed:
  assumes "canonical_domain E d" and "NormalizeDomain E domain = Inr d" and "d \<noteq> []" and "ed_law E"
    and "publishes E opts (net (sv_net w)) d t pub m pf"
    and "publishes_identity E opts (net (Suc (sv_net w))) d t' raw dc"
    and "SignRotation E x oldPriv newPriv nb ca ea = Inr s" and "dc_chain dc = [s]"
    and "pf_fingerprint pf = st_new_fp s" and "st_new_fp s \<noteq> st_old_fp s"
    and "\<And>k. nb \<le> sv_clock w k" and "\<And>k. ea = zero_time \<or> sv_clock w k < ea"
    and "pinned_open d (st_old_fp s) (ed_public oldPriv) (book_at book_of w)" and "no_route d (book_at book_of w)"
    and "run_state (Refresh E (mem_store E) (net_resolver E (New_resolver opts) net) domain) w = (r, w')"
  shows "\<exists>p rec. r = (Some p, None) \<and> pr_effective p = Some rec \<and> mr_canonical rec = pb_raw pub
     \<and> pinned_as (book_at book_of w') d (st_new_fp s) (ed_public newPriv)
     \<and> effective_of (book_at book_of w') d = Some rec"
proof -
  let ?R = "net_resolver E (New_resolver opts) net"
  have normal: "NormalizeDomain E d = Inr d" using assms(1) by (simp add: canonical_domain_def)
  then obtain res where net: "fst (rv_resolve ?R d [] (sv_net w)) = Inr res"
    and pf: "valid_proof res = Some pf" and f: "faithful E d res" and raw: "rs_raw res = pb_raw pub"
    by (rule published_facts [where net = net and n = "sv_net w", OF assms(5)]) (simp add: published_result_def)
  let ?walked = "\<lparr>cr_fingerprint = st_new_fp s, cr_public_key = ed_public newPriv, cr_applied = 1, cr_revoked = False, cr_reason = []\<rparr>"
  have walk: "WalkChain E (st_old_fp s) (ed_public oldPriv) (dc_chain dc) (sv_clock w k) = (?walked, None)" for k
    unfolding assms(8) by (rule WalkChain_single [OF assms(4,7,11,12)])
  have "rv_resolve ?R d [] (sv_net w) = (Inr res, Suc (sv_net w))"
    using net by (simp add: net_resolver_def)
  moreover have "ParseDoc E d raw = Inr dc" using assms(6) by (simp add: publishes_identity_def)
  moreover have "ed_public oldPriv \<noteq> []"
    using assms(7) by (auto simp: SignRotation_def ed_public_def PrivateKeySize_def split: if_splits)
  ultimately have "leads_to E ?R d (sv_clock w) (sv_net w) res pf (st_old_fp s) (ed_public oldPriv) ?walked"
    using pf walk assms(9,10) faithful_packs(2) [OF f assms(3)] published_identity_fetched [OF assms(6) normal]
    by (auto simp: leads_to_def net_resolver_def)
  from tripleD [OF mem.refresh_follows [OF assms(1,2) mem_works [OF assms(1)] this] _ assms(15)] assms(13,14)
  show ?thesis
    using raw assms(9) by (auto simp: at_turn_def succeeded_def installed_record_def)
qed

lemma published_rotation_is_followed_witness:
  "\<exists>p w'. run_state (Refresh inst demo_store (net_resolver inst (New_resolver demo_options) (\<lambda>n. next_net)) example_com) old_world
       = ((Some p, None), w')
     \<and> pinned_as (book_at book_of w') example_com next_fp (ed_public next_key)"
proof -
  obtain r w' where run: "run_state (Refresh inst demo_store
      (net_resolver inst (New_resolver demo_options) (\<lambda>n. next_net)) example_com) old_world = (r, w')" by fastforce
  have s: "dc_chain next_doc = [demo_rotation]" "pf_fingerprint next_proof = st_new_fp demo_rotation"
    "st_new_fp demo_rotation \<noteq> st_old_fp demo_rotation"
    using next_fp_differs by (simp_all add: next_doc_def next_proof_def next_fp_def)
  have "issued \<le> sv_clock old_world k" for k by (simp add: old_world_sel)
  from published_rotation_is_followed [where net = "\<lambda>n. next_net" and w = old_world, OF demo_canonical normalize_example _ inst_laws(5)
      next_publishes next_publishes_identity demo_rotated s this disjI1 [OF refl] _ old_world_pinned(2) run] old_world_pinned(1) run
  show ?thesis by (auto simp: next_fp_def)
qed

section \<open>Resolution among other goroutines\<close>

text \<open>
  C8 (safety).  The protection of a latched domain holds in every interleaving: whatever goroutines
  send, refresh, add, forget, observe and work the queue over one store, and in whatever order the
  scheduler gives them their store calls, over a resolver that does not itself report \<^verbatim>\<open>ErrDisabled\<close>
  (the resolver bean does when it is switched off), a domain that is latched and not disabled stays
  protected, and a sender is handed a manifest or an error that matches \<^verbatim>\<open>ErrEncryptionRequired\<close>.
\<close>

theorem protection_holds_in_every_interleaving:
  assumes "store_contract E S view" and "idna_ldh E" and "resolver_calm R"
    and "canonical_domain E d" and "NormalizeDomain E domain = Inr d"
    and "guarded d (view s)" and "\<And>i. queue_ok E (snd (gs i))" and "fst (gs i) = ForEncryption domain"
    and "h = interleaved E S R gs s sched"
  shows "guarded d (view (state_after s h))
     \<and> (case fst (replay E S R gs s h i) of Handed (Inl e) \<Rightarrow> is_required e | Handed (Inr res) \<Rightarrow> True | _ \<Rightarrow> False)"
  using store_contract.interleaved_guarded [where gs = gs and i = i, OF assms(1-8), of sched] unfolding assms(9)
  by (auto split: sum.splits)

lemma protection_holds_in_every_interleaving_witness:
  "guarded example_com (book_of (state_after demo_mem
     (interleaved inst demo_store demo_resolver demo_goroutines demo_mem demo_schedule)))"
  using protection_holds_in_every_interleaving [where gs = demo_goroutines and i = 0, OF demo_contract inst_laws(1)
      demo_resolver_calm demo_canonical normalize_example _ demo_queues demo_sender refl] demo_guarded
  by (simp add: demo_book)

text \<open>
  C9 (safety).  The lineage of a pin holds in every interleaving, over a store whose reads do not
  fail: whatever goroutines share it and however their store calls fall between each other's, though each decides on its own reading
  of the record, as long as nobody forgets the domain the stored pin is an identity reached from the
  first by statements each preceding key signed, and a sender is handed a cached record of the
  lineage or a manifest signed by such an identity.
\<close>

theorem lineage_holds_in_every_interleaving:
  assumes "store_contract E S view" and "reads_ok E S" and "idna_ldh E"
    and "canonical_domain E d" and "NormalizeDomain E domain = Inr d"
    and "pinned_as (view s) d fp key" and "effective_of (view s) d = eff"
    and "\<And>i. queue_ok E (snd (gs i))" and "\<And>i. \<not> forgets E (fst (gs i)) d" and "fst (gs i) = ForEncryption domain"
    and "h = interleaved E S R gs s sched"
  shows "lineage_book E d eff (fp, key) (view (state_after s h))
     \<and> (case fst (replay E S R gs s h i) of Handed r \<Rightarrow> lineage_answer E d eff (fp, key) r | _ \<Rightarrow> False)"
proof -
  have "reliable_store E S view"
    using assms(1,2) by (simp add: reliable_store_def reliable_store_axioms_def)
  from reliable_store.interleaved_lineage [where gs = gs and i = i,
      OF this assms(3-5) lineage_pinned [OF assms(6,7)] assms(8-10), of R sched]
  show ?thesis unfolding assms(11) by auto
qed

lemma lineage_holds_in_every_interleaving_witness:
  "lineage_book inst example_com None (zero32, zero32) (book_of (state_after demo_mem
     (interleaved inst demo_store demo_resolver demo_goroutines demo_mem demo_schedule)))"
  using lineage_holds_in_every_interleaving [where gs = demo_goroutines and i = 0, OF demo_contract mem_reads_ok
      inst_laws(1) demo_canonical normalize_example _ _ demo_queues demo_spares demo_sender refl] demo_pinned demo_effective
  by (simp add: demo_book)

text \<open>
  C10 (liveness).  Every request ends among others, within a bound that does not depend on them: once
  a goroutine has had fourteen turns, whatever the others did between them, the calls it made are
  those of a run of its program to the end over the store as it found it at each call, and the
  store is what that run left with what the others did after it.
\<close>

theorem requests_end_among_others:
  assumes "14 \<le> count_list sched i" and "h = interleaved E S R gs s sched"
    and "replay E S R gs s h i = (r, w)"
  shows "own i h = cw_calls (sv_store w) \<and> length (own i h) \<le> 14
     \<and> state_after s h = others_of i h (length (own i h)) (cw_store (sv_store w))"
proof -
  have "ended h i (r, w)" using turns_suffice [OF assms(1), of E S R gs s] assms(2,3) by simp
  moreover have "own i h = take (length (own i h)) (cw_calls (sv_store w))"
    using own_calls [of i E S R gs s sched] assms(2,3) by simp
  ultimately have all: "own i h = cw_calls (sv_store w)" by (simp add: ended_def)
  have "cw_store (sv_store w) = weave (others_of i h) (own i h) s"
    using replay_calls [of E S R gs s h i] assms(3) by (simp add: after_calls_def all)
  then show ?thesis
    using all own_bound [of i E S R gs s sched] state_after_split [of s h i] assms(2) by simp
qed

lemma requests_end_among_others_witness:
  "length (own 0 (interleaved inst demo_store demo_resolver demo_goroutines demo_mem demo_schedule)) \<le> 14"
  using requests_end_among_others [OF demo_turns refl, of inst demo_store demo_resolver demo_goroutines demo_mem]
  by (metis prod.exhaust)

section \<open>From the outbound path to the envelope\<close>

text \<open>
  C11 (roundtrip).  The outbound path and the envelope fit: whatever manifest a protected service
  hands out - cached, fetched, or accepted unpinned by the sender - sealing to it succeeds until
  the manifest expires, the header names the domain that was asked for, and the owner of the
  manifest's key opens exactly what was sealed.
\<close>

theorem answered_manifest_seals_and_opens:
  assumes "protected_service E S view R" and "canonical_domain E d" and "NormalizeDomain E domain = Inr d"
    and "d \<noteq> []" and "readable E (book_at view w)"
    and "run_state (resolveEncrypting E S R domain acc) w = (Inr res, w')"
    and "0 \<le> now" and "now < mf_expires_at (rs_manifest res)"
    and "dh_law E" and "aead_law E" and "hkdf_law E" and "headers_pack E"
    and "ex_x_public E priv = Some (kd_public_key (mf_key (rs_manifest res)))" and "length priv = pubKeyLen"
    and "can_agree E rnd (kd_public_key (mf_key (rs_manifest res)))"
  shows "\<exists>e. Seal E now rnd res plain = Inr e \<and> eh_domain (ev_header e) = d \<and> Open E priv (Some e) = Inr plain"
  by (rule protected_service.answer_opens [OF assms])

lemma answered_manifest_seals_and_opens_witness:
  "\<exists>res w' e. run_state (resolveEncrypting inst demo_store demo_resolver example_com False) down_world = (Inr res, w')
     \<and> Seal inst issued demo_entropy res demo_mail = Inr e \<and> Open inst demo_private (Some e) = Inr demo_mail"
proof -
  obtain res w' where run: "run_state (resolveEncrypting inst demo_store demo_resolver example_com False) down_world = (Inr res, w')"
    and m: "rs_manifest res = demo_manifest"
    using down_answers by blast
  have rd: "readable inst (book_at book_of down_world)" using installed_readable by (simp add: down_book)
  have t: "0 \<le> issued" "issued < mf_expires_at (rs_manifest res)" by (simp_all add: m issued_def)
  have key: "ex_x_public inst demo_private = Some (kd_public_key (mf_key (rs_manifest res)))"
    "can_agree inst demo_entropy (kd_public_key (mf_key (rs_manifest res)))"
    using demo_agrees by (simp_all add: m demo_key_sel inst_public_def)
  show ?thesis
    using answered_manifest_seals_and_opens [OF down_service demo_canonical normalize_example _ rd run t
        inst_dh inst_aead inst_hkdf_law inst_headers_pack key(1) _ key(2)] run
    by (auto simp: pubKeyLen_def)
qed

section \<open>Envelopes and messages\<close>

text \<open>
  C12 (safety).  A sealing tells the truth: the header it authenticates names the domain, the key
  and the identifier of a manifest that packs, is not expired, has this identifier and whose key
  identifier is the one of the very key the message is encrypted to.
\<close>

theorem sealed_header_is_truthful:
  assumes "Seal E now rnd r plain = Inr e"
  shows "\<exists>packed. Pack E (rs_manifest r) = Inr packed \<and> eh_manifest_id (ev_header e) = ManifestIDOf E packed
     \<and> (rs_raw r = [] \<or> rs_raw r = packed) \<and> now < mf_expires_at (rs_manifest r)
     \<and> eh_domain (ev_header e) = mf_domain (rs_manifest r) \<and> canonical_domain E (eh_domain (ev_header e))
     \<and> KeyIDOf E (eh_domain (ev_header e)) (eh_algorithm (ev_header e)) (eh_encryption (ev_header e))
         (kd_public_key (mf_key (rs_manifest r))) = Inr (eh_kid (ev_header e))"
proof -
  from Seal_Inr [OF assms] obtain packed where p: "Pack E (rs_manifest r) = Inr packed"
    and "rs_manifest_id r = ManifestIDOf E packed" "rs_raw r = [] \<or> rs_raw r = packed"
    "now < mf_expires_at (rs_manifest r)" "eh_manifest_id (ev_header e) = rs_manifest_id r"
    "eh_domain (ev_header e) = mf_domain (rs_manifest r)" "eh_kid (ev_header e) = kd_kid (mf_key (rs_manifest r))"
    "eh_algorithm (ev_header e) = kd_algorithm (mf_key (rs_manifest r))"
    "eh_encryption (ev_header e) = kd_encryption (mf_key (rs_manifest r))"
    by (metis env_header.select_convs)
  with p show ?thesis by (auto simp: Pack_Inr)
qed

lemma sealed_header_is_truthful_witness:
  "\<exists>packed. Pack inst demo_manifest = Inr packed \<and> eh_manifest_id (ev_header demo_envelope) = ManifestIDOf inst packed
     \<and> eh_domain (ev_header demo_envelope) = mf_domain demo_manifest"
  using sealed_header_is_truthful [OF demo_sealed] by (auto simp: demo_result_def)

text \<open>
  C13 (safety).  An edited header is a forgery of the cipher: when an envelope opens, a different
  header over its nonce and ciphertext is refused for every private key, or opening it has
  exhibited associated data, other than the envelope's own, under which the cipher accepts that very
  ciphertext, each with the key its header and private key derive; and for the same private key and
  an unchanged ephemeral key both openings use one cipher key.
\<close>

theorem edited_header_is_a_forgery:
  assumes "Open E priv (Some e) = Inr plain" and "h' \<noteq> ev_header e"
    and "codec_law E (sorted_map_of (header_fields (ev_header e)))" and "codec_law E (sorted_map_of (header_fields h'))"
  shows "(\<exists>err. Open E priv' (Some (e\<lparr>ev_header := h'\<rparr>)) = Inl err)
     \<or> (\<exists>key aad key' aad'. opens_with E priv (ev_header e) key aad \<and> opens_with E priv' h' key' aad'
          \<and> forged E (ev_nonce e) (ev_ciphertext e) key aad key' aad'
          \<and> (priv' = priv \<and> eh_ephemeral h' = eh_ephemeral (ev_header e) \<longrightarrow> key' = key))"
proof (cases "Open E priv' (Some (e\<lparr>ev_header := h'\<rparr>))")
  case (Inr plain')
  from edited_header_forges [OF assms(1) this assms(2-4)] show ?thesis
    using opens_with_key by blast
qed blast

lemma edited_header_is_a_forgery_witness:
  "\<exists>err. Open inst demo_private (Some (demo_envelope\<lparr>ev_header := (ev_header demo_envelope)\<lparr>eh_manifest_id := zero32\<rparr>\<rparr>)) = Inl err"
  using edited_header_is_a_forgery [OF demo_opens demo_other_header inst_laws(2) inst_laws(2)] inst_unforged
  by blast

text \<open>
  C14 (roundtrip).  An envelope has one form on the wire: bytes parse to an envelope exactly when they
  are the bytes it marshals to, not empty and within \<^verbatim>\<open>MaxWireBytes\<close>, and its two identifiers have 32
  bytes, so that no two byte strings are the same envelope and every envelope within the limit parses
  back; and its base64 text then parses back as well.
\<close>

theorem envelope_has_one_encoding:
  assumes "codec_law E (envelope_value e)"
  shows "(Unmarshal E raw = Inr e \<longleftrightarrow> Marshal E e = Inr raw \<and> raw \<noteq> [] \<and> length raw \<le> MaxWireBytes
         \<and> length (eh_kid (ev_header e)) = 32 \<and> length (eh_manifest_id (ev_header e)) = 32)
     \<and> (Unmarshal E raw = Inr e \<longrightarrow> (\<exists>s. MarshalBase64 E e = Inr s \<and> UnmarshalBase64 E s = Inr e))"
proof (intro conjI iffI impI)
  assume u: "Unmarshal E raw = Inr e"
  then show "Marshal E e = Inr raw" "raw \<noteq> []" "length raw \<le> MaxWireBytes"
    "length (eh_kid (ev_header e)) = 32" "length (eh_manifest_id (ev_header e)) = 32"
    using Unmarshal_facts [OF u] by blast+
  with u show "\<exists>s. MarshalBase64 E e = Inr s \<and> UnmarshalBase64 E s = Inr e"
    by (simp add: MarshalBase64_def UnmarshalBase64_def)
qed (use Unmarshal_Marshal [OF _ assms] in blast)

lemma envelope_has_one_encoding_witness:
  "\<exists>raw s. Unmarshal inst raw = Inr demo_envelope \<and> UnmarshalBase64 inst s = Inr demo_envelope"
proof -
  obtain raw where "Marshal inst demo_envelope = Inr raw" "raw \<noteq> []" "length raw \<le> MaxWireBytes"
    using demo_marshal by blast
  then show ?thesis
    using envelope_has_one_encoding [OF inst_laws(2) [of "envelope_value demo_envelope"], of raw] demo_envelope_sel(4,5) by blast
qed

text \<open>
  C15 (roundtrip).  A message sealed to a fetched manifest and opened with the private half of its
  key is the message that was sealed, every header and the body, as long as its envelope marshals to
  at most \<^verbatim>\<open>MaxWireBytes\<close> (and not to nothing): it is recognised by its marks,
  its envelope is found in the body behind whatever routing fields were copied, and it decrypts.
\<close>

theorem sealed_message_opens:
  assumes "lower_law E" and "dh_law E" and "aead_law E" and "sha256_len E" and "\<And>e. codec_law E (envelope_value e)"
    and "Seal_message E now rnd r raw = Inr sealed"
    and "ex_x_public E priv = Some (kd_public_key (mf_key (rs_manifest r)))" and "length priv = pubKeyLen"
    and "\<And>n. en_nonce rnd = Some n \<Longrightarrow> length n = nonceLen"
    and "\<And>e b. Seal E now rnd r raw = Inr e \<Longrightarrow> Marshal E e = Inr b \<Longrightarrow> b \<noteq> [] \<and> length b \<le> MaxWireBytes"
  shows "IsEncrypted E sealed \<and> IsSealed E sealed \<and> Open_message E priv sealed = Inr raw"
proof -
  have "Open_message E priv sealed = Inr raw"
    by (rule Open_message_Seal [OF assms(1-4,6-9) assms(5) assms(10)])
  moreover from this have "is_ok (EnvelopeOf E sealed)"
    by (cases "EnvelopeOf E sealed") (simp_all add: Open_message_def)
  then have "IsSealed E sealed" by (auto simp: IsSealed_def is_ok_iff)
  moreover from this have "IsEncrypted E sealed" by (simp add: IsSealed_def EnvelopeOf_def split: if_splits)
  ultimately show ?thesis by simp
qed

lemma sealed_message_opens_witness:
  "\<exists>sealed. Seal_message inst issued demo_entropy demo_result demo_mail = Inr sealed
     \<and> Open_message inst demo_private sealed = Inr demo_mail"
proof -
  obtain sealed where s: "Seal_message inst issued demo_entropy demo_result demo_mail = Inr sealed"
    using demo_message by blast
  have size: "b \<noteq> [] \<and> length b \<le> MaxWireBytes"
    if "Seal inst issued demo_entropy demo_result demo_mail = Inr e" "Marshal inst e = Inr b" for e b
    using that demo_sealed demo_marshal by auto
  have pub: "ex_x_public inst demo_private = Some (kd_public_key (mf_key (rs_manifest demo_result)))"
    by (simp add: demo_result_def demo_key_sel inst_public_def)
  show ?thesis
    using sealed_message_opens [OF inst_lower inst_dh inst_aead inst_laws(3) inst_laws(2) s pub _ _ size] s
    by (auto simp: demo_entropy_def pubKeyLen_def nonceLen_def)
qed

text \<open>
  C16 (functional).  The submission boundary: stripping leaves no reserved field that a reader
  would see, in any spelling, position or number, does not touch the body, and changes nothing
  when it is done again.
\<close>

theorem reserved_fields_are_stripped:
  assumes "lower_law E"
  shows "\<not> HasReserved E (StripReserved E raw) \<and> \<not> IsEncrypted E (StripReserved E raw)
     \<and> snd (SplitHeaderBody (StripReserved E raw)) = snd (SplitHeaderBody raw)
     \<and> StripReserved E (StripReserved E raw) = StripReserved E raw"
proof -
  note clean = StripReserved_clean [OF assms, of raw]
  moreover from this have "\<not> IsEncrypted E (StripReserved E raw)"
    by (auto simp: HasReserved_def IsEncrypted_def ReservedHeaders_def Version_def)
  ultimately show ?thesis using StripReserved_body StripReserved_idem [OF assms] by blast
qed

lemma reserved_fields_are_stripped_witness:
  "\<not> HasReserved inst (StripReserved inst (''mail-key: x'' @ CRLF @ demo_mail))"
  using reserved_fields_are_stripped [OF inst_lower] by blast

text \<open>
  C17 (functional).  An advertisement stamped on an outbound message is what the correspondent
  parses: whatever fields the message already carried, unless its very first line is a continuation
  line, the field reads back as it was formatted, and, when it is short enough to be accepted,
  parses to exactly the domain, the authority and the identifier it was made from, and to nothing else.
\<close>

theorem stamped_advertisement_is_read:
  assumes "idna_ldh E" and "lower_law E" and "length i = 32" and "Advertise E raw domain i authority = Inr out"
    and "\<not> isContinuation raw"
  shows "FormatHeader E domain i authority = Inr (AdvertisedValue E out)
     \<and> (length (AdvertisedValue E out) \<le> MaxHeaderLen \<longrightarrow>
         (\<exists>d a. NormalizeDomain E domain = Inr d
            \<and> (authority = [] \<and> a = [] \<or> authority \<noteq> [] \<and> NormalizeDomain E authority = Inr a)
            \<and> ParseHeader E (AdvertisedValue E out) = Inr
                \<lparr>ad_version = Version, ad_domain = d, ad_authority = collapse d a,
                 ad_manifest_id = i, ad_has_id = True, ad_fingerprint = zero32, ad_has_fp = False,
                 ad_mode = Mode\<rparr>))"
proof -
  obtain s where s: "FormatHeader E domain i authority = Inr s" and v: "AdvertisedValue E out = s"
    by (rule AdvertisedValue_Advertise [OF assms(1,2,4,5)])
  show ?thesis unfolding v using s ParseHeader_FormatHeader [OF assms(1,3) s] by metis
qed

lemma stamped_advertisement_is_read_witness:
  "\<exists>out. Advertise inst demo_mail example_com zero32 [] = Inr out
     \<and> FormatHeader inst example_com zero32 [] = Inr (AdvertisedValue inst out)"
proof -
  obtain out where out: "Advertise inst demo_mail example_com zero32 [] = Inr out"
    by (simp add: Advertise_def FormatHeader_def normalize_example Let_def)
  have "\<not> isContinuation demo_mail" by (simp add: isContinuation_def demo_mail_def)
  from stamped_advertisement_is_read [OF inst_laws(1) inst_lower _ out this] out show ?thesis
    by auto
qed

section \<open>Identity, proofs and manifests\<close>

text \<open>
  C18 (functional).  The trust matrix accepts a fetched manifest exactly when it is fresh (not
  past its cache expiry, not older than the last one accepted, not another manifest with the
  same issue time) and, for a pinned domain, its proof verified and was made by the pinned
  identity.
\<close>

theorem trust_matrix_accepts_exactly:
  "vd_accept (DecideIdentity p res dnsFP has_dns capable) \<longleftrightarrow>
     fresh (state_of p) res
     \<and> (id_status (state_of p) = IdentityPinned \<longrightarrow>
          (\<exists>pf. valid_proof res = Some pf \<and> pf_fingerprint pf = id_fingerprint (state_of p)))"
  by (rule DecideIdentity_accept)

lemma trust_matrix_accepts_exactly_witness:
  "vd_accept (DecideIdentity (Some demo_peer) demo_result zero32 False True)"
  by (rule trust_matrix_accepts_exactly [THEN iffD2])
    (simp add: fresh_def state_of_def demo_peer_def demo_pin_def demo_result_def zero_identity_def
      valid_proof_def demo_proof_def)

text \<open>
  C19 (safety).  The identity a chain walk ends at descends from the pin: every link is a
  statement of the chain, in force at the time, and signed by the key the walk trusted when
  it followed it; at most 32 links are followed; a withdrawal is reported only when the
  chain holds a revocation signed by the key the walk ended at.
\<close>

theorem chain_walk_keeps_lineage:
  assumes "WalkChain E pin pk chain now = (out, err)"
  shows "descends E now (set chain) (pin, pk) (cr_fingerprint out, cr_public_key out)
    \<and> cr_applied out \<le> MaxChainEntries
    \<and> (cr_revoked out \<longrightarrow> err = None \<and> (\<exists>s \<in> set chain. IsRevocation s
           \<and> st_old_fp s = cr_fingerprint out \<and> authorizes E s (cr_public_key out)))"
  using WalkChain_descends [OF assms] WalkChain_applied [OF assms] WalkChain_revoked [OF assms] by auto

lemma chain_walk_keeps_lineage_witness:
  "\<exists>out err. WalkChain inst demo_fp (ed_public demo_key) [demo_rotation] issued = (out, err)
     \<and> descends inst issued {demo_rotation} (demo_fp, ed_public demo_key) (cr_fingerprint out, cr_public_key out)
     \<and> cr_applied out \<le> MaxChainEntries"
proof -
  obtain out err where w: "WalkChain inst demo_fp (ed_public demo_key) [demo_rotation] issued = (out, err)" by fastforce
  from chain_walk_keeps_lineage [OF w] w show ?thesis by auto
qed

text \<open>
  C20 (equivalence).  When no two statements of a chain leave the same identity, the walk does
  not depend on the order in which the chain is stored or delivered.
\<close>

theorem chain_order_is_irrelevant:
  assumes "distinct (map st_old_fp chain)" and "mset chain' = mset chain"
  shows "WalkChain E pin pk chain' now = WalkChain E pin pk chain now"
  by (rule WalkChain_permutation [OF assms])

lemma chain_order_is_irrelevant_witness:
  "WalkChain inst demo_fp (ed_public demo_key) [demo_rotation, demo_rotation\<lparr>st_old_fp := zero32\<rparr>] issued
   = WalkChain inst demo_fp (ed_public demo_key) [demo_rotation\<lparr>st_old_fp := zero32\<rparr>, demo_rotation] issued"
  by (rule chain_order_is_irrelevant) (simp_all add: demo_fp_not_zero [symmetric])

text \<open>
  C21 (roundtrip).  A packed manifest parses back to itself, under the domain it describes.
\<close>

theorem packed_manifest_parses_back:
  assumes "Pack E m = Inr raw" and "codec_law E (manifest_value m)" and "sha256_len E" and "absent_law E"
    and "raw \<noteq> []" and "length raw \<le> MaxBodyBytes"
    and "whole_seconds (mf_issued_at m)" and "whole_seconds (mf_expires_at m)"
  shows "ParseCanonical E raw (mf_domain m) = Inr m"
  by (rule ParseCanonical_Pack [OF assms])

lemma packed_manifest_parses_back_witness:
  "ParseCanonical inst demo_raw example_com = Inr demo_manifest"
  using packed_manifest_parses_back [OF demo_pack inst_laws(2,3,4) demo_raw_size demo_times] by simp

text \<open>
  C22 (safety).  There is one encoding per manifest: bytes that parse are the bytes packing
  the result gives, the manifest is about the domain that was asked for, the body is within
  its limit and its key identifier is the digest of its key.
\<close>

theorem parsed_manifest_is_canonical:
  assumes "ParseCanonical E raw d = Inr m"
  shows "Pack E m = Inr raw \<and> (d = [] \<or> mf_domain m = d) \<and> canonical_domain E (mf_domain m)
    \<and> length raw \<le> MaxBodyBytes
    \<and> KeyIDOf E (mf_domain m) (kd_algorithm (mf_key m)) (kd_encryption (mf_key m))
        (kd_public_key (mf_key m)) = Inr (kd_kid (mf_key m))"
  using ParseCanonical_facts [OF assms] by (auto simp: Pack_Inr)

lemma parsed_manifest_is_canonical_witness:
  "Pack inst demo_manifest = Inr demo_raw \<and> canonical_domain inst (mf_domain demo_manifest)"
  using parsed_manifest_is_canonical [OF ParseCanonical_Pack [OF demo_pack inst_laws(2,3,4) demo_raw_size demo_times]]
  by simp

section \<open>The authority client\<close>

text \<open>
  C23 (safety).  What a fetch returns was read in one round trip with the host derived from the
  domain, at an address the policy permits, without a redirect; its bytes are the whole body,
  within the bound, they parse canonically for the domain, are valid at the moment of the
  fetch and consent to the host, the identifier is the digest of the bytes, the cache ends no
  later than the manifest, and a proof beside it was checked against those bytes.
\<close>

theorem fetched_manifest_is_verified:
  assumes "fetch E (New_resolver opts) W d authority = Inr res"
  shows "\<exists>host u rp. AuthorityHost E d authority = Inr host \<and> DiscoveryURL E d authority = Inr u
     \<and> exchanged (New_resolver opts) W host u rp
     \<and> believed E (New_resolver opts) (nw_now W) d host rp res"
  using fetch_Inr [OF assms] New_resolver_safe(4) [of opts] by (metis order_less_imp_le)

lemma fetched_manifest_is_verified_witness:
  "\<exists>host u rp res. rs_raw res = demo_raw \<and> exchanged (New_resolver demo_options) demo_net host u rp
     \<and> believed inst (New_resolver demo_options) (nw_now demo_net) example_com host rp res"
  using fetched_manifest_is_verified [OF demo_fetched] by (metis fetch_result.select_convs(3))

text \<open>
  C24 (error).  Every failure of a fetch carries a class and none of the sentinels policy is
  decided on, and an absence is the authority's own word: a response with status 404 or 410
  to the derived request, never a network that failed.
\<close>

theorem absence_is_the_authoritys_word:
  "classified (fetch E r W d a)
   \<and> (\<forall>e. fetch E r W d a = Inl e \<and> ClassOf e = Some FailureAbsent \<longrightarrow>
       (\<exists>host u rp. AuthorityHost E d a = Inr host \<and> DiscoveryURL E d a = Inr u
          \<and> exchanged r W host u rp \<and> rp_status rp \<in> {404, 410}))"
  using fetch_classified fetch_absent by blast

lemma absence_is_the_authoritys_word_witness:
  "\<exists>e. fetch inst (New_resolver demo_options) gone_net example_com [] = Inl e \<and> ClassOf e = Some FailureAbsent
     \<and> (\<exists>host u rp. exchanged (New_resolver demo_options) gone_net host u rp \<and> rp_status rp \<in> {404, 410})"
  using absence_is_the_authoritys_word [of inst "New_resolver demo_options" gone_net example_com "[]"] gone_fetch by blast

text \<open>
  C25 (functional).  Publisher and correspondent meet: when the connection a resolver dials ends
  at the handler of a publisher that holds a valid manifest of the domain, the fetch returns
  those bytes, that manifest and that proof, kept until the earlier of the expiry and the whole
  seconds of age the handler stated.
\<close>

theorem published_manifest_is_fetched:
  assumes "NormalizeDomain E d = Inr d" and "AuthorityHost E d a = Inr host"
    and "served_by E (New_resolver opts) W d host t"
    and "hd_publisher t = Some p" and "pu_manifest p d = Some pub"
    and "int (length (pb_raw pub)) \<le> op_max_body (re_opts (New_resolver opts))"
    and "ParseCanonical E (pb_raw pub) d = Inr m"
    and "Validate m (nw_now W) (op_limits (re_opts (New_resolver opts))) = Inr ()"
    and "checkAuthorityConsent E m host = Inr ()"
    and "\<And>pf. pb_proof pub = Some pf \<Longrightarrow> proof_sized pf \<and> Check E (Some pf) d (pb_raw pub) = Inr ()"
    and "maxAge t < 2 ^ 63"
  shows "fetch E (New_resolver opts) W d a = Inr
     \<lparr>rs_manifest = m, rs_manifest_id = ManifestIDOf E (pb_raw pub), rs_raw = pb_raw pub,
      rs_fetched_at = nw_now W,
      rs_expires_at = min (mf_expires_at m)
        (nw_now W + truncate_duration (cacheSeconds t (pb_expires_at pub)) second),
      rs_tls_host = host, rs_proof = pb_proof pub, rs_proof_error = None\<rparr>"
  using New_resolver_safe(4) [of opts] by (intro published_fetched [OF assms(1-5) _ assms(6-)]) simp_all

lemma published_manifest_is_fetched_witness:
  "\<exists>res. fetch inst (New_resolver demo_options) demo_net example_com [] = Inr res
     \<and> rs_raw res = demo_raw \<and> rs_proof res = Some demo_proof"
  using published_manifest_is_fetched [OF normalize_example demo_host demo_served, of demo_publisher demo_publication demo_manifest]
    demo_parsed demo_valid demo_consent demo_checked demo_proof_sized demo_raw_size
  by (simp add: demo_sel demo_resolver_sel)

text \<open>
  C26 (liveness).  A usable manifest keeps mail flowing: over the memory store and the authority
  client, a domain whose record holds a manifest that is usable now gets an answer from the
  outbound path whatever the network does, and the records stay readable.
\<close>

theorem usable_manifest_is_always_answered:
  assumes "canonical_domain E d" and "readable E (book_at book_of w)"
    and "bk_peers (book_at book_of w) d = Some p" and "Usable (Some p) (sv_clock w (sv_ticks w)) \<noteq> None"
  shows "is_ok (fst (fst (run_state (resolveForEncryption E (mem_store E) (net_resolver E (New_resolver opts) net) d acc) w)))
     \<and> readable E (book_at book_of (snd (run_state (resolveForEncryption E (mem_store E) (net_resolver E (New_resolver opts) net) d acc) w)))"
proof (rule conjI)
  show "is_ok (fst (fst (run_state (resolveForEncryption E (mem_store E) (net_resolver E (New_resolver opts) net) d acc) w)))"
    by (rule live.usable_answers [OF assms(1) mem_reads_ok assms(2-4)])
  have "keeps (\<lambda>w. readable E (book_at book_of w)) (resolveForEncryption E (mem_store E) (net_resolver E (New_resolver opts) net) d acc)"
    by (rule live.outbound_readable [OF assms(1)])
  then show "readable E (book_at book_of (snd (run_state (resolveForEncryption E (mem_store E) (net_resolver E (New_resolver opts) net) d acc) w)))"
    using assms(2) by (auto simp: keeps_def triple_def)
qed

lemma usable_manifest_is_always_answered_witness:
  "is_ok (fst (fst (run_state (resolveForEncryption inst (mem_store inst)
     (net_resolver inst (New_resolver demo_options) (\<lambda>n. gone_net)) example_com False) installed_world)))"
proof -
  obtain p where p: "bk_peers (book_at book_of installed_world) example_com = Some p" using installed_peer by auto
  show ?thesis
    using usable_manifest_is_always_answered [OF demo_canonical installed_readable p installed_usable [OF p]] by blast
qed

section \<open>Concurrent callers\<close>

text \<open>
  C27 (bounds).  However callers interleave, no more fetches run than there are slots, manifest and
  identity fetches together, and there is one call per key: everybody who asks for the same domain
  and authority meanwhile joins it.
\<close>

theorem concurrent_callers_share_a_fetch:
  assumes "flight_run (flight_init n) ls w"
  shows "card (fetching w) + fl_chain_fetching w \<le> n
     \<and> (\<forall>c c' k. key_of (fl_stage w c) = Some k \<and> key_of (fl_stage w c') = Some k \<longrightarrow> c = c')"
  using flight_bounds [OF assms] by blast

lemma concurrent_callers_share_a_fetch_witness: "card (fetching demo_flight) \<le> 1"
  using concurrent_callers_share_a_fetch [OF demo_flies] by simp

text \<open>
  C28 (termination).  Nobody waits for ever, though manifest fetches and identity fetches compete for
  the same slots: while a caller waits for a call, or an identity fetch for a slot or for its answer,
  something can move without anybody giving up or being cancelled, and every step of a call, of a
  waiter or of an identity fetch uses up work that only a new caller adds.
\<close>

theorem flights_come_to_an_end:
  assumes "flight_run (flight_init n) ls w" and "0 < n"
  shows "(fl_waiting w \<noteq> [] \<or> 0 < fl_chain_waiting w + fl_chain_fetching w \<longrightarrow>
       (\<exists>l w'. flight_step w l w' \<and> internal l \<and> patient l))
     \<and> (\<forall>l w'. flight_step w l w' \<and> internal l \<longrightarrow> flight_work w' < flight_work w)"
proof -
  have wf: "flight_wf w" by (rule flight_wf_run [OF assms(1) flight_wf_init])
  have cap: "0 < fl_capacity w" using assms(2) flight_capacity [OF assms(1)] by (simp add: flight_init_def)
  show ?thesis
  proof (intro conjI impI allI)
    show "\<exists>l w'. flight_step w l w' \<and> internal l \<and> patient l"
      if "fl_waiting w \<noteq> [] \<or> 0 < fl_chain_waiting w + fl_chain_fetching w"
      using that by (elim disjE) (rule flight_progress [OF wf cap], assumption, rule chain_progress [OF wf cap])
  qed (use flight_work_less [OF wf] in blast)
qed

lemma flights_come_to_an_end_witness:
  "\<exists>l w'. flight_step demo_flight l w' \<and> internal l \<and> flight_work w' < flight_work demo_flight"
  using flights_come_to_an_end [OF demo_flies] by (simp del: One_nat_def) blast

text \<open>
  C29 (safety).  Callers that joined one call read one outcome, whenever each of them wakes, and
  it is the outcome the call's own fetch landed or its cancellation produced.
\<close>

theorem joined_callers_agree:
  assumes "flight_run (flight_init n) ls w" and "flight_step w (FWake c r) w1"
    and "flight_run w1 ls' w2" and "flight_step w2 (FWake c r') w3"
  shows "r' = r \<and> (FLand c r \<in> set ls \<or> FCancel c r \<in> set ls)"
proof -
  have wf: "flight_wf w" by (rule flight_wf_run [OF assms(1) flight_wf_init])
  have "outcome_of (fl_stage w c) = Some r" using assms(2) by cases simp
  then have "outcome_of (fl_stage w1 c) = Some r" using outcome_step [OF assms(2) wf] by blast
  moreover have "outcome_of (fl_stage w2 c) = Some r'" using assms(4) by cases simp
  ultimately have "r' = r" using outcome_once [OF assms(3) flight_wf_step [OF wf assms(2)]] by simp
  then show ?thesis using wake_agrees [OF assms(1,2)] by blast
qed

lemma joined_callers_agree_witness:
  "\<exists>w1 w2 w3. flight_step demo_flight (FWake 0 7) w1 \<and> flight_run w1 [] w2 \<and> flight_step w2 (FWake 0 7) w3
     \<and> FLand 0 7 \<in> set demo_labels"
proof -
  let ?w1 = "demo_flight\<lparr>fl_waiting := [0]\<rparr>" and ?w3 = "demo_flight\<lparr>fl_waiting := []\<rparr>"
  have a: "flight_step demo_flight (FWake 0 7) ?w1" using flight_wake [of 0 demo_flight 7] by simp
  have b: "flight_step ?w1 (FWake 0 7) ?w3" using flight_wake [of 0 ?w1 7] by simp
  have "(7::nat) = 7 \<and> (FLand 0 7 \<in> set demo_labels \<or> FCancel 0 7 \<in> set demo_labels)"
    by (rule joined_callers_agree [OF demo_flies a flight_nil b])
  then have "FLand 0 7 \<in> set demo_labels" by (auto simp: demo_labels_def)
  with a b flight_nil show ?thesis by blast
qed

section \<open>Names, records and documents; stores and queues\<close>

text \<open>
  C30 (roundtrip).  A formatted header, when it is short enough to be accepted at all, parses to
  the advertisement it was made from; with no delegated authority it always is.
\<close>

theorem header_round_trip:
  assumes "idna_ldh E" and "length i = 32" and "FormatHeader E domain i authority = Inr s"
  shows "(authority = [] \<longrightarrow> length s \<le> MaxHeaderLen)
    \<and> (length s \<le> MaxHeaderLen \<longrightarrow> (\<exists>d a. NormalizeDomain E domain = Inr d
        \<and> (authority = [] \<and> a = [] \<or> authority \<noteq> [] \<and> NormalizeDomain E authority = Inr a)
        \<and> ParseHeader E s = Inr \<lparr>ad_version = Version, ad_domain = d, ad_authority = collapse d a,
             ad_manifest_id = i, ad_has_id = True, ad_fingerprint = zero32, ad_has_fp = False,
             ad_mode = Mode\<rparr>))"
  using FormatHeader_fits [OF assms(1,2)] ParseHeader_FormatHeader [OF assms] assms(3) by metis

lemma header_round_trip_witness:
  "\<exists>s. FormatHeader inst example_com zero32 [] = Inr s \<and> is_ok (ParseHeader inst s)"
proof -
  have "is_ok (FormatHeader inst example_com zero32 [])" by (simp add: FormatHeader_def normalize_example)
  then obtain s where s: "FormatHeader inst example_com zero32 [] = Inr s" by (auto simp: is_ok_iff)
  have "length zero32 = 32" by (simp add: zero32_def)
  from header_round_trip [OF inst_laws(1) this s] s show ?thesis by (auto simp: is_ok_iff)
qed

text \<open>
  C31 (type).  An inbound header is trusted for nothing it does not say canonically: an
  advertisement that parses names normalized domains only, a delegate that is not the
  subject, and at least one digest of 32 bytes.
\<close>

theorem parsed_header_is_well_formed:
  assumes "idna_ldh E" and "ParseHeader E h = Inr ad"
  shows "advertisement_ok E ad"
  by (rule ParseHeader_ok [OF assms])

lemma parsed_header_is_well_formed_witness:
  "\<exists>s ad. FormatHeader inst example_com zero32 [] = Inr s \<and> ParseHeader inst s = Inr ad \<and> advertisement_ok inst ad"
proof -
  have "is_ok (FormatHeader inst example_com zero32 [])" by (simp add: FormatHeader_def normalize_example)
  then obtain s where s: "FormatHeader inst example_com zero32 [] = Inr s" by (auto simp: is_ok_iff)
  have "length zero32 = 32" by (simp add: zero32_def)
  from ParseHeader_FormatHeader [OF inst_laws(1) this s] FormatHeader_fits [OF inst_laws(1) this s]
  obtain ad where "ParseHeader inst s = Inr ad" by metis
  with parsed_header_is_well_formed [OF inst_laws(1) this] s show ?thesis by blast
qed

text \<open>
  C32 (roundtrip).  A packed identity document parses back, authorities and statements included, with
  the constant fields filled in and the domain normalized, whatever the document to pack had there:
  provided its fingerprint is the one of its key and its normalized domain, the bytes are within
  \<^verbatim>\<open>MaxChainBytes\<close>, its time is of whole seconds, and so are the times of its statements, whose
  fingerprints have 32 bytes.
\<close>

theorem identity_document_round_trip:
  assumes "idna_ldh E" and "PackDoc E d = Inr raw" and "NormalizeDomain E (dc_domain d) = Inr dm"
    and "FingerprintOf E dm (dc_active_pk d) = Inr (dc_active_fp d)"
    and "absent_law E" and "codec_law E (sorted_map_of (doc_fields dm d))"
    and "length raw \<le> MaxChainBytes" and "sha256_len E"
    and "list_all storable (dc_chain d)" and "whole_seconds (dc_updated_at d)"
  shows "ParseDoc E (dc_domain d) raw
     = Inr (d\<lparr>dc_type := DocType, dc_version := Version, dc_domain := dm, dc_alg := Alg\<rparr>)"
  using ParseDoc_completed [OF assms(1,3,2,3-)] by (simp add: completed_def)

lemma identity_document_round_trip_witness:
  "ParseDoc inst example_com demo_doc_raw = Inr demo_doc
   \<and> PackDoc inst (demo_doc\<lparr>dc_type := [], dc_version := [], dc_alg := []\<rparr>) = Inr demo_doc_raw"
proof -
  let ?d = "demo_doc\<lparr>dc_type := [], dc_version := [], dc_alg := []\<rparr>"
  have p: "PackDoc inst ?d = Inr demo_doc_raw"
    by (simp add: PackDoc_Inr demo_doc_def normalize_example demo_doc_raw_def doc_fields_def)
  from identity_document_round_trip [OF inst_laws(1) this _ _ inst_laws(4,2) demo_doc_size inst_laws(3), of example_com] p
  show ?thesis by (simp add: demo_doc_def normalize_example demo_fingerprint)
qed

text \<open>
  C33 (refinement).  The in-memory store keeps the persistence contract: every operation fails
  without effect or performs the transition of the peer state machine it stands for, on the
  book of peers and latches its maps represent, and touches nothing else.
\<close>

theorem memory_store_refines_contract: "store_contract E (mem_store E) book_of"
  by (rule mem.store_contract_axioms)

text \<open>
  C34 (invariant).  Every operation of the memory store keeps it well formed: one record per
  canonical domain under its own name, one observation per source, at most eight issues
  with distinct codes, at most eight manifests of history.
\<close>

theorem memory_store_stays_well_formed:
  assumes "idna_ldh E" and "memstore_wf E s" and "mem_step E s s'"
  shows "memstore_wf E s'"
  by (rule mem_step_wf [OF assms])

lemma memory_store_stays_well_formed_witness:
  "memstore_wf inst (snd (SetPolicy inst example_com PolicyRequire (NewMemStore (\<lambda>n. 7))))"
  by (rule memory_store_stays_well_formed [OF inst_laws(1) _ mem_step.intros(8)])
    (simp add: memstore_wf_def NewMemStore_def)

text \<open>
  C35 (bounds).  However many domains are advertised, the new peers admitted over a stretch of
  time are bounded by the tokens at its start plus one per refill interval.
\<close>

theorem new_peers_are_rate_limited:
  assumes "clock_sane (am_last_refill a) ts" and "0 < am_refill_each a" and "0 \<le> am_tokens a"
    and "0 \<le> am_burst a"
  shows "of_nat (fst (admit_run a ts))
     \<le> am_tokens a + of_int (last (am_last_refill a # ts) - am_last_refill a) / of_int (am_refill_each a)"
  by (rule admit_run_bound [OF assms])

lemma new_peers_are_rate_limited_witness:
  "of_nat (fst (admit_run (newAdmission 0 2 hour 5) [6, 7, 8, 9])) \<le> (2 :: rat) + 4 / of_int hour"
  using new_peers_are_rate_limited [of "newAdmission 0 2 hour 5" "[6, 7, 8, 9]"]
  by (simp add: newAdmission_def clock_sane_def)

text \<open>
  C36 (safety).  Observing decides nothing: whatever a DNS answer holds, the manifest in force,
  the history, the pin, the policy and the latch of every domain are what they were.
\<close>

theorem observing_changes_no_trust:
  assumes "store_contract E S view" and "idna_ldh E"
    and "run_state (ObserveDNS E S domain txt) w = (r, w')"
  shows "same_trust (book_at view w) (book_at view w')"
  by (rule tripleD [OF keeps_triple [OF store_contract.ObserveDNS_trust [OF assms(1,2)]] same_trust_refl assms(3)])

lemma observing_changes_no_trust_witness:
  "same_trust (book_at book_of demo_world)
     (book_at book_of (snd (run_state (ObserveDNS inst demo_store example_com
        [FormatDNS inst demo_fp True zero32 []]) demo_world)))"
  by (rule observing_changes_no_trust [OF demo_contract inst_laws(1) surjective_pairing])

text \<open>
  C37 (liveness).  A domain whose trigger was absorbed by a pending one is not forgotten: in
  every interleaving of callers and workers it is still pending, or a resolution of it
  started after, or a full queue dropped it at the point where \<^verbatim>\<open>OnDrop\<close>, when it is set, is told;
  and the shared state stays well formed.
\<close>

theorem triggers_are_not_lost:
  assumes "async_wf w" and "async_run w ls w'" and "d \<in> sh_pending w"
  shows "async_wf w' \<and> (d \<in> sh_pending w' \<or> LStart d \<in> set ls \<or> LShed d \<in> set ls)
    \<and> card (sh_pending w') \<le> sh_capacity w + sh_workers w + length (sh_reserved w') + length (sh_shedding w')"
  using async_wf_run [OF assms(2,1)] async_not_lost [OF assms(2,3)] async_pending_bound [of w']
    async_sizes [OF assms(2)] by simp

lemma triggers_are_not_lost_witness:
  "\<exists>w ls w'. async_run w ls w' \<and> ls = [LDup example_com, LSend example_com, LTake example_com, LStart example_com]
     \<and> LStart example_com \<in> set ls \<and> async_wf w'"
proof -
  let ?w = "(async_init 1 1)\<lparr>sh_pending := {example_com}, sh_reserved := [example_com]\<rparr>"
  let ?ls = "[LDup example_com, LSend example_com, LTake example_com, LStart example_com]"
  obtain w' where r: "async_run ?w ?ls w'"
    by (rule that, rule async_cons [OF async_dup], simp, rule async_cons [OF async_send], simp, simp add: async_init_def,
        rule async_cons [OF async_take], simp add: async_init_def, simp add: async_init_def,
        rule async_cons [OF async_start], simp, rule async_nil)
  have "async_wf ?w" by (simp add: async_wf_def async_init_def holders_def)
  from triggers_are_not_lost [OF this r] r show ?thesis by auto
qed

section \<open>The end of a service\<close>

text \<open>
  C38 (termination).  \<^verbatim>\<open>Close\<close> comes to an end and leaves nothing running: once the service is
  stopped, the threads can make only as many steps as there is work left, unless callers bring
  new triggers, and until \<^verbatim>\<open>Close\<close> returns one of them can move; and from a state in which it
  has returned no run takes, starts or finishes a resolution, whatever is still triggered.
\<close>

theorem close_comes_to_an_end:
  assumes "life_wf w" and "life_run w ls w'"
  shows "(list_all inner ls \<longrightarrow> length ls \<le> life_left w)
     \<and> (lf_stopped w' \<and> \<not> lf_closed w' \<longrightarrow> (\<exists>l w''. life_step w' l w'' \<and> inner l))
     \<and> (lf_closed w \<longrightarrow> list_all (\<lambda>l. \<not> resolves l) ls \<and> busy (lf_shared w') = 0)"
  using inner_run_bounded [OF assms(2,1)] close_progress [OF life_wf_run [OF assms(2,1)]]
    closed_is_quiet [OF assms(2,1)] by auto

lemma close_comes_to_an_end_witness:
  "life_run (life_init 4 1) [LStop, LExit, LClosed] closed_life
     \<and> length [LStop, LExit, LClosed] \<le> life_left (life_init 4 1) \<and> busy (lf_shared closed_life) = 0"
proof -
  have "life_wf closed_life" using life_wf_run [OF closed_life_reached life_wf_init] .
  from close_comes_to_an_end [OF this life_nil] close_comes_to_an_end [OF life_wf_init closed_life_reached]
  show ?thesis using closed_life_reached by (simp add: closed_life_def)
qed

section \<open>The well-known handler\<close>

text \<open>
  C39 (safety).  A handler speaks for its publisher's domains only: an answer with a document is, at
  the path of the identity resource, the identity document and, at every other path, the publication
  the publisher holds for a normalized domain the request names, with its own bytes and tag, and a
  publication with its own proof and lifetime.
\<close>

theorem handler_answers_for_its_publisher:
  assumes "an_status (ServeHTTP E t r) \<in> {200, 304}"
  shows "\<exists>p ds d. hd_publisher t = Some p \<and> candidates E r = Some ds \<and> d \<in> set ds
     \<and> (\<exists>x. NormalizeDomain E x = Inr d)
     \<and> (if rq_path r = ResourcePath
         then \<exists>doc_of raw. pu_identity p = Some doc_of \<and> doc_of d = Some raw \<and> raw \<noteq> []
           \<and> ServeHTTP E t r = conditional r (etag_of (ex_sha256 E raw))
               (doc_header (etag_of (ex_sha256 E raw)) (maxAge t)) raw
         else \<exists>pub. pu_manifest p d = Some pub \<and> pb_raw pub \<noteq> []
           \<and> ServeHTTP E t r = conditional r (etag_of (pb_id pub))
               (WriteProof (doc_header (etag_of (pb_id pub)) (cacheSeconds t (pb_expires_at pub))) (pb_proof pub))
               (pb_raw pub))"
proof (cases "rq_path r = ResourcePath")
  case True
  from ServeHTTP_identity_document [OF assms this] True show ?thesis using candidates_normal by simp blast
next
  case False
  from ServeHTTP_document [OF assms this] False show ?thesis using candidates_normal by simp blast
qed

lemma handler_answers_for_its_publisher_witness:
  "\<exists>d pub. pu_manifest demo_publisher d = Some pub
     \<and> an_body (ServeHTTP inst demo_handler demo_request) \<in> {[], pb_raw pub}"
proof -
  have "an_status (ServeHTTP inst demo_handler demo_request) \<in> {200, 304}" "rq_path demo_request \<noteq> ResourcePath"
    using demo_request_served by (simp_all add: demo_request_def WellKnownPath_def ResourcePath_def)
  note served = handler_answers_for_its_publisher [OF this(1), unfolded if_not_P [OF this(2)]]
  obtain p d pub e h where "hd_publisher demo_handler = Some p" and "pu_manifest p d = Some pub"
    and "ServeHTTP inst demo_handler demo_request = conditional demo_request e h (pb_raw pub)"
    using served by (elim exE conjE) (rule that)
  moreover have "an_body (conditional demo_request e h b) \<in> {[], b}" for e h b by (simp add: conditional_def Let_def)
  ultimately show ?thesis using demo_sel(1) by fastforce
qed

section \<open>Dialing\<close>

text \<open>
  C40 (safety).  A dialer never connects to an address its policy refuses, and a connection it
  returns is one to an address the policy permits, on the port it was configured with.
\<close>

theorem dialer_connects_to_permitted_only:
  assumes "DialContext dl addr = (tried, r)"
  shows "(\<forall>a \<in> set tried. Permit (dl_policy dl) a = Inr ())
    \<and> (case r of Inl e \<Rightarrow> True | Inr c \<Rightarrow>
         (\<exists>a. Permit (dl_policy dl) a = Inr () \<and> dl_connect dl a (dl_port dl) = Inr c)
         \<and> (\<exists>host. split_host_port addr = Some (host, dl_port dl)))"
  using DialContext_permitted [OF assms] by (auto split: sum.splits)

lemma dialer_connects_to_permitted_only_witness:
  "DialContext demo_dialer ''mail.example.com:443'' = ([IPv4 (word_of_octets [8, 8, 8, 8])], Inr ''connected'')
   \<and> Permit (dl_policy demo_dialer) (IPv4 (word_of_octets [8, 8, 8, 8])) = Inr ()"
  using dialer_connects_to_permitted_only [OF demo_dial] demo_dial by simp

section \<open>Further facts\<close>

text \<open>
  No resolution clears a latch: whatever the peer, the resolver and the store
  do, a domain that has published before a call of the outbound path has published after it.
\<close>

theorem latch_survives_resolution:
  assumes "store_contract E S view" and "canonical_domain E d"
    and "cp_ever_validated (bk_caps (book_at view w) d')"
    and "run_state (resolveForEncryption E S R d acc) w = (r, w')"
  shows "cp_ever_validated (bk_caps (book_at view w') d')"
  by (rule tripleD [OF keeps_triple [OF store_contract.keeps_resolve(5) [OF assms(1,2) store_contract.latched_kept [OF assms(1)]]] assms(3,4)])

lemma latch_survives_resolution_witness:
  "cp_ever_validated (bk_caps (book_at book_of
     (snd (run_state (resolveForEncryption inst demo_store demo_resolver example_com False) demo_world))) example_com)"
proof -
  have "cp_ever_validated (bk_caps (book_at book_of demo_world) example_com)"
    using demo_guarded by (simp add: guarded_def cap_requires_def)
  from latch_survives_resolution [OF demo_contract demo_canonical this surjective_pairing] show ?thesis .
qed

text \<open>
  A rotation signed with both keys takes the walk from the old identity to
  the new one, from its not-before time until it expires, and there is nothing else to
  follow.
\<close>

theorem signed_rotation_is_followed:
  assumes "ed_law E" and "SignRotation E domain oldPriv newPriv nb ca ea = Inr s"
    and "nb \<le> now" and "ea = zero_time \<or> now < ea"
  shows "VerifyStatement E s (ed_public oldPriv) = Inr ()
     \<and> WalkChain E (st_old_fp s) (ed_public oldPriv) [s] now
       = (\<lparr>cr_fingerprint = st_new_fp s, cr_public_key = ed_public newPriv, cr_applied = 1,
           cr_revoked = False, cr_reason = []\<rparr>, None)"
  using SignRotation_verifies(1) [OF assms(1,2)] WalkChain_single [OF assms] by simp

lemma signed_rotation_is_followed_witness:
  "fst (WalkChain inst demo_fp (ed_public demo_key) [demo_rotation] issued)
   = \<lparr>cr_fingerprint = inst_sha256 (enc (fingerprint_preimage example_com (ed_public next_key))),
      cr_public_key = ed_public next_key, cr_applied = 1, cr_revoked = False, cr_reason = []\<rparr>"
  using signed_rotation_is_followed [OF inst_laws(5) demo_rotated order_refl disjI1 [OF refl]] by simp

text \<open>
  The signed transcript has no separator, and needs none: two domains and two
  bodies that give one transcript are the same, for bodies that start as a manifest does.
\<close>

theorem transcript_is_unambiguous:
  assumes "idna_ldh E" and "transcript E x r = Inr msg" and "transcript E x' r' = Inr msg"
    and "starts_binary r" and "starts_binary r'"
  shows "NormalizeDomain E x = NormalizeDomain E x' \<and> r = r'"
  by (rule transcript_inject [OF assms])

lemma transcript_is_unambiguous_witness:
  "transcript inst example_com [CHR 0x86] = Inr (ManifestContext @ example_com @ [CHR 0x86])
   \<and> NormalizeDomain inst example_com = NormalizeDomain inst example_com"
proof -
  have t: "transcript inst example_com [CHR 0x86] = Inr (ManifestContext @ example_com @ [CHR 0x86])"
    by (simp add: transcript_Inr normalize_example)
  have b: "starts_binary [CHR 0x86]" by code_simp
  from transcript_is_unambiguous [OF inst_laws(1) t t b b] t show ?thesis by simp
qed

text \<open>
  No cache keeps an answer past its expiry or past the configured age; an expired
  manifest may not be kept at all.
\<close>

theorem answers_expire_with_the_manifest:
  assumes "expires \<noteq> zero_time"
  shows "0 \<le> cacheSeconds t expires \<and> cacheSeconds t expires \<le> maxAge t
     \<and> (if hd_now t \<le> expires then hd_now t + cacheSeconds t expires \<le> expires else cacheSeconds t expires = 0)"
proof (cases "hd_now t \<le> expires")
  case True
  then show ?thesis using cacheSeconds_bounds [OF assms True] by simp
next
  case False
  have "0 < maxAge t" by (simp add: maxAge_def MaxCacheAge_def)
  then show ?thesis using False cacheSeconds_expired [OF assms, of t] by simp
qed

lemma answers_expire_with_the_manifest_witness:
  "issued + 4 * second \<noteq> zero_time \<and> cacheSeconds demo_handler (issued + 4 * second) \<le> hour"
  using answers_expire_with_the_manifest [of "issued + 4 * second" demo_handler]
  by (simp add: issued_def maxAge_def demo_handler_def MaxCacheAge_def)

text \<open>
  The next refresh of an installed manifest lies between the fetch and its
  expiry, for a lifetime that fits a duration.
\<close>

theorem refresh_is_scheduled_within_lifetime:
  assumes "rs_fetched_at r \<le> e" and "e - rs_fetched_at r < 2 ^ 63"
    and "e = (if rs_expires_at r = zero_time then mf_expires_at (rs_manifest r) else rs_expires_at r)"
  shows "rs_fetched_at r \<le> refreshAt r \<and> refreshAt r \<le> e"
  by (rule refreshAt_bounds [OF assms])

lemma refresh_is_scheduled_within_lifetime_witness:
  "issued \<le> refreshAt demo_result \<and> refreshAt demo_result \<le> issued + 4 * second"
  using refresh_is_scheduled_within_lifetime [of demo_result "issued + 4 * second"]
  by (simp add: demo_result_def)

text \<open>
  While a domain is pending and there is a worker, some thread can take an
  internal step, and every such step lowers the work left: without new triggers the queue
  drains.
\<close>

theorem queue_drains:
  assumes "async_wf w" and "sh_pending w \<noteq> {}" and "0 < sh_workers w"
  shows "\<exists>l w'. async_step w l w' \<and> (\<forall>d. l \<noteq> LDup d \<and> l \<noteq> LReserve d) \<and> work_left w' < work_left w"
  using async_progress [OF assms] async_work by blast

lemma queue_drains_witness:
  "\<exists>l w'. async_step ((async_init 1 1)\<lparr>sh_pending := {example_com}, sh_reserved := [example_com]\<rparr>) l w' \<and> work_left w' < 5"
proof -
  let ?w = "(async_init 1 1)\<lparr>sh_pending := {example_com}, sh_reserved := [example_com]\<rparr>"
  have "async_wf ?w" "sh_pending ?w \<noteq> {}" "0 < sh_workers ?w" "work_left ?w = 5"
    by (simp_all add: async_wf_def async_init_def holders_def work_left_def)
  with queue_drains [of ?w] show ?thesis by auto
qed

text \<open>
  The protection of a latched domain holds among any number of goroutines: between
  two store calls of one resolution the others may have made any calls of the service, observed,
  resolved, pinned or installed; the resolution still ends in a manifest or in an error that
  matches \<^verbatim>\<open>ErrEncryptionRequired\<close>, and leaves the domain protected.
\<close>

theorem protection_holds_among_threads:
  assumes "store_contract E S view" and "resolver_calm R"
    and "canonical_domain E d" and "NormalizeDomain E domain = Inr d"
    and "guarded d (view (cw_store (sv_store w)))"
    and "\<And>n s. book_step\<^sup>*\<^sup>* (view s) (view (cw_others (sv_store w) n s))"
    and "run_state (resolveEncrypting E (crowd_store S) R domain acc) w = (r, w')"
    and "cw_calls (sv_store w) = []"
  shows "(case r of Inr res \<Rightarrow> True | Inl e \<Rightarrow> is_required e) \<and> guarded d (view (cw_store (sv_store w')))"
proof -
  have "crowd_keeps (\<lambda>s. guarded d (view s)) (sv_store w)"
    using assms(5,8) steps_keep_guarded [OF assms(6)] by (simp add: crowd_keeps_def)
  from tripleD [OF guarded_store.no_downgrade
      [OF guarded_store.among_others [OF store_contract.guarded_view [OF assms(1)]] assms(3,4,2)] this assms(7)]
  show ?thesis by (auto simp: crowd_keeps_def split: sum.splits)
qed

lemma protection_holds_among_threads_witness:
  "\<exists>r w'. run_state (resolveEncrypting inst (crowd_store demo_store) demo_resolver example_com False) busy_world = (r, w')
     \<and> (case r of Inr res \<Rightarrow> True | Inl e \<Rightarrow> is_required e)"
proof -
  obtain r w' where run: "run_state (resolveEncrypting inst (crowd_store demo_store) demo_resolver example_com False) busy_world = (r, w')"
    by (cases "run_state (resolveEncrypting inst (crowd_store demo_store) demo_resolver example_com False) busy_world")
  from protection_holds_among_threads [OF demo_contract demo_resolver_calm demo_canonical normalize_example
      busy_guarded busy_steps run busy_sel(3)] run
  show ?thesis by blast
qed

text \<open>
  The lineage of a pin holds among any number of goroutines that keep it: however
  their store calls fall between those of a resolution, and though each decides on its own
  reading of the record, what is handed out is a cached record of the lineage or a manifest
  signed by an identity reached from the pin by statements each preceding key signed, and the
  stored pin is such an identity.
\<close>

theorem lineage_holds_among_threads:
  assumes "store_contract E S view" and "reads_ok E S"
    and "canonical_domain E d" and "NormalizeDomain E domain = Inr d"
    and "lineage_book E d eff x (view (cw_store (sv_store w)))"
    and "\<And>n s. lineage_book E d eff x (view s) \<Longrightarrow> lineage_book E d eff x (view (cw_others (sv_store w) n s))"
    and "run_state (ResolveForEncryption E (crowd_store S) R domain) w = (r, w')"
    and "cw_calls (sv_store w) = []"
  shows "lineage_answer E d eff x r \<and> lineage_book E d eff x (view (cw_store (sv_store w')))"
proof -
  have "reliable_store E S view"
    using assms(1,2) by (simp add: reliable_store_def reliable_store_axioms_def)
  note l = lineage_store.among_lineage [OF reliable_store.lineage_view [OF this]]
  have "crowd_keeps (\<lambda>s. lineage_book E d eff x (view s)) (sv_store w)"
    using assms(5,6,8) by (simp add: crowd_keeps_def)
  from tripleD [OF lineage_store.encrypting_lineage [OF l assms(3,4)] this
      assms(7) [unfolded ResolveForEncryption_def]]
  show ?thesis by (simp add: crowd_keeps_def)
qed

lemma lineage_holds_among_threads_witness:
  "case run_state (ResolveForEncryption inst (crowd_store demo_store) demo_resolver example_com) busy_world of
     (r, w') \<Rightarrow> lineage_answer inst example_com None (zero32, zero32) r
        \<and> lineage_book inst example_com None (zero32, zero32) (book_of (cw_store (sv_store w')))"
  using lineage_holds_among_threads [OF demo_contract mem_reads_ok demo_canonical normalize_example
      busy_lineage busy_others _ busy_sel(3), of demo_resolver]
  by (auto split: prod.splits)

text \<open>
  A manifest validates exactly when it expires after it was issued, lives no
  longer than the limit, was not issued further in the future than the skew allows, and
  has not expired; for limits that fit a duration, no saturated subtraction changes that.
\<close>

theorem manifest_validity_window:
  assumes "lim_max_lifetime limits < 2 ^ 63 - 1"
  shows "Validate m now limits = Inr () \<longleftrightarrow>
     mf_issued_at m < mf_expires_at m
     \<and> (lim_max_lifetime limits > 0 \<longrightarrow> mf_expires_at m - mf_issued_at m \<le> lim_max_lifetime limits)
     \<and> mf_issued_at m \<le> now + lim_max_clock_skew limits \<and> now < mf_expires_at m"
  by (rule Validate_Inr [OF assms])

lemma manifest_validity_window_witness:
  "Validate demo_manifest issued DefaultLimits = Inr ()"
  by (subst manifest_validity_window) (simp_all add: DefaultLimits_def)

text \<open>
  A formatted TXT record parses to the advertisement it was made from, and
  nothing is skipped.
\<close>

theorem dns_round_trip:
  assumes "idna_ldh E" and "length i = 32" and "length fp = 32" and "NormalizeDomain E domain = Inr d"
  shows "ParseDNS E domain [FormatDNS E fp hasFP i authority] =
    Inr ([\<lparr>ad_version = Version, ad_domain = d,
           ad_authority = collapse d (dns_authority E authority),
           ad_manifest_id = (if hasFP then zero32 else i), ad_has_id = (\<not> hasFP),
           ad_fingerprint = (if hasFP then fp else zero32), ad_has_fp = hasFP,
           ad_mode = Mode\<rparr>], [])"
  by (rule ParseDNS_FormatDNS [OF assms])

lemma dns_round_trip_witness:
  "is_ok (ParseDNS inst example_com [FormatDNS inst demo_fp True zero32 []])"
  by (subst dns_round_trip [OF inst_laws(1) _ _ normalize_example]) (simp_all add: zero32_def demo_fp_def)

text \<open>
  A key identifier binds the domain, the suite and the public key: two that
  agree name the same key, or exhibit a collision of the digest.
\<close>

theorem key_identifier_binds:
  assumes "KeyIDOf E d a e p = Inr k" and "KeyIDOf E d' a' e' p' = Inr k"
    and "codec_law E (key_preimage d a e p)" and "codec_law E (key_preimage d' a' e' p')"
  shows "d = d' \<and> a = a' \<and> e = e' \<and> p = p'
    \<or> (\<exists>r r'. ex_pack E (key_preimage d a e p) = Some r
          \<and> ex_pack E (key_preimage d' a' e' p') = Some r' \<and> collision E r r')"
  by (rule KeyIDOf_binds [OF assms])

lemma key_identifier_binds_witness:
  "\<exists>k. KeyIDOf inst example_com AlgX25519 EncAES256GCM zero32 = Inr k
     \<and> (\<exists>d a e p. KeyIDOf inst d a e p = Inr k \<and>
          (example_com = d \<and> AlgX25519 = a \<and> EncAES256GCM = e \<and> zero32 = p
          \<or> (\<exists>r r'. collision inst r r')))"
proof -
  have k: "KeyIDOf inst example_com AlgX25519 EncAES256GCM zero32
      = Inr (inst_sha256 (enc (key_preimage example_com AlgX25519 EncAES256GCM zero32)))"
    by (simp add: KeyIDOf_Inr checkSuite_Inr pubKeyLenX25519_def zero32_def)
  from key_identifier_binds [OF k k inst_laws(2) inst_laws(2)] k show ?thesis by blast
qed

end
